(* ===== verification/Prelude.thy ===== *)
theory Prelude
  imports Main "HOL-Library.AList"
begin

text \<open>
  Prelude of the LAN-IM development: what the components share of the Go language and of its
  standard library.

  \<^item> Integers. A Go \<^verbatim>\<open>int64\<close> (and \<^verbatim>\<open>int\<close> on the 64-bit targets of the project) is an
    \<open>int\<close>; where the code can overflow the model wraps with \<open>wrap64\<close>. Conversions to \<^verbatim>\<open>int8\<close>
    and \<^verbatim>\<open>uint64\<close> are \<open>wrap8\<close> and \<open>to_uint64\<close>.
  \<^item> Bytes and strings. A Go string is a sequence of bytes; so is \<open>string\<close> (8-bit \<open>char\<close>s), and
    \<open>length\<close> is Go's \<^verbatim>\<open>len\<close>. A \<^verbatim>\<open>[]byte\<close> payload is a \<open>string\<close> too.
  \<^item> Time. A \<^verbatim>\<open>time.Time\<close> is its distance to the Unix epoch in nanoseconds, an unbounded
    \<open>int\<close>; \<open>UnixNano\<close> and \<open>UnixMilli\<close> are what the Go methods compute from it.
  \<^item> Maps. A Go map is an association list without duplicate keys; the order of the list stands
    for one iteration order (\<^verbatim>\<open>for k, v := range m\<close>), which Go leaves open. The laws that the
    components use are the locale \<open>go_map\<close>, interpreted as \<open>gm\<close>.
  \<^item> Decimal text: \<open>FormatInt\<close> and \<open>ParseInt\<close> are \<^verbatim>\<open>strconv.FormatInt(x, 10)\<close> and
    \<^verbatim>\<open>strconv.ParseInt(s, 10, 64)\<close>, with the round trip between them.
\<close>

named_theorems go_arith \<open>facts on the fixed-width conversions\<close>
named_theorems go_defs \<open>definitions of the standard-library layer\<close>

section \<open>Fixed-width integers\<close>

definition wrap64 :: "int \<Rightarrow> int" where
  "wrap64 x = (x + 2 ^ 63) mod 2 ^ 64 - 2 ^ 63"

definition wrap8 :: "int \<Rightarrow> int" where
  "wrap8 x = (x + 2 ^ 7) mod 2 ^ 8 - 2 ^ 7"

definition to_uint64 :: "int \<Rightarrow> int" where
  "to_uint64 x = x mod 2 ^ 64"

definition int64_range :: "int \<Rightarrow> bool" where
  "int64_range x \<longleftrightarrow> - (2 ^ 63) \<le> x \<and> x < 2 ^ 63"

definition int8_range :: "int \<Rightarrow> bool" where
  "int8_range x \<longleftrightarrow> - (2 ^ 7) \<le> x \<and> x < 2 ^ 7"

lemma wrap64_id [go_arith]: "int64_range x \<Longrightarrow> wrap64 x = x"
  by (simp add: wrap64_def int64_range_def)

lemma wrap64_range [simp]: "int64_range (wrap64 x)"
  by (simp add: wrap64_def int64_range_def)

lemma wrap8_id [go_arith]: "int8_range x \<Longrightarrow> wrap8 x = x"
  by (simp add: wrap8_def int8_range_def)

lemma wrap8_range [simp]: "int8_range (wrap8 x)"
  by (simp add: wrap8_def int8_range_def)

lemma to_uint64_bounds: "0 \<le> to_uint64 x \<and> to_uint64 x < 2 ^ 64"
  by (simp add: to_uint64_def)

section \<open>Time\<close>

type_synonym time = int

text \<open>The zero \<^verbatim>\<open>time.Time\<close> is January 1, year 1 UTC; \<^verbatim>\<open>t.IsZero()\<close> tests for it.\<close>

definition zero_time :: time where
  "zero_time = - 62135596800000000000"

definition IsZero :: "time \<Rightarrow> bool" where
  "IsZero t \<longleftrightarrow> t = zero_time"

definition UnixNano :: "time \<Rightarrow> int" where
  "UnixNano t = wrap64 t"

definition UnixMilli :: "time \<Rightarrow> int" where
  "UnixMilli t = wrap64 (t div 1000000)"

section \<open>Maps\<close>

type_synonym ('k, 'v) gomap = "('k \<times> 'v) list"

definition map_get :: "('k, 'v) gomap \<Rightarrow> 'k \<Rightarrow> 'v option" where
  "map_get m k = map_of m k"

definition map_put :: "'k \<Rightarrow> 'v \<Rightarrow> ('k, 'v) gomap \<Rightarrow> ('k, 'v) gomap" where
  "map_put k v m = AList.update k v m"

definition map_del :: "'k \<Rightarrow> ('k, 'v) gomap \<Rightarrow> ('k, 'v) gomap" where
  "map_del k m = AList.delete k m"

definition map_wf :: "('k, 'v) gomap \<Rightarrow> bool" where
  "map_wf m \<longleftrightarrow> distinct (map fst m)"

definition map_len :: "('k, 'v) gomap \<Rightarrow> nat" where
  "map_len m = length m"

definition map_keys :: "('k, 'v) gomap \<Rightarrow> 'k list" where
  "map_keys m = map fst m"

text \<open>
  What the components rely on: reading after a write or a delete, and the number of entries.
\<close>

locale go_map =
  fixes none :: "'m"
    and get :: "'m \<Rightarrow> 'k \<Rightarrow> 'v option"
    and put :: "'k \<Rightarrow> 'v \<Rightarrow> 'm \<Rightarrow> 'm"
    and del :: "'k \<Rightarrow> 'm \<Rightarrow> 'm"
    and len :: "'m \<Rightarrow> nat"
    and keys :: "'m \<Rightarrow> 'k list"
    and ok :: "'m \<Rightarrow> bool"
  assumes none_law: "get none k = None" "ok none"
    and put_law: "get (put k v m) = (get m)(k \<mapsto> v)" "ok m \<Longrightarrow> ok (put k v m)"
    and del_law: "get (del k m) = (get m)(k := None)" "ok m \<Longrightarrow> ok (del k m)"
    and keys_law: "set (keys m) = dom (get m)" "ok m \<Longrightarrow> distinct (keys m)"
    and len_law: "len m = length (keys m)"
begin

lemma len_card: "ok m \<Longrightarrow> len m = card (dom (get m))"
  by (metis keys_law len_law distinct_card)

lemma len_zero_iff: "len m = 0 \<longleftrightarrow> get m = Map.empty"
  using keys_law(1) [of m] by (auto simp: len_law simp del: dom_eq_empty_conv simp flip: dom_eq_empty_conv)

lemma len_put_new: "ok m \<Longrightarrow> get m k = None \<Longrightarrow> len (put k v m) = Suc (len m)"
proof -
  assume a: "ok m" "get m k = None"
  have "finite (dom (get m))" by (metis keys_law(1) finite_set)
  moreover have "k \<notin> dom (get m)" using a(2) by (simp add: domIff)
  ultimately show ?thesis using a(1) by (simp add: len_card put_law)
qed

lemma len_put_old: "ok m \<Longrightarrow> get m k = Some w \<Longrightarrow> len (put k v m) = len m"
  by (simp add: len_card put_law insert_absorb domIff)

lemma mem_keys: "k \<in> set (keys m) \<longleftrightarrow> get m k \<noteq> None"
  by (auto simp: keys_law(1))

end

interpretation gm: go_map "[]" map_get map_put map_del map_len map_keys map_wf
  by unfold_locales
    (auto simp: map_get_def map_put_def map_del_def map_len_def map_keys_def map_wf_def
      update_conv' delete_conv' distinct_update distinct_delete simp flip: dom_map_of_conv_image_fst)

declare gm.none_law [simp] gm.put_law [simp] gm.del_law [simp]

lemma map_get_Nil [simp]: "map_get [] = Map.empty"
  by (simp add: fun_eq_iff)

lemma in_set_map_get: "map_wf m \<Longrightarrow> (k, v) \<in> set m \<longleftrightarrow> map_get m k = Some v"
  by (simp add: map_wf_def map_get_def)

lemma finite_dom_map_get [simp]: "finite (dom (map_get m))"
  by (metis gm.keys_law(1) finite_set)

section \<open>First match in a table\<close>

lemma find_SomeD: "find P xs = Some x \<Longrightarrow> x \<in> set xs \<and> P x"
  by (induction xs) (auto split: if_splits)

lemma find_NoneD: "find P xs = None \<Longrightarrow> x \<in> set xs \<Longrightarrow> \<not> P x"
  by (induction xs) (auto split: if_splits)

lemma find_append_None: "\<forall>x \<in> set xs. \<not> P x \<Longrightarrow> find P (xs @ ys) = find P ys"
  by (induction xs) auto

section \<open>Replies of the HTTP handlers\<close>

datatype http_status = OK | BadRequest | Unauthorized | Forbidden | NotFound | Conflict | TooMany | ServerError
  | Unavailable | GatewayTimeout

end
