(* ===== verification/Events.thy ===== *)
theory Events
  imports GoStrings
begin

text \<open>
  The message contract, \<^verbatim>\<open>contracts/events/message.go\<close>: the envelope that travels through Kafka
  and Redis, its protobuf encoding and the legacy JSON fallback.

  The protobuf runtime and the JSON decoder are not part of the repository: a \<open>codec\<close> holds the
  three library functions that the package calls, and \<open>pb_laws\<close> states what their documentation
  promises (what was marshalled unmarshals to the same message; only the all-default message has
  an empty encoding). The wall clock is the argument \<open>now\<close>.
\<close>

section \<open>Data\<close>

record MessageEnvelope =
  env_MessageID :: int
  env_RoomSeq :: int
  env_RoomID :: int
  env_SenderID :: int
  env_ClientMsgID :: string
  env_Type :: int
  env_Content :: string
  env_CreatedAt :: time

record ChatMessage =
  cm_RoomId :: int
  cm_SenderId :: int
  cm_ClientMsgId :: string
  cm_Type :: int
  cm_Content :: string
  cm_CreatedAtNs :: int
  cm_MessageId :: int
  cm_RoomSeq :: int

record legacyMessage =
  lg_RoomID :: string
  lg_SenderID :: int
  lg_Content :: string
  lg_ClientMsgID :: string
  lg_Timestamp :: int

definition empty_chat_message :: ChatMessage where
  "empty_chat_message = \<lparr>cm_RoomId = 0, cm_SenderId = 0, cm_ClientMsgId = [], cm_Type = 0,
     cm_Content = [], cm_CreatedAtNs = 0, cm_MessageId = 0, cm_RoomSeq = 0\<rparr>"

datatype event_error =
    EmptyPayload
  | UnsupportedPayload
  | ProtoError
  | LegacyJSONError
  | LegacyMissingRoom
  | LegacyInvalidRoom

text \<open>The library functions that are parameters of the model.\<close>

record codec =
  pb_marshal :: "ChatMessage \<Rightarrow> string option"
  pb_unmarshal :: "string \<Rightarrow> ChatMessage option"
  json_legacy :: "string \<Rightarrow> legacyMessage option"

definition pb_laws :: "codec \<Rightarrow> bool" where
  "pb_laws cd \<longleftrightarrow>
     (\<forall>m b. pb_marshal cd m = Some b \<longrightarrow>
        pb_unmarshal cd b = Some m \<and> (b = [] \<longrightarrow> m = empty_chat_message))"

section \<open>Encoding and decoding\<close>

definition to_chat_message :: "MessageEnvelope \<Rightarrow> ChatMessage" where
  "to_chat_message msg =
     (let createdAtNS = UnixNano (env_CreatedAt msg);
          createdAtNS = (if createdAtNS < 0 then 0 else createdAtNS)
      in \<lparr>cm_RoomId = env_RoomID msg, cm_SenderId = env_SenderID msg,
          cm_ClientMsgId = env_ClientMsgID msg, cm_Type = env_Type msg,
          cm_Content = env_Content msg, cm_CreatedAtNs = createdAtNS,
          cm_MessageId = env_MessageID msg, cm_RoomSeq = env_RoomSeq msg\<rparr>)"

definition Marshal :: "codec \<Rightarrow> MessageEnvelope \<Rightarrow> event_error + string" where
  "Marshal cd msg =
     (case pb_marshal cd (to_chat_message msg) of None \<Rightarrow> Inl ProtoError | Some b \<Rightarrow> Inr b)"

definition UnmarshalProto :: "codec \<Rightarrow> time \<Rightarrow> string \<Rightarrow> event_error + MessageEnvelope" where
  "UnmarshalProto cd now data =
     (case pb_unmarshal cd data of
        None \<Rightarrow> Inl ProtoError
      | Some msg \<Rightarrow>
          (let msgType = (if cm_Type msg = 0 then 1 else cm_Type msg);
               ns = cm_CreatedAtNs msg
           in Inr \<lparr>env_MessageID = cm_MessageId msg, env_RoomSeq = cm_RoomSeq msg,
                   env_RoomID = cm_RoomId msg, env_SenderID = cm_SenderId msg,
                   env_ClientMsgID = cm_ClientMsgId msg, env_Type = wrap8 msgType,
                   env_Content = cm_Content msg,
                   env_CreatedAt = (if ns > 0 then ns else now)\<rparr>))"

definition UnmarshalLegacyJSON :: "codec \<Rightarrow> time \<Rightarrow> string \<Rightarrow> event_error + MessageEnvelope" where
  "UnmarshalLegacyJSON cd now data =
     (case json_legacy cd data of
        None \<Rightarrow> Inl LegacyJSONError
      | Some raw \<Rightarrow>
          if lg_RoomID raw = [] then Inl LegacyMissingRoom
          else (case ParseInt (lg_RoomID raw) of
              (_, Some _) \<Rightarrow> Inl LegacyInvalidRoom
            | (roomID, None) \<Rightarrow>
                Inr \<lparr>env_MessageID = 0, env_RoomSeq = 0, env_RoomID = roomID,
                     env_SenderID = lg_SenderID raw, env_ClientMsgID = lg_ClientMsgID raw,
                     env_Type = 1, env_Content = lg_Content raw,
                     env_CreatedAt = (if lg_Timestamp raw > 0 then lg_Timestamp raw else now)\<rparr>))"

definition Unmarshal :: "codec \<Rightarrow> time \<Rightarrow> string \<Rightarrow> event_error + MessageEnvelope" where
  "Unmarshal cd now data =
     (if data = [] then Inl EmptyPayload
      else case UnmarshalProto cd now data of
        Inr msg \<Rightarrow> Inr msg
      | Inl _ \<Rightarrow>
          (case UnmarshalLegacyJSON cd now data of
             Inr msg \<Rightarrow> Inr msg
           | Inl _ \<Rightarrow> Inl UnsupportedPayload))"

text \<open>
  What a round trip returns: type 0 comes back as type 1, and a creation time outside the range
  that the encoding keeps comes back as the clock of the reader.
\<close>

definition wire_normal :: "time \<Rightarrow> MessageEnvelope \<Rightarrow> MessageEnvelope" where
  "wire_normal now e =
     e\<lparr>env_Type := (if env_Type e = 0 then 1 else env_Type e),
       env_CreatedAt := (if UnixNano (env_CreatedAt e) > 0 then UnixNano (env_CreatedAt e) else now)\<rparr>"

section \<open>The round trip\<close>

lemma UnmarshalProto_to_chat_message:
  assumes "pb_unmarshal cd b = Some (to_chat_message e)" and "int8_range (env_Type e)"
  shows "UnmarshalProto cd now b = Inr (wire_normal now e)"
  using assms
  by (cases e) (simp add: UnmarshalProto_def to_chat_message_def wire_normal_def Let_def
      go_arith int8_range_def)

lemma Marshal_Inr: "Marshal cd e = Inr b \<longleftrightarrow> pb_marshal cd (to_chat_message e) = Some b"
  by (auto simp: Marshal_def split: option.splits)

lemma Unmarshal_Marshal:
  assumes laws: "pb_laws cd" and m: "Marshal cd e = Inr b"
    and ty: "int8_range (env_Type e)" and room: "env_RoomID e \<noteq> 0"
  shows "Unmarshal cd now b = Inr (wire_normal now e)"
proof -
  from m laws have u: "pb_unmarshal cd b = Some (to_chat_message e)"
    and e: "b = [] \<longrightarrow> to_chat_message e = empty_chat_message"
    by (auto simp: Marshal_Inr pb_laws_def)
  from e room have "b \<noteq> []"
    by (auto simp: to_chat_message_def empty_chat_message_def Let_def)
  with UnmarshalProto_to_chat_message [OF u ty] show ?thesis
    by (simp add: Unmarshal_def)
qed

lemma wire_normal_id:
  assumes "env_Type e \<noteq> 0" and "0 < env_CreatedAt e" and "env_CreatedAt e < 2 ^ 63"
  shows "wire_normal now e = e"
  using assms by (cases e) (simp add: wire_normal_def UnixNano_def wrap64_id int64_range_def)

lemma wire_normal_fields [simp]:
  "env_MessageID (wire_normal now e) = env_MessageID e"
  "env_RoomSeq (wire_normal now e) = env_RoomSeq e"
  "env_RoomID (wire_normal now e) = env_RoomID e"
  "env_SenderID (wire_normal now e) = env_SenderID e"
  "env_ClientMsgID (wire_normal now e) = env_ClientMsgID e"
  "env_Content (wire_normal now e) = env_Content e"
  by (simp_all add: wire_normal_def)

lemma int8_range_1: "int8_range 1"
  by (simp add: int8_range_def)

lemma Unmarshal_type_range: "Unmarshal cd now b = Inr e \<Longrightarrow> int8_range (env_Type e)"
  by (auto simp: Unmarshal_def UnmarshalProto_def UnmarshalLegacyJSON_def Let_def int8_range_1
      split: if_splits sum.splits option.splits prod.splits)

section \<open>A concrete codec\<close>

text \<open>
  A codec given by a finite table of messages and encodings; it satisfies \<open>pb_laws\<close> when the
  encodings are distinct and not empty. Witnesses use it.
\<close>

definition table_codec :: "(ChatMessage \<times> string) list \<Rightarrow> codec" where
  "table_codec tab =
     \<lparr>pb_marshal = map_of tab, pb_unmarshal = map_of (map (\<lambda>(m, b). (b, m)) tab),
      json_legacy = (\<lambda>_. None)\<rparr>"

lemma table_codec_laws:
  assumes "distinct (map snd tab)" and "[] \<notin> set (map snd tab)"
  shows "pb_laws (table_codec tab)"
proof -
  have "map_of (map (\<lambda>(m, b). (b, m)) tab) b = Some m" if "map_of tab m = Some b" for m b
  proof -
    have "(m, b) \<in> set tab" using that by (rule map_of_SomeD)
    moreover have "distinct (map fst (map (\<lambda>(m, b). (b, m)) tab))"
      using assms(1) by (simp add: comp_def case_prod_unfold)
    ultimately show ?thesis by (auto intro!: map_of_is_SomeI)
  qed
  moreover have "b \<noteq> []" if "map_of tab m = Some b" for m b
    using map_of_SomeD [OF that] assms(2) by (auto simp: image_iff)
  ultimately show ?thesis by (auto simp: pb_laws_def table_codec_def)
qed

text \<open>
  C16: the wire format is faithful. A message of a room with a type and a representable creation time is
  decoded to exactly itself, whatever the clock of the reader; in general type 0 and an unrepresentable
  time are the only fields that change (\<open>Unmarshal_Marshal\<close>).
\<close>

theorem message_roundtrip:
  assumes "pb_laws cd" "Marshal cd e = Inr b" "int8_range (env_Type e)" "env_Type e \<noteq> 0"
    and "env_RoomID e \<noteq> 0" "0 < env_CreatedAt e" "env_CreatedAt e < 2 ^ 63"
  shows "Unmarshal cd now b = Inr e"
  using Unmarshal_Marshal [OF assms(1-3,5)] wire_normal_id [OF assms(4,6,7)] by simp

definition sample_envelope :: MessageEnvelope where
  "sample_envelope = \<lparr>env_MessageID = 9, env_RoomSeq = 2, env_RoomID = 7, env_SenderID = 1,
     env_ClientMsgID = ''a'', env_Type = 1, env_Content = ''hi'', env_CreatedAt = 5\<rparr>"

theorem message_roundtrip_witness:
  "Unmarshal (table_codec [(to_chat_message sample_envelope, ''x'')]) 3 ''x'' = Inr sample_envelope"
proof (rule message_roundtrip)
  show "pb_laws (table_codec [(to_chat_message sample_envelope, ''x'')])"
    by (rule table_codec_laws) simp_all
  show "Marshal (table_codec [(to_chat_message sample_envelope, ''x'')]) sample_envelope = Inr ''x''"
    by (simp add: Marshal_def table_codec_def)
qed (simp_all add: sample_envelope_def int8_range_1)

end
