(* ===== verification/Models.thy ===== *)
theory Models
  imports Events
begin

text \<open>
  The message models, \<^verbatim>\<open>services/messages/models\<close>: the relational \<open>Message\<close>, the Mongo document, the
  conversions between them, and the idempotency check that the stores apply to a message that is
  already there. A \<^verbatim>\<open>soft_delete.DeletedAt\<close> is an unsigned integer, 0 for a live message.
\<close>

record Message =
  msg_ID :: int
  msg_RoomSeq :: int
  msg_RoomID :: int
  msg_SenderID :: int
  msg_ClientMsgID :: string
  msg_Type :: int
  msg_Content :: string
  msg_CreatedAt :: time
  msg_DeletedAt :: int

record MessageDocument =
  doc_ID :: int
  doc_RoomSeq :: int
  doc_RoomID :: int
  doc_SenderID :: int
  doc_ClientMsgID :: string
  doc_Type :: int
  doc_Content :: string
  doc_CreatedAt :: time
  doc_DeletedAt :: int

definition softDeleteAt :: "int \<Rightarrow> int" where
  "softDeleteAt v = (if v \<le> 0 then 0 else to_uint64 v)"

definition ToMessageDocument :: "Message \<Rightarrow> MessageDocument" where
  "ToMessageDocument m =
     \<lparr>doc_ID = msg_ID m, doc_RoomSeq = msg_RoomSeq m, doc_RoomID = msg_RoomID m,
      doc_SenderID = msg_SenderID m, doc_ClientMsgID = msg_ClientMsgID m, doc_Type = msg_Type m,
      doc_Content = msg_Content m, doc_CreatedAt = msg_CreatedAt m,
      doc_DeletedAt = wrap64 (msg_DeletedAt m)\<rparr>"

definition ToMessage :: "MessageDocument \<Rightarrow> Message" where
  "ToMessage d =
     \<lparr>msg_ID = doc_ID d, msg_RoomSeq = doc_RoomSeq d, msg_RoomID = doc_RoomID d,
      msg_SenderID = doc_SenderID d, msg_ClientMsgID = doc_ClientMsgID d, msg_Type = doc_Type d,
      msg_Content = doc_Content d, msg_CreatedAt = doc_CreatedAt d,
      msg_DeletedAt = softDeleteAt (doc_DeletedAt d)\<rparr>"

definition RequestKey :: "Message \<Rightarrow> int \<times> string" where
  "RequestKey m = (msg_SenderID m, msg_ClientMsgID m)"

text \<open>\<open>ReconcileMessage incoming stored\<close> is \<open>None\<close> for the error, else the new value of \<^verbatim>\<open>*incoming\<close>.\<close>

definition ReconcileMessage :: "Message \<Rightarrow> Message \<Rightarrow> Message option" where
  "ReconcileMessage incoming stored =
     (if msg_RoomSeq incoming > 0 \<and>
         (msg_ID incoming \<noteq> msg_ID stored \<or> msg_RoomSeq incoming \<noteq> msg_RoomSeq stored \<or>
          msg_RoomID incoming \<noteq> msg_RoomID stored \<or> msg_SenderID incoming \<noteq> msg_SenderID stored \<or>
          msg_ClientMsgID incoming \<noteq> msg_ClientMsgID stored \<or>
          msg_Content incoming \<noteq> msg_Content stored \<or> msg_Type incoming \<noteq> msg_Type stored)
      then None else Some stored)"

text \<open>The conversion that the consumers of the numbered topics share.\<close>

definition message_of_envelope :: "MessageEnvelope \<Rightarrow> Message" where
  "message_of_envelope e =
     \<lparr>msg_ID = env_MessageID e, msg_RoomSeq = env_RoomSeq e, msg_RoomID = env_RoomID e,
      msg_SenderID = env_SenderID e, msg_ClientMsgID = env_ClientMsgID e, msg_Type = env_Type e,
      msg_Content = env_Content e, msg_CreatedAt = env_CreatedAt e, msg_DeletedAt = 0\<rparr>"

lemma ToMessage_ToMessageDocument:
  "ToMessage (ToMessageDocument m) = m\<lparr>msg_DeletedAt := softDeleteAt (wrap64 (msg_DeletedAt m))\<rparr>"
  by (cases m) (simp add: ToMessage_def ToMessageDocument_def)

text \<open>
  A message survives the document store: converting it to a Mongo document and back gives the same
  message, deletion mark included.
\<close>

lemma document_roundtrip:
  assumes "0 \<le> msg_DeletedAt m" "msg_DeletedAt m < 2 ^ 63"
  shows "ToMessage (ToMessageDocument m) = m"
  using assms
  by (cases m) (simp add: ToMessage_ToMessageDocument wrap64_id int64_range_def softDeleteAt_def to_uint64_def)

lemma document_roundtrip_example:
  "ToMessage (ToMessageDocument ((message_of_envelope sample_envelope)\<lparr>msg_DeletedAt := 5\<rparr>))
     = (message_of_envelope sample_envelope)\<lparr>msg_DeletedAt := 5\<rparr>"
  by (rule document_roundtrip) simp_all

lemma ReconcileMessage_numbered:
  assumes "ReconcileMessage incoming stored = Some m" "msg_RoomSeq incoming > 0"
  shows "m = incoming\<lparr>msg_CreatedAt := msg_CreatedAt m, msg_DeletedAt := msg_DeletedAt m\<rparr>"
  using assms by (auto simp: ReconcileMessage_def split: if_splits)

end
