(* ===== verification/Sequencer.thy ===== *)
theory Sequencer
  imports Events
begin

text \<open>
  The message numberer, \<^verbatim>\<open>services/messages/sequencer/sequencer.go\<close>: one process that gives every
  accepted message a message id and a sequence number in its room, and that answers a retry with
  the message it accepted first. \<open>Assign\<close> runs under the mutex, so the calls of all goroutines
  are one list of calls; \<open>assign_all\<close> runs such a list. The clock reading of a call (in
  milliseconds) is an argument.

  \<open>seq_inv\<close> is the invariant: the accepted messages of a room carry exactly the numbers 1 to the
  counter of the room, and message ids are positive and pairwise distinct. It is kept while the
  clock stays in \<open>clock_ok\<close> and fewer than \<open>2 ^ 61\<close> messages were accepted, so that no 64-bit
  addition or shift wraps. The contract that the Kafka loops rely on is the locale \<open>numbering\<close>.
\<close>

section \<open>State and operations\<close>

type_synonym requestKey = "int \<times> string"

record Sequencer =
  sq_rooms :: "(int, int) gomap"
  sq_requests :: "(requestKey, MessageEnvelope) gomap"
  sq_lastID :: int

datatype seq_error = InvalidIdentity | ConflictingRetry

definition New :: Sequencer where
  "New = \<lparr>sq_rooms = [], sq_requests = [], sq_lastID = 0\<rparr>"

definition request_key :: "MessageEnvelope \<Rightarrow> requestKey" where
  "request_key m = (env_SenderID m, env_ClientMsgID m)"

definition invalid_identity :: "MessageEnvelope \<Rightarrow> bool" where
  "invalid_identity m \<longleftrightarrow> env_RoomID m \<le> 0 \<or> env_SenderID m \<le> 0 \<or> env_ClientMsgID m = []
     \<or> length (env_ClientMsgID m) > 64"

definition room_count :: "Sequencer \<Rightarrow> int \<Rightarrow> int" where
  "room_count s r = (case map_get (sq_rooms s) r of None \<Rightarrow> 0 | Some n \<Rightarrow> n)"

definition next_id :: "int \<Rightarrow> int \<Rightarrow> int" where
  "next_id nowMilli lastID =
     (let id = wrap64 (wrap64 (nowMilli - 1750000000000) * 2 ^ 12)
      in if id \<le> lastID then wrap64 (lastID + 1) else id)"

definition Assign :: "int \<Rightarrow> Sequencer \<Rightarrow> MessageEnvelope \<Rightarrow> (seq_error + MessageEnvelope) \<times> Sequencer" where
  "Assign nowMilli s input =
     (if invalid_identity input then (Inl InvalidIdentity, s)
      else case map_get (sq_requests s) (request_key input) of
        Some old \<Rightarrow>
          if env_RoomID old \<noteq> env_RoomID input \<or> env_Content old \<noteq> env_Content input
             \<or> env_Type old \<noteq> env_Type input
          then (Inl ConflictingRetry, s)
          else (Inr old, s)
      | None \<Rightarrow>
          (let id = next_id nowMilli (sq_lastID s);
               n = wrap64 (room_count s (env_RoomID input) + 1);
               msg = input\<lparr>env_MessageID := id, env_RoomSeq := n\<rparr>
           in (Inr msg,
               s\<lparr>sq_lastID := id,
                 sq_rooms := map_put (env_RoomID input) n (sq_rooms s),
                 sq_requests := map_put (request_key input) msg (sq_requests s)\<rparr>)))"

text \<open>A list of calls, each with the clock reading it sees.\<close>

fun assign_all :: "Sequencer \<Rightarrow> (int \<times> MessageEnvelope) list \<Rightarrow> (seq_error + MessageEnvelope) list \<times> Sequencer" where
  "assign_all s [] = ([], s)"
| "assign_all s ((now, m) # calls) =
     (let (r, s') = Assign now s m; (rs, s'') = assign_all s' calls in (r # rs, s''))"

section \<open>The three outcomes of a call\<close>

lemma Assign_cases:
  obtains (invalid) "invalid_identity m" "Assign now s m = (Inl InvalidIdentity, s)"
  | (retry) old where "\<not> invalid_identity m" "map_get (sq_requests s) (request_key m) = Some old"
      "env_RoomID old = env_RoomID m" "env_Content old = env_Content m" "env_Type old = env_Type m"
      "Assign now s m = (Inr old, s)"
  | (conflict) old where "\<not> invalid_identity m" "map_get (sq_requests s) (request_key m) = Some old"
      "env_RoomID old \<noteq> env_RoomID m \<or> env_Content old \<noteq> env_Content m \<or> env_Type old \<noteq> env_Type m"
      "Assign now s m = (Inl ConflictingRetry, s)"
  | (fresh) n i msg where "\<not> invalid_identity m" "map_get (sq_requests s) (request_key m) = None"
      "i = next_id now (sq_lastID s)" "n = wrap64 (room_count s (env_RoomID m) + 1)"
      "msg = m\<lparr>env_MessageID := i, env_RoomSeq := n\<rparr>"
      "Assign now s m = (Inr msg, s\<lparr>sq_lastID := i, sq_rooms := map_put (env_RoomID m) n (sq_rooms s),
          sq_requests := map_put (request_key m) msg (sq_requests s)\<rparr>)"
  by (cases "map_get (sq_requests s) (request_key m)")
    (auto simp: Assign_def Let_def split: if_splits)

lemma request_key_numbered [simp]:
  "request_key (m\<lparr>env_MessageID := i, env_RoomSeq := n\<rparr>) = request_key m"
  by (simp add: request_key_def)

section \<open>The contract of a numberer\<close>

text \<open>
  What the loops need: an accepted message is remembered under its key, a remembered message is
  never replaced, a rejected call changes nothing. Over any list of calls it follows that two
  accepted answers for the same key are the same message.
\<close>

locale numbering =
  fixes step :: "'t \<Rightarrow> 's \<Rightarrow> 'm \<Rightarrow> ('e + 'm) \<times> 's"
    and known :: "'s \<Rightarrow> 'k \<Rightarrow> 'm option"
    and key :: "'m \<Rightarrow> 'k"
  assumes accepted: "step t s m = (Inr a, s') \<Longrightarrow> known s' (key m) = Some a"
    and kept: "known s k = Some a \<Longrightarrow> known (snd (step t s m)) k = Some a"
    and rejected: "step t s m = (Inl e, s') \<Longrightarrow> s' = s"
    and repeated: "known s (key m) = Some a \<Longrightarrow> snd (step t s m) = s"
    and learnt: "known s k = None \<Longrightarrow> known (snd (step t s m)) k = Some a \<Longrightarrow>
      fst (step t s m) = Inr a \<and> k = key m"
begin

fun steps :: "'s \<Rightarrow> ('t \<times> 'm) list \<Rightarrow> ('e + 'm) list \<times> 's" where
  "steps s [] = ([], s)"
| "steps s ((t, m) # cs) =
     (let (r, s') = step t s m; (rs, s'') = steps s' cs in (r # rs, s''))"

lemma steps_length: "length (fst (steps s cs)) = length cs"
  by (induction s cs rule: steps.induct) (auto simp: Let_def split: prod.splits)

lemma steps_kept: "known s k = Some a \<Longrightarrow> known (snd (steps s cs)) k = Some a"
proof (induction cs arbitrary: s)
  case Nil
  then show ?case by simp
next
  case (Cons c cs)
  obtain t m where c: "c = (t, m)" by force
  from kept [OF Cons.prems, of t m] have "known (snd (step t s m)) k = Some a" .
  from Cons.IH [OF this] show ?case
    by (simp add: c case_prod_unfold Let_def)
qed

lemma steps_accepted:
  assumes "i < length cs" and "fst (steps s cs) ! i = Inr a"
  shows "known (snd (steps s cs)) (key (snd (cs ! i))) = Some a"
  using assms
proof (induction cs arbitrary: s i)
  case Nil
  then show ?case by simp
next
  case (Cons c cs)
  obtain t m where c: "c = (t, m)" by force
  show ?case
  proof (cases i)
    case 0
    with Cons.prems have "step t s m = (Inr a, snd (step t s m))"
      by (cases "step t s m") (simp add: c case_prod_unfold Let_def)
    then have "known (snd (step t s m)) (key m) = Some a" by (rule accepted)
    from steps_kept [OF this] 0 show ?thesis by (simp add: c case_prod_unfold Let_def)
  next
    case (Suc j)
    with Cons.prems Cons.IH [of j "snd (step t s m)"] show ?thesis
      by (simp add: c case_prod_unfold Let_def)
  qed
qed

lemma steps_learnt:
  assumes "known s k = None" and "known (snd (steps s cs)) k = Some a"
  shows "\<exists>i < length cs. fst (steps s cs) ! i = Inr a \<and> key (snd (cs ! i)) = k"
  using assms
proof (induction cs arbitrary: s)
  case Nil
  then show ?case by simp
next
  case (Cons c cs)
  obtain t m where c: "c = (t, m)" by force
  have fin: "known (snd (steps (snd (step t s m)) cs)) k = Some a"
    using Cons.prems(2) by (simp add: c case_prod_unfold Let_def)
  show ?case
  proof (cases "known (snd (step t s m)) k")
    case None
    from Cons.IH [OF None fin] obtain i where "i < length cs"
      "fst (steps (snd (step t s m)) cs) ! i = Inr a" "key (snd (cs ! i)) = k" by auto
    then show ?thesis
      by (intro exI [of _ "Suc i"]) (simp add: c case_prod_unfold Let_def)
  next
    case (Some b)
    with steps_kept [OF Some] fin have "b = a" by simp
    with learnt [OF Cons.prems(1) Some] show ?thesis
      by (intro exI [of _ 0]) (simp add: c case_prod_unfold Let_def)
  qed
qed

lemma steps_append:
  "steps s (cs @ ds) =
     (fst (steps s cs) @ fst (steps (snd (steps s cs)) ds), snd (steps (snd (steps s cs)) ds))"
  by (induction cs arbitrary: s) (simp_all add: case_prod_unfold Let_def split_paired_all)

lemma same_key_same_answer:
  assumes "i < length cs" "j < length cs"
    and "fst (steps s cs) ! i = Inr a" "fst (steps s cs) ! j = Inr b"
    and "key (snd (cs ! i)) = key (snd (cs ! j))"
  shows "a = b"
  using steps_accepted [OF assms(1,3)] steps_accepted [OF assms(2,4)] assms(5) by simp

end

interpretation sq: numbering Assign "\<lambda>s :: Sequencer. map_get (sq_requests s)" request_key
proof
  fix t m a and s s' :: Sequencer
  assume "Assign t s m = (Inr a, s')"
  then show "map_get (sq_requests s') (request_key m) = Some a"
    by (cases rule: Assign_cases [of m t s]) auto
next
  fix t m k a and s :: Sequencer
  assume "map_get (sq_requests s) k = Some a"
  then show "map_get (sq_requests (snd (Assign t s m))) k = Some a"
    by (cases rule: Assign_cases [of m t s]) auto
next
  fix t m e and s s' :: Sequencer
  assume "Assign t s m = (Inl e, s')"
  then show "s' = s" by (cases rule: Assign_cases [of m t s]) auto
next
  fix t m a and s :: Sequencer
  assume "map_get (sq_requests s) (request_key m) = Some a"
  then show "snd (Assign t s m) = s" by (cases rule: Assign_cases [of m t s]) auto
next
  fix t m k a and s :: Sequencer
  assume "map_get (sq_requests s) k = None" "map_get (sq_requests (snd (Assign t s m))) k = Some a"
  then show "fst (Assign t s m) = Inr a \<and> k = request_key m"
    by (cases rule: Assign_cases [of m t s]) (auto split: if_splits)
qed

lemma assign_all_steps: "assign_all s cs = sq.steps s cs"
  by (induction cs arbitrary: s) (auto simp: Let_def split: prod.splits)

section \<open>The invariant\<close>

definition clock_ok :: "int \<Rightarrow> bool" where
  "clock_ok now \<longleftrightarrow> 0 \<le> now \<and> now < 1750000000000 + 2 ^ 50"

text \<open>Each accepted message is stored under its own key, with numbers within the counters.\<close>

definition entries_ok :: "Sequencer \<Rightarrow> bool" where
  "entries_ok s \<longleftrightarrow> (\<forall>k e. map_get (sq_requests s) k = Some e \<longrightarrow>
     k = request_key e \<and> \<not> invalid_identity e \<and>
     0 < env_MessageID e \<and> env_MessageID e \<le> sq_lastID s \<and>
     1 \<le> env_RoomSeq e \<and> env_RoomSeq e \<le> room_count s (env_RoomID e))"

text \<open>No two accepted messages share a message id or a place in a room.\<close>

definition numbers_distinct :: "Sequencer \<Rightarrow> bool" where
  "numbers_distinct s \<longleftrightarrow> (\<forall>k k' e e'. map_get (sq_requests s) k = Some e \<longrightarrow>
     map_get (sq_requests s) k' = Some e' \<longrightarrow> k \<noteq> k' \<longrightarrow>
     env_MessageID e \<noteq> env_MessageID e' \<and>
     (env_RoomID e = env_RoomID e' \<longrightarrow> env_RoomSeq e \<noteq> env_RoomSeq e'))"

text \<open>Every number up to the counter of a room is in use.\<close>

definition rooms_dense :: "Sequencer \<Rightarrow> bool" where
  "rooms_dense s \<longleftrightarrow> (\<forall>r n. 1 \<le> n \<and> n \<le> room_count s r \<longrightarrow>
     (\<exists>k e. map_get (sq_requests s) k = Some e \<and> env_RoomID e = r \<and> env_RoomSeq e = n))"

definition counters_ok :: "Sequencer \<Rightarrow> bool" where
  "counters_ok s \<longleftrightarrow> map_wf (sq_requests s) \<and>
     (\<forall>r. 0 \<le> room_count s r \<and> room_count s r \<le> int (map_len (sq_requests s))) \<and>
     0 \<le> sq_lastID s \<and> sq_lastID s \<le> 2 ^ 62 + int (map_len (sq_requests s))"

definition seq_inv :: "Sequencer \<Rightarrow> bool" where
  "seq_inv s \<longleftrightarrow> entries_ok s \<and> numbers_distinct s \<and> rooms_dense s \<and> counters_ok s"

lemma entries_okD:
  assumes "entries_ok s" "map_get (sq_requests s) k = Some e"
  shows "k = request_key e" "\<not> invalid_identity e" "0 < env_MessageID e"
    "env_MessageID e \<le> sq_lastID s" "1 \<le> env_RoomSeq e"
    "env_RoomSeq e \<le> room_count s (env_RoomID e)"
  using assms unfolding entries_ok_def by blast+

lemma room_count_New [simp]: "room_count New r = 0"
  by (simp add: room_count_def New_def)

lemma seq_inv_New: "seq_inv New"
  by (auto simp: seq_inv_def entries_ok_def numbers_distinct_def rooms_dense_def counters_ok_def)
    (auto simp: New_def map_wf_def)

lemma next_id_bounds:
  assumes "clock_ok now" "0 \<le> i" "i < 2 ^ 62 + 2 ^ 61"
  shows "i < next_id now i" "next_id now i \<le> max (2 ^ 62) (i + 1)"
proof -
  have "wrap64 (now - 1750000000000) = now - 1750000000000"
    using assms(1) by (intro wrap64_id) (simp add: clock_ok_def int64_range_def)
  moreover have "wrap64 ((now - 1750000000000) * 2 ^ 12) = (now - 1750000000000) * 2 ^ 12"
    using assms(1) by (intro wrap64_id) (simp add: clock_ok_def int64_range_def)
  moreover have "wrap64 (i + 1) = i + 1"
    using assms(2,3) by (intro wrap64_id) (simp add: int64_range_def)
  ultimately show "i < next_id now i" "next_id now i \<le> max (2 ^ 62) (i + 1)"
    using assms(1) by (auto simp: next_id_def Let_def clock_ok_def)
qed

text \<open>
  While fewer than \<open>2 ^ 61\<close> messages are stored, the additions of the fresh branch do not wrap:
  the state it leaves is \<open>numbered_state\<close>.
\<close>

definition numbered_state :: "Sequencer \<Rightarrow> int \<Rightarrow> MessageEnvelope \<Rightarrow> Sequencer" where
  "numbered_state s i m =
     (let n = room_count s (env_RoomID m) + 1
      in s\<lparr>sq_lastID := i, sq_rooms := map_put (env_RoomID m) n (sq_rooms s),
           sq_requests := map_put (request_key m) (m\<lparr>env_MessageID := i, env_RoomSeq := n\<rparr>) (sq_requests s)\<rparr>)"

lemma counters_no_wrap:
  assumes "counters_ok s" "clock_ok now" "map_len (sq_requests s) < 2 ^ 61"
  shows "sq_lastID s < next_id now (sq_lastID s)"
    and "next_id now (sq_lastID s) \<le> max (2 ^ 62) (sq_lastID s + 1)"
    and "wrap64 (room_count s r + 1) = room_count s r + 1"
proof -
  have c: "0 \<le> room_count s r" "room_count s r \<le> int (map_len (sq_requests s))"
      "0 \<le> sq_lastID s" "sq_lastID s \<le> 2 ^ 62 + int (map_len (sq_requests s))"
    using assms(1) by (simp_all add: counters_ok_def)
  then have "sq_lastID s < 2 ^ 62 + 2 ^ 61" using assms(3) by simp
  with next_id_bounds [OF assms(2) c(3)]
  show "sq_lastID s < next_id now (sq_lastID s)"
    and "next_id now (sq_lastID s) \<le> max (2 ^ 62) (sq_lastID s + 1)" by blast+
  show "wrap64 (room_count s r + 1) = room_count s r + 1"
    using c(1,2) assms(3) by (intro wrap64_id) (simp add: int64_range_def)
qed

lemma Assign_fresh:
  assumes "counters_ok s" "clock_ok now" "map_len (sq_requests s) < 2 ^ 61"
    and "\<not> invalid_identity m" "map_get (sq_requests s) (request_key m) = None"
  shows "snd (Assign now s m) = numbered_state s (next_id now (sq_lastID s)) m"
  using assms(4,5) counters_no_wrap(3) [OF assms(1-3)]
  by (simp add: Assign_def numbered_state_def Let_def)

lemma numbered_state_simps [simp]:
  "sq_lastID (numbered_state s i m) = i"
  "room_count (numbered_state s i m) r =
     (if r = env_RoomID m then room_count s r + 1 else room_count s r)"
  "map_get (sq_requests (numbered_state s i m)) = (map_get (sq_requests s))(request_key m \<mapsto>
     m\<lparr>env_MessageID := i, env_RoomSeq := room_count s (env_RoomID m) + 1\<rparr>)"
  by (simp_all add: numbered_state_def room_count_def Let_def)

lemma numbered_entries:
  assumes "entries_ok s" "counters_ok s" "sq_lastID s < i" "\<not> invalid_identity m"
    "map_get (sq_requests s) (request_key m) = None"
  shows "entries_ok (numbered_state s i m)"
  using assms by (fastforce simp: entries_ok_def counters_ok_def invalid_identity_def)

lemma numbers_distinctD:
  assumes "numbers_distinct s" "map_get (sq_requests s) k = Some e"
    "map_get (sq_requests s) k' = Some e'" "k \<noteq> k'"
  shows "env_MessageID e \<noteq> env_MessageID e'"
    "env_RoomID e = env_RoomID e' \<Longrightarrow> env_RoomSeq e \<noteq> env_RoomSeq e'"
  using assms unfolding numbers_distinct_def by blast+

lemma numbered_distinct:
  assumes "entries_ok s" "numbers_distinct s" "sq_lastID s < i"
    "map_get (sq_requests s) (request_key m) = None"
  shows "numbers_distinct (numbered_state s i m)"
  unfolding numbers_distinct_def
proof (intro allI impI)
  fix k k' e e'
  assume k: "map_get (sq_requests (numbered_state s i m)) k = Some e"
    "map_get (sq_requests (numbered_state s i m)) k' = Some e'" "k \<noteq> k'"
  have old: "env_MessageID f < i" "env_RoomSeq f < room_count s (env_RoomID f) + 1"
    if "map_get (sq_requests s) q = Some f" for q f
    using entries_okD(4,6) [OF assms(1) that] assms(3) by simp_all
  show "env_MessageID e \<noteq> env_MessageID e' \<and>
      (env_RoomID e = env_RoomID e' \<longrightarrow> env_RoomSeq e \<noteq> env_RoomSeq e')"
    using k old [of k e] old [of k' e'] numbers_distinctD [OF assms(2), of k e k' e']
    by (auto split: if_splits)
qed

lemma numbered_dense:
  assumes "rooms_dense s" "map_get (sq_requests s) (request_key m) = None"
  shows "rooms_dense (numbered_state s i m)"
  unfolding rooms_dense_def
proof (intro allI impI)
  fix r n
  assume n: "1 \<le> n \<and> n \<le> room_count (numbered_state s i m) r"
  show "\<exists>k e. map_get (sq_requests (numbered_state s i m)) k = Some e \<and> env_RoomID e = r \<and> env_RoomSeq e = n"
  proof (cases "n \<le> room_count s r")
    case True
    with n assms obtain k e where "map_get (sq_requests s) k = Some e" "env_RoomID e = r" "env_RoomSeq e = n"
      unfolding rooms_dense_def by blast
    with assms(2) show ?thesis by (intro exI [of _ k] exI [of _ e]) auto
  next
    case False
    with n have "r = env_RoomID m" "n = room_count s r + 1" by (auto split: if_splits)
    then show ?thesis by (intro exI [of _ "request_key m"]) simp
  qed
qed

lemma numbered_counters:
  assumes "counters_ok s" "sq_lastID s < i" "i \<le> max (2 ^ 62) (sq_lastID s + 1)"
    "map_get (sq_requests s) (request_key m) = None"
  shows "counters_ok (numbered_state s i m)"
proof -
  have "map_len (sq_requests (numbered_state s i m)) = Suc (map_len (sq_requests s))"
    using assms(1,4) by (simp add: numbered_state_def Let_def counters_ok_def gm.len_put_new)
  moreover have "map_wf (sq_requests (numbered_state s i m))"
    using assms(1) by (simp add: numbered_state_def Let_def counters_ok_def)
  moreover have "0 \<le> room_count s r \<and> room_count s r \<le> int (map_len (sq_requests s))
      \<and> room_count s r \<le> 1 + int (map_len (sq_requests s))" for r
    using assms(1) by (simp add: counters_ok_def add_increasing)
  ultimately show ?thesis using assms(1-3)
    by (auto simp: counters_ok_def max_def split: if_splits)
qed

lemma Assign_preserves_inv:
  assumes "seq_inv s" "clock_ok now" "map_len (sq_requests s) < 2 ^ 61"
  shows "seq_inv (snd (Assign now s m))"
proof (cases rule: Assign_cases [of m now s])
  case (fresh n i msg)
  from assms(1) have parts: "entries_ok s" "numbers_distinct s" "rooms_dense s" "counters_ok s"
    by (simp_all add: seq_inv_def)
  note bounds = counters_no_wrap(1,2) [OF parts(4) assms(2,3)]
  show ?thesis
    unfolding Assign_fresh [OF parts(4) assms(2,3) fresh(1,2)] seq_inv_def
    using numbered_entries [OF parts(1,4) bounds(1) fresh(1,2)]
      numbered_distinct [OF parts(1,2) bounds(1) fresh(2)]
      numbered_dense [OF parts(3) fresh(2)] numbered_counters [OF parts(4) bounds fresh(2)]
    by simp
qed (use assms in simp_all)

section \<open>Runs of the numberer\<close>

abbreviation answers :: "Sequencer \<Rightarrow> (int \<times> MessageEnvelope) list \<Rightarrow> (seq_error + MessageEnvelope) list" where
  "answers s cs \<equiv> fst (assign_all s cs)"

abbreviation final :: "Sequencer \<Rightarrow> (int \<times> MessageEnvelope) list \<Rightarrow> Sequencer" where
  "final s cs \<equiv> snd (assign_all s cs)"

text \<open>The calls of a run that stays within the bounds.\<close>

definition calls_ok :: "(int \<times> MessageEnvelope) list \<Rightarrow> bool" where
  "calls_ok cs \<longleftrightarrow> (\<forall>c \<in> set cs. clock_ok (fst c)) \<and> length cs < 2 ^ 61"

lemma Assign_len: "map_len (sq_requests (snd (Assign now s m))) \<le> Suc (map_len (sq_requests s))"
proof -
  have "map_len (map_put k v q) \<le> Suc (map_len q)" for k v and q :: "(requestKey, MessageEnvelope) gomap"
    by (induction q) (auto simp: map_len_def map_put_def)
  then show ?thesis by (cases rule: Assign_cases [of m now s]) auto
qed

lemma final_inv:
  assumes "seq_inv s" "\<forall>c \<in> set cs. clock_ok (fst c)" "map_len (sq_requests s) + length cs < 2 ^ 61"
  shows "seq_inv (final s cs)"
  using assms
proof (induction cs arbitrary: s)
  case Nil
  then show ?case by simp
next
  case (Cons c cs)
  obtain now m where c: "c = (now, m)" by force
  have "seq_inv (snd (Assign now s m))"
    using Cons.prems by (intro Assign_preserves_inv) (simp_all add: c)
  then have "seq_inv (final (snd (Assign now s m)) cs)"
    using Cons.prems Assign_len [of now s m] by (intro Cons.IH) (simp_all add: c)
  then show ?case by (simp add: c case_prod_unfold Let_def)
qed

lemma assign_len: "map_len (sq_requests (final s cs)) \<le> map_len (sq_requests s) + length cs"
proof (induction cs arbitrary: s)
  case Nil
  then show ?case by simp
next
  case (Cons c cs)
  from Cons.IH [of "snd (Assign (fst c) s (snd c))"] Assign_len [of "fst c" s "snd c"]
  show ?case by (cases c) (simp add: case_prod_unfold Let_def)
qed

lemma final_New_inv: "calls_ok cs \<Longrightarrow> seq_inv (final New cs)"
  by (rule final_inv) (simp_all add: calls_ok_def seq_inv_New, simp add: New_def map_len_def)

lemma requests_New [simp]: "map_get (sq_requests New) = Map.empty"
  by (simp add: New_def)

lemma stored_answer:
  assumes "i < length cs" "answers s cs ! i = Inr a"
  shows "map_get (sq_requests (final s cs)) (request_key (snd (cs ! i))) = Some a"
  using sq.steps_accepted assms by (simp add: assign_all_steps)

lemma answer_stored:
  assumes "map_get (sq_requests (final New cs)) k = Some a"
  shows "Inr a \<in> set (answers New cs)"
proof -
  from assms obtain i where "i < length cs" "answers New cs ! i = Inr a"
    using sq.steps_learnt [of New k cs a] by (auto simp: assign_all_steps)
  then show ?thesis by (metis assign_all_steps nth_mem sq.steps_length)
qed

lemma answer_iff_stored:
  assumes "calls_ok cs"
  shows "Inr a \<in> set (answers New cs) \<longleftrightarrow> map_get (sq_requests (final New cs)) (request_key a) = Some a"
proof
  assume "Inr a \<in> set (answers New cs)"
  then obtain i where i: "i < length cs" "answers New cs ! i = Inr a"
    by (metis assign_all_steps in_set_conv_nth sq.steps_length)
  have e: "entries_ok (final New cs)" using final_New_inv [OF assms] by (simp add: seq_inv_def)
  note st = stored_answer [OF i]
  from entries_okD(1) [OF e st] st
  show "map_get (sq_requests (final New cs)) (request_key a) = Some a" by simp
qed (rule answer_stored)

lemma stored_same:
  assumes "seq_inv s" "map_get (sq_requests s) k = Some a" "map_get (sq_requests s) k' = Some b"
  shows "k = k' \<longleftrightarrow> a = b" and "env_MessageID a = env_MessageID b \<longleftrightarrow> a = b"
    and "env_RoomID a = env_RoomID b \<and> env_RoomSeq a = env_RoomSeq b \<longleftrightarrow> a = b"
proof -
  from assms(1) have p: "entries_ok s" "numbers_distinct s" by (simp_all add: seq_inv_def)
  show k: "k = k' \<longleftrightarrow> a = b"
  proof
    assume "k = k'"
    with assms(2,3) show "a = b" by simp
  next
    assume "a = b"
    then show "k = k'"
      using entries_okD(1) [OF p(1) assms(2)] entries_okD(1) [OF p(1) assms(3)] by metis
  qed
  show "env_MessageID a = env_MessageID b \<longleftrightarrow> a = b"
    and "env_RoomID a = env_RoomID b \<and> env_RoomSeq a = env_RoomSeq b \<longleftrightarrow> a = b"
    using numbers_distinctD [OF p(2) assms(2,3)] k by (cases "a = b"; simp)+
qed

text \<open>
  C1: one identity per request. In any run of the numberer from its empty state, two accepted
  answers are the same message exactly when the requests had the same sender and client message
  id, exactly when they have the same message id, and exactly when they have the same place in
  the same room.
\<close>

theorem numbering_identity:
  assumes "calls_ok cs" "i < length cs" "j < length cs"
    and "answers New cs ! i = Inr a" "answers New cs ! j = Inr b"
  shows "(request_key (snd (cs ! i)) = request_key (snd (cs ! j)) \<longleftrightarrow> a = b)
    \<and> (env_MessageID a = env_MessageID b \<longleftrightarrow> a = b)
    \<and> (env_RoomID a = env_RoomID b \<and> env_RoomSeq a = env_RoomSeq b \<longleftrightarrow> a = b)"
  using stored_same [OF final_New_inv [OF assms(1)] stored_answer [OF assms(2,4)]
      stored_answer [OF assms(3,5)]]
  by simp

text \<open>The messages that a run accepted for a room.\<close>

definition accepted_in :: "(int \<times> MessageEnvelope) list \<Rightarrow> int \<Rightarrow> MessageEnvelope set" where
  "accepted_in cs r = {a. Inr a \<in> set (answers New cs) \<and> env_RoomID a = r}"

text \<open>
  C2: the numbers of a room have no gap and no repetition. After any run, the sequence numbers
  handed out for a room are exactly 1 to n, where n is the number of distinct requests accepted
  for that room.
\<close>

theorem numbering_dense:
  assumes "calls_ok cs"
  shows "env_RoomSeq ` accepted_in cs r = {1 .. int (card (request_key ` accepted_in cs r))}"
proof -
  let ?s = "final New cs"
  define acc where "acc = accepted_in cs r"
  have inv: "seq_inv ?s" using assms(1) by (rule final_New_inv)
  have mem: "a \<in> acc \<longleftrightarrow> map_get (sq_requests ?s) (request_key a) = Some a \<and> env_RoomID a = r" for a
    by (simp add: acc_def accepted_in_def answer_iff_stored [OF assms(1)])
  have "env_RoomSeq ` acc = {1 .. room_count ?s r}"
  proof (intro equalityI subsetI)
    fix n assume "n \<in> env_RoomSeq ` acc"
    then show "n \<in> {1 .. room_count ?s r}"
      using inv entries_okD(5,6) by (fastforce simp: mem seq_inv_def)
  next
    fix n assume "n \<in> {1 .. room_count ?s r}"
    then obtain k a where "map_get (sq_requests ?s) k = Some a" "env_RoomID a = r" "env_RoomSeq a = n"
      using inv unfolding seq_inv_def rooms_dense_def by fastforce
    moreover have "k = request_key a"
      using inv entries_okD(1) [OF _ calculation(1)] by (simp add: seq_inv_def)
    ultimately show "n \<in> env_RoomSeq ` acc" using mem by blast
  qed
  moreover have "inj_on env_RoomSeq acc"
  proof (rule inj_onI)
    fix a b assume "a \<in> acc" "b \<in> acc" "env_RoomSeq a = env_RoomSeq b"
    then show "a = b" using stored_same(3) [OF inv, of "request_key a" a "request_key b" b] mem by simp
  qed
  moreover have "inj_on request_key acc"
    by (rule inj_onI) (metis mem option.inject)
  moreover have "0 \<le> room_count ?s r" using inv by (simp add: seq_inv_def counters_ok_def)
  moreover have "card (request_key ` acc) = card (env_RoomSeq ` acc)"
    using calculation(2,3) by (simp add: card_image)
  ultimately show ?thesis by (simp flip: acc_def)
qed

lemma Assign_monotone:
  assumes "seq_inv s" "clock_ok now" "map_len (sq_requests s) < 2 ^ 61"
  shows "sq_lastID s \<le> sq_lastID (snd (Assign now s m))"
    and "room_count s r \<le> room_count (snd (Assign now s m)) r"
proof -
  have c: "counters_ok s" using assms(1) by (simp add: seq_inv_def)
  show "sq_lastID s \<le> sq_lastID (snd (Assign now s m))"
    and "room_count s r \<le> room_count (snd (Assign now s m)) r"
    by (cases rule: Assign_cases [of m now s];
        use Assign_fresh [OF c assms(2,3), of m] counters_no_wrap(1) [OF c assms(2,3)] in simp)+
qed

lemma later_numbers:
  assumes "seq_inv s" "\<forall>c \<in> set cs. clock_ok (fst c)" "map_len (sq_requests s) + length cs < 2 ^ 61"
    and "map_get (sq_requests s) k = None" "map_get (sq_requests (final s cs)) k = Some e"
  shows "sq_lastID s < env_MessageID e \<and> room_count s (env_RoomID e) < env_RoomSeq e"
  using assms
proof (induction cs arbitrary: s)
  case Nil
  then show ?case by simp
next
  case (Cons c cs)
  obtain now m where c: "c = (now, m)" by force
  let ?s = "snd (Assign now s m)"
  have b: "clock_ok now" "map_len (sq_requests s) < 2 ^ 61" using Cons.prems by (simp_all add: c)
  have co: "counters_ok s" using Cons.prems(1) by (simp add: seq_inv_def)
  have fin: "map_get (sq_requests (final ?s cs)) k = Some e"
    using Cons.prems(5) by (simp add: c case_prod_unfold Let_def)
  show ?case
  proof (cases "map_get (sq_requests ?s) k")
    case None
    have "sq_lastID ?s < env_MessageID e \<and> room_count ?s (env_RoomID e) < env_RoomSeq e"
      using Cons.prems Assign_len [of now s m] None fin
      by (intro Cons.IH Assign_preserves_inv) (simp_all add: c)
    with Assign_monotone [OF Cons.prems(1) b] show ?thesis by (meson order.strict_trans1)
  next
    case (Some f)
    with fin sq.steps_kept [of ?s k f cs] have f: "f = e" by (simp add: assign_all_steps)
    from sq.learnt [OF Cons.prems(4) Some] have key: "k = request_key m" "fst (Assign now s m) = Inr f"
      by simp_all
    then have "\<not> invalid_identity m" by (auto simp: Assign_def)
    from Assign_fresh [OF co b this] Cons.prems(4) key Some f show ?thesis
      using counters_no_wrap(1) [OF co b] by auto
  qed
qed

text \<open>
  Numbers follow the order of acceptance. If a call is answered with a message and a later
  call is answered with a message whose key no call up to the first one carried, the later message
  has the greater message id and, in the same room, the greater sequence number.
\<close>

lemma numbering_order:
  assumes "calls_ok cs" "i < j" "j < length cs"
    and "answers New cs ! i = Inr a" "answers New cs ! j = Inr b"
    and "\<forall>l \<le> i. request_key (snd (cs ! l)) \<noteq> request_key (snd (cs ! j))"
  shows "env_MessageID a < env_MessageID b
    \<and> (env_RoomID a = env_RoomID b \<longrightarrow> env_RoomSeq a < env_RoomSeq b)"
proof -
  let ?pre = "take (Suc i) cs" and ?post = "drop (Suc i) cs"
  let ?s = "final New ?pre"
  have split: "final New cs = final ?s ?post" and pre: "answers New ?pre ! i = Inr a"
    using assms(2-4) sq.steps_append [of New ?pre ?post] sq.steps_length [of New ?pre]
    by (simp_all add: assign_all_steps nth_append)
  have ok: "calls_ok ?pre" "\<forall>c \<in> set ?post. clock_ok (fst c)"
    using assms(1) by (auto simp: calls_ok_def dest: in_set_takeD in_set_dropD)
  have inv: "seq_inv ?s" using ok(1) by (rule final_New_inv)
  have "map_get (sq_requests ?s) (request_key (snd (cs ! j))) = None"
  proof (rule ccontr)
    assume "\<not> ?thesis"
    then obtain e where "map_get (sq_requests ?s) (request_key (snd (cs ! j))) = Some e" by auto
    then obtain l where "l < length ?pre" "request_key (snd (?pre ! l)) = request_key (snd (cs ! j))"
      using sq.steps_learnt [of New "request_key (snd (cs ! j))" ?pre e] by (auto simp: assign_all_steps)
    with assms(6) show False by simp
  qed
  moreover have "map_get (sq_requests (final ?s ?post)) (request_key (snd (cs ! j))) = Some b"
    using stored_answer [OF assms(3,5)] split by simp
  moreover have "map_len (sq_requests ?s) \<le> length ?pre"
    using assign_len [of New ?pre] by (simp add: New_def map_len_def)
  ultimately have b: "sq_lastID ?s < env_MessageID b \<and> room_count ?s (env_RoomID b) < env_RoomSeq b"
    using assms(1-3) by (intro later_numbers [OF inv ok(2)]) (auto simp: calls_ok_def)
  have "entries_ok ?s" using inv by (simp add: seq_inv_def)
  from entries_okD(4,6) [OF this stored_answer [OF _ pre]] assms(2,3) b show ?thesis by auto
qed

text \<open>
  C3: retries. Once a request was accepted with the answer \<open>a\<close>, any later call with the same sender
  and client message id leaves the numberer unchanged, whatever happened in between: it returns
  exactly \<open>a\<close> when room, content and type agree (even if its clock and its creation time differ),
  and is refused otherwise.
\<close>

theorem retry_returns_original:
  assumes "Assign now s m = (Inr a, s1)" and "request_key m' = request_key m"
  shows "Assign now' (final s1 cs) m' =
    (if env_RoomID m' \<le> 0 then (Inl InvalidIdentity, final s1 cs)
     else if env_RoomID m' = env_RoomID a \<and> env_Content m' = env_Content a \<and> env_Type m' = env_Type a
     then (Inr a, final s1 cs)
     else (Inl ConflictingRetry, final s1 cs))"
proof -
  have "map_get (sq_requests s1) (request_key m) = Some a" using assms(1) by (rule sq.accepted)
  from sq.steps_kept [OF this, of cs] assms(2)
  have known: "map_get (sq_requests (final s1 cs)) (request_key m') = Some a"
    by (simp add: assign_all_steps)
  have "\<not> invalid_identity m" using assms(1) by (auto simp: Assign_def)
  with assms(2) have "invalid_identity m' \<longleftrightarrow> env_RoomID m' \<le> 0"
    by (auto simp: invalid_identity_def request_key_def)
  with known show ?thesis by (auto simp: Assign_def)
qed

section \<open>Witnesses\<close>

definition sample_msg :: "int \<Rightarrow> int \<Rightarrow> string \<Rightarrow> string \<Rightarrow> MessageEnvelope" where
  "sample_msg room sender client content =
     \<lparr>env_MessageID = 0, env_RoomSeq = 0, env_RoomID = room, env_SenderID = sender,
      env_ClientMsgID = client, env_Type = 1, env_Content = content, env_CreatedAt = 5\<rparr>"

definition sample_calls :: "(int \<times> MessageEnvelope) list" where
  "sample_calls =
     [(1750000000001, sample_msg 7 1 ''a'' ''hi''), (1750000000001, sample_msg 7 2 ''a'' ''yo''),
      (1749999999999, sample_msg 7 1 ''a'' ''hi''), (1750000000002, sample_msg 8 2 ''b'' ''x''),
      (1750000000003, sample_msg 7 2 ''a'' ''changed'')]"

lemma sample_calls_ok: "calls_ok sample_calls"
  by (simp add: calls_ok_def clock_ok_def sample_calls_def)

lemma sample_answers:
  "answers New sample_calls =
     [Inr ((sample_msg 7 1 ''a'' ''hi'')\<lparr>env_MessageID := 4096, env_RoomSeq := 1\<rparr>),
      Inr ((sample_msg 7 2 ''a'' ''yo'')\<lparr>env_MessageID := 4097, env_RoomSeq := 2\<rparr>),
      Inr ((sample_msg 7 1 ''a'' ''hi'')\<lparr>env_MessageID := 4096, env_RoomSeq := 1\<rparr>),
      Inr ((sample_msg 8 2 ''b'' ''x'')\<lparr>env_MessageID := 8192, env_RoomSeq := 1\<rparr>),
      Inl ConflictingRetry]"
  by code_simp

theorem numbering_identity_witness:
  "let a = (sample_msg 7 1 ''a'' ''hi'')\<lparr>env_MessageID := 4096, env_RoomSeq := 1\<rparr>;
       b = (sample_msg 7 2 ''a'' ''yo'')\<lparr>env_MessageID := 4097, env_RoomSeq := 2\<rparr>
   in (request_key (snd (sample_calls ! 0)) = request_key (snd (sample_calls ! 1)) \<longleftrightarrow> a = b)
     \<and> (env_MessageID a = env_MessageID b \<longleftrightarrow> a = b)
     \<and> (env_RoomID a = env_RoomID b \<and> env_RoomSeq a = env_RoomSeq b \<longleftrightarrow> a = b)"
  unfolding Let_def
  by (rule numbering_identity [OF sample_calls_ok])
    (simp_all only: sample_answers nth_Cons_0 nth_Cons_Suc One_nat_def, simp_all add: sample_calls_def)

theorem numbering_dense_witness:
  "calls_ok sample_calls \<and> env_RoomSeq ` accepted_in sample_calls 7
     = {1 .. int (card (request_key ` accepted_in sample_calls 7))}"
  using numbering_dense [OF sample_calls_ok, of 7] sample_calls_ok by simp

lemma numbering_order_example:
  "let a = (sample_msg 7 1 ''a'' ''hi'')\<lparr>env_MessageID := 4096, env_RoomSeq := 1\<rparr>;
       b = (sample_msg 7 2 ''a'' ''yo'')\<lparr>env_MessageID := 4097, env_RoomSeq := 2\<rparr>
   in env_MessageID a < env_MessageID b
     \<and> (env_RoomID a = env_RoomID b \<longrightarrow> env_RoomSeq a < env_RoomSeq b)"
  unfolding Let_def
  by (rule numbering_order [OF sample_calls_ok, of 0 1])
    (simp_all only: sample_answers nth_Cons_0 nth_Cons_Suc One_nat_def,
      simp_all add: sample_calls_def sample_msg_def request_key_def)

theorem retry_returns_original_witness:
  "fst (Assign 9 (final (snd (Assign 1 New (sample_msg 7 1 ''a'' ''hi''))) sample_calls)
      (sample_msg 7 1 ''a'' ''hi'')) = fst (Assign 1 New (sample_msg 7 1 ''a'' ''hi''))"
proof -
  obtain a s1 where a: "Assign 1 New (sample_msg 7 1 ''a'' ''hi'') = (Inr a, s1)"
      "env_RoomID a = 7" "env_Content a = ''hi''" "env_Type a = 1"
    by (simp add: Assign_def invalid_identity_def Let_def sample_msg_def)
  from retry_returns_original [OF a(1) refl, of 9 sample_calls] a show ?thesis
    by (simp add: sample_msg_def)
qed

end
