(* ===== verification/Pipeline.thy ===== *)
theory Pipeline
  imports Sequencer
begin

text \<open>
  The Kafka loops around the numberer, \<^verbatim>\<open>services/messages/sequencer/pipeline.go\<close>, \<^verbatim>\<open>batch.go\<close> and
  \<^verbatim>\<open>relay_batch.go\<close>: \<open>Run\<close> and \<open>RunBatched\<close> number the ingress topic, \<open>Relay\<close> and \<open>RelayBatched\<close>
  broadcast the numbered topic.

  A loop talks to Kafka, to Redis and to its context. What they answer is a script: \<open>polls\<close> are the
  results of the successive fetches (and the end of a batch window), \<open>cancels\<close> the context checks
  after a batch was collected (no entry: the context is alive), \<open>attempts\<close> the outcomes of the
  rounds of \<open>Retry\<close>. A loop returns the
  trace of its attempts to write and to commit, and \<open>Waiting\<close> when the script is used up, that is
  when the process is blocked in a call; every finite behaviour of the process is the trace of a
  script. \<open>clk\<close> gives the clock reading while the record at an offset is handled.
\<close>

section \<open>Scripts and traces\<close>

record kafka_msg =
  km_Offset :: int
  km_Key :: string
  km_Value :: string

definition km_size :: "kafka_msg \<Rightarrow> int" where
  "km_size m = int (length (km_Key m)) + int (length (km_Value m))"

datatype loop_error =
    FetchError
  | ContextError
  | DecodeError int
  | EncodeError
  | MissingNumber int
  | RecordTooLarge
  | InvalidBounds

text \<open>
  One result of \<^verbatim>\<open>FetchMessage\<close>. \<open>WindowOver\<close>: the context of the call expired, seen either before
  the call or as its deadline error; it ends a batch, and for the fetch of a first record, which is
  made with the outer context, it is an error like any other. \<open>PollFails\<close> is every other error.
\<close>

datatype poll = Next kafka_msg | WindowOver | PollFails

text \<open>
  One round of \<open>Retry\<close>: the context is already done; the action succeeds; it fails and the timer
  fires; it fails and the context ends during the wait.
\<close>

datatype attempt = Cancelled | Succeeds | Fails | FailsCancelled

record script =
  polls :: "poll list"
  cancels :: "bool list"
  attempts :: "attempt list"

datatype 'o event = Emit "'o list" bool | Commit "kafka_msg list" bool

datatype retry_result = RetryOk | RetryError | RetryWaiting

datatype outcome = Waiting | Stopped loop_error

fun Retry :: "(bool \<Rightarrow> 'e) \<Rightarrow> attempt list \<Rightarrow> 'e list \<times> retry_result \<times> attempt list" where
  "Retry action [] = ([], RetryWaiting, [])"
| "Retry action (Cancelled # as) = ([], RetryError, as)"
| "Retry action (Succeeds # as) = ([action True], RetryOk, as)"
| "Retry action (Fails # as) = (let (t, r, as') = Retry action as in (action False # t, r, as'))"
| "Retry action (FailsCancelled # as) = ([action False], RetryError, as)"

lemma Retry_shorter: "Retry action as = (t, RetryOk, as') \<Longrightarrow> length as' < length as"
  by (induction action as arbitrary: t rule: Retry.induct) (auto simp: Let_def split: prod.splits)

text \<open>Every round but the last repeats the same action; only the last one can be acknowledged.\<close>

lemma Retry_trace:
  assumes "Retry action as = (t, r, as')"
  shows "\<exists>n. t = replicate n (action False) @ (if r = RetryOk then [action True] else [])"
  using assms
proof (induction action as arbitrary: t rule: Retry.induct)
  case (4 action as)
  then obtain t' where t': "t = action False # t'" "Retry action as = (t', r, as')"
    by (auto simp: Let_def split: prod.splits)
  from "4.IH" [OF t'(2)] obtain n where
    "t' = replicate n (action False) @ (if r = RetryOk then [action True] else [])" by blast
  with t'(1) show ?case by (intro exI [of _ "Suc n"]) simp
qed (auto intro: exI [of _ 0] exI [of _ 1])

lemma Retry_le: "Retry action as = (t, r, as') \<Longrightarrow> length as' \<le> length as"
  by (induction action as arbitrary: t rule: Retry.induct)
    (fastforce simp: Let_def split: prod.splits)+

text \<open>
  The tail of every loop body: send the outputs of the records (if the handler has any), then
  commit the records, each under \<open>Retry\<close>.
\<close>

definition deliver ::
    "'o list option \<Rightarrow> kafka_msg list \<Rightarrow> attempt list \<Rightarrow> 'o event list \<times> retry_result \<times> attempt list" where
  "deliver outs records as =
     (case (case outs of None \<Rightarrow> ([], RetryOk, as) | Some os \<Rightarrow> Retry (Emit os) as) of
        (t, RetryOk, as1) \<Rightarrow> (case Retry (Commit records) as1 of (u, r, as2) \<Rightarrow> (t @ u, r, as2))
      | (t, r, as1) \<Rightarrow> (t, r, as1))"

lemma deliver_shorter: "deliver outs records as = (t, RetryOk, as') \<Longrightarrow> length as' < length as"
  by (cases outs)
    (auto simp: deliver_def split: prod.splits retry_result.splits dest!: Retry_shorter)

section \<open>The batch loop\<close>

record BatchOptions =
  bo_MaxMessages :: int
  bo_MaxBytes :: int
  bo_MaxWait :: int

datatype collected = Collected "kafka_msg list" "kafka_msg option" "loop_error option" "poll list"
  | CollectWaiting

text \<open>The inner loop of \<^verbatim>\<open>consumeBatches\<close>: records so far, their bytes, the fetches to come.\<close>

fun collect :: "BatchOptions \<Rightarrow> kafka_msg list \<Rightarrow> int \<Rightarrow> poll list \<Rightarrow> collected" where
  "collect opts records bytes [] =
     (if int (length records) < bo_MaxMessages opts \<and> bytes < bo_MaxBytes opts then CollectWaiting
      else Collected records None None [])"
| "collect opts records bytes (p # ps) =
     (if int (length records) < bo_MaxMessages opts \<and> bytes < bo_MaxBytes opts then
        (case p of
           WindowOver \<Rightarrow> Collected records None None ps
         | PollFails \<Rightarrow> Collected records None (Some FetchError) ps
         | Next m \<Rightarrow>
             if bytes + km_size m > bo_MaxBytes opts then Collected records (Some m) None ps
             else collect opts (records @ [m]) (bytes + km_size m) ps)
      else Collected records None None (p # ps))"

lemma collect_polls: "collect opts records bytes ps = Collected rs pend e ps' \<Longrightarrow> length ps' \<le> length ps"
  by (induction opts records bytes ps rule: collect.induct)
    (fastforce split: if_splits poll.splits)+

text \<open>The record that opens a batch: the one left over from the last batch, or a fetched one.\<close>

fun first_record :: "kafka_msg option \<Rightarrow> poll list \<Rightarrow> ((loop_error + kafka_msg) \<times> poll list) option" where
  "first_record (Some m) ps = Some (Inr m, ps)"
| "first_record None [] = None"
| "first_record None (Next m # ps) = Some (Inr m, ps)"
| "first_record None (_ # ps) = Some (Inl FetchError, ps)"

lemma first_record_le: "first_record pending ps = Some (f, ps') \<Longrightarrow> length ps' \<le> length ps"
  by (induction pending ps rule: first_record.induct) auto

text \<open>
  \<^verbatim>\<open>handle\<close> is the batch handler of \<^verbatim>\<open>RunBatched\<close> and \<^verbatim>\<open>RelayBatched\<close> up to its call of \<^verbatim>\<open>Retry\<close>:
  an error, nothing to send, or the outputs that the retried action sends.
\<close>

function consume_loop ::
    "BatchOptions \<Rightarrow> ('s \<Rightarrow> kafka_msg list \<Rightarrow> (loop_error + 'o list option) \<times> 's) \<Rightarrow> 's \<Rightarrow>
     kafka_msg option \<Rightarrow> script \<Rightarrow> 'o event list \<times> outcome \<times> 's" where
  "consume_loop opts handle st pending sc =
     (case first_record pending (polls sc) of
        None \<Rightarrow> ([], Waiting, st)
      | Some (Inl e, ps) \<Rightarrow> ([], Stopped e, st)
      | Some (Inr first, ps) \<Rightarrow>
          if km_size first > bo_MaxBytes opts then ([], Stopped RecordTooLarge, st)
          else
            (case collect opts [first] (km_size first) ps of
               CollectWaiting \<Rightarrow> ([], Waiting, st)
             | Collected records pend terminal ps' \<Rightarrow>
                 if cancels sc \<noteq> [] \<and> hd (cancels sc) then ([], Stopped ContextError, st)
                 else
                   (case handle st records of
                      (Inl e, st') \<Rightarrow> ([], Stopped e, st')
                    | (Inr outs, st') \<Rightarrow>
                        (case deliver outs records (attempts sc) of
                           (t, RetryWaiting, as) \<Rightarrow> (t, Waiting, st')
                         | (t, RetryError, as) \<Rightarrow> (t, Stopped ContextError, st')
                         | (t, RetryOk, as) \<Rightarrow>
                             (case terminal of
                                Some e \<Rightarrow> (t, Stopped e, st')
                              | None \<Rightarrow>
                                  (case consume_loop opts handle st' pend
                                          \<lparr>polls = ps', cancels = tl (cancels sc), attempts = as\<rparr> of
                                     (v, r, st'') \<Rightarrow> (t @ v, r, st'')))))))"
  by pat_completeness auto

lemma loop_shorter:
  assumes "first_record pending qs = Some x" "(f, ps) = x"
    "collect opts rs b ps = Collected rs' pend e ps'"
    "(t, y) = deliver outs rs'' as" "(r, as') = y" "r = RetryOk"
  shows "length ps' + length as' < length qs + length as"
proof -
  have "first_record pending qs = Some (f, ps)" "deliver outs rs'' as = (t, RetryOk, as')"
    using assms by auto
  from first_record_le [OF this(1)] collect_polls [OF assms(3)] deliver_shorter [OF this(2)]
  show ?thesis by simp
qed

termination consume_loop
proof (relation "measure (\<lambda>(opts, handle, st, pending, sc). length (polls sc) + length (attempts sc))",
    goal_cases)
  case 1
  then show ?case by simp
next
  case 2
  from loop_shorter [OF 2(1,2,5,9,10,11)] show ?case by simp
qed

declare consume_loop.simps [simp del]

definition consumeBatches ::
    "BatchOptions \<Rightarrow> ('s \<Rightarrow> kafka_msg list \<Rightarrow> (loop_error + 'o list option) \<times> 's) \<Rightarrow> 's \<Rightarrow>
     script \<Rightarrow> 'o event list \<times> outcome \<times> 's" where
  "consumeBatches opts handle st sc =
     (if bo_MaxMessages opts < 1 \<or> bo_MaxMessages opts > 10000 \<or> bo_MaxBytes opts < 1
         \<or> bo_MaxWait opts \<le> 0
      then ([], Stopped InvalidBounds, st)
      else consume_loop opts handle st None sc)"

text \<open>The unbatched loops \<open>Run\<close> and \<open>Relay\<close> have the same shape with one record at a time.\<close>

fun consume_each ::
    "('s \<Rightarrow> kafka_msg \<Rightarrow> (loop_error + 'o list option) \<times> 's) \<Rightarrow> 's \<Rightarrow> poll list \<Rightarrow> attempt list \<Rightarrow>
     'o event list \<times> outcome \<times> 's" where
  "consume_each handle st [] as = ([], Waiting, st)"
| "consume_each handle st (Next record # ps) as =
     (case handle st record of
        (Inl e, st') \<Rightarrow> ([], Stopped e, st')
      | (Inr outs, st') \<Rightarrow>
          (case deliver outs [record] as of
             (t, RetryWaiting, as') \<Rightarrow> (t, Waiting, st')
           | (t, RetryError, as') \<Rightarrow> (t, Stopped ContextError, st')
           | (t, RetryOk, as') \<Rightarrow>
               (case consume_each handle st' ps as' of (v, r, st'') \<Rightarrow> (t @ v, r, st''))))"
| "consume_each handle st (_ # ps) as = ([], Stopped FetchError, st)"

section \<open>The four loops\<close>

text \<open>
  The numbering of the records of a batch, in input order. A payload that does not decode stops the
  loop; a message that \<open>Assign\<close> refuses is skipped.
\<close>

fun number_records ::
    "codec \<Rightarrow> (int \<Rightarrow> time) \<Rightarrow> Sequencer \<Rightarrow> kafka_msg list \<Rightarrow> (loop_error + kafka_msg list) \<times> Sequencer" where
  "number_records cd clk state [] = (Inr [], state)"
| "number_records cd clk state (record # records) =
     (let now = clk (km_Offset record)
      in case Unmarshal cd now (km_Value record) of
        Inl _ \<Rightarrow> (Inl (DecodeError (km_Offset record)), state)
      | Inr input \<Rightarrow>
          (case Assign (UnixMilli now) state input of
             (Inl _, state') \<Rightarrow> number_records cd clk state' records
           | (Inr message, state') \<Rightarrow>
               (case Marshal cd message of
                  Inl _ \<Rightarrow> (Inl EncodeError, state')
                | Inr v \<Rightarrow>
                    (case number_records cd clk state' records of
                       (Inl e, state'') \<Rightarrow> (Inl e, state'')
                     | (Inr outputs, state'') \<Rightarrow>
                         (Inr (\<lparr>km_Offset = 0, km_Key = FormatInt (env_RoomID message), km_Value = v\<rparr> # outputs),
                          state'')))))"

record RelayMessage =
  rm_Message :: MessageEnvelope
  rm_Value :: string

fun relay_records :: "codec \<Rightarrow> (int \<Rightarrow> time) \<Rightarrow> kafka_msg list \<Rightarrow> loop_error + RelayMessage list" where
  "relay_records cd clk [] = Inr []"
| "relay_records cd clk (record # records) =
     (case Unmarshal cd (clk (km_Offset record)) (km_Value record) of
        Inl _ \<Rightarrow> Inl (DecodeError (km_Offset record))
      | Inr message \<Rightarrow>
          if env_RoomID message \<le> 0 \<or> env_MessageID message \<le> 0 \<or> env_RoomSeq message \<le> 0
          then Inl (MissingNumber (km_Offset record))
          else
            (case relay_records cd clk records of
               Inl e \<Rightarrow> Inl e
             | Inr messages \<Rightarrow> Inr (\<lparr>rm_Message = message, rm_Value = km_Value record\<rparr> # messages)))"

text \<open>\<^verbatim>\<open>RunBatched\<close> writes only when there are outputs; \<^verbatim>\<open>RelayBatched\<close> always publishes.\<close>

definition if_any :: "'o list \<Rightarrow> 'o list option" where
  "if_any os = (if os = [] then None else Some os)"

definition with_outputs ::
    "('o list \<Rightarrow> 'o list option) \<Rightarrow> ('s \<Rightarrow> kafka_msg list \<Rightarrow> (loop_error + 'o list) \<times> 's) \<Rightarrow>
     's \<Rightarrow> kafka_msg list \<Rightarrow> (loop_error + 'o list option) \<times> 's" where
  "with_outputs sel prep st records =
     (case prep st records of (Inl e, st') \<Rightarrow> (Inl e, st') | (Inr os, st') \<Rightarrow> (Inr (sel os), st'))"

definition RunBatched ::
    "codec \<Rightarrow> (int \<Rightarrow> time) \<Rightarrow> BatchOptions \<Rightarrow> Sequencer \<Rightarrow> script \<Rightarrow>
     kafka_msg event list \<times> outcome \<times> Sequencer" where
  "RunBatched cd clk opts state sc =
     consumeBatches opts (with_outputs if_any (number_records cd clk)) state sc"

definition RelayBatched ::
    "codec \<Rightarrow> (int \<Rightarrow> time) \<Rightarrow> BatchOptions \<Rightarrow> script \<Rightarrow> RelayMessage event list \<times> outcome" where
  "RelayBatched cd clk opts sc =
     (case consumeBatches opts (with_outputs Some (\<lambda>u records. (relay_records cd clk records, u))) () sc of (t, r, _) \<Rightarrow> (t, r))"

definition Run ::
    "codec \<Rightarrow> (int \<Rightarrow> time) \<Rightarrow> Sequencer \<Rightarrow> poll list \<Rightarrow> attempt list \<Rightarrow>
     kafka_msg event list \<times> outcome \<times> Sequencer" where
  "Run cd clk state ps as =
     consume_each
       (\<lambda>state record. let now = clk (km_Offset record)
          in case Unmarshal cd now (km_Value record) of
            Inl _ \<Rightarrow> (Inl (DecodeError (km_Offset record)), state)
          | Inr input \<Rightarrow>
              (case Assign (UnixMilli now) state input of
                 (Inl _, state') \<Rightarrow> (Inr None, state')
               | (Inr message, state') \<Rightarrow>
                   (case Marshal cd message of
                      Inl _ \<Rightarrow> (Inl EncodeError, state')
                    | Inr v \<Rightarrow>
                        (Inr (Some [\<lparr>km_Offset = 0, km_Key = FormatInt (env_RoomID message), km_Value = v\<rparr>]),
                         state'))))
       state ps as"

text \<open>\<^verbatim>\<open>Relay\<close> does not test the room id.\<close>

definition Relay ::
    "codec \<Rightarrow> (int \<Rightarrow> time) \<Rightarrow> poll list \<Rightarrow> attempt list \<Rightarrow> RelayMessage event list \<times> outcome" where
  "Relay cd clk ps as =
     (case consume_each
        (\<lambda>u record. case Unmarshal cd (clk (km_Offset record)) (km_Value record) of
            Inl _ \<Rightarrow> (Inl (DecodeError (km_Offset record)), u)
          | Inr message \<Rightarrow>
              if env_MessageID message \<le> 0 \<or> env_RoomSeq message \<le> 0
              then (Inl (MissingNumber (km_Offset record)), u)
              else (Inr (Some [\<lparr>rm_Message = message, rm_Value = km_Value record\<rparr>]), u))
        () ps as of (t, r, _) \<Rightarrow> (t, r))"

section \<open>What a trace says\<close>

fun acked :: "'o event list \<Rightarrow> 'o list" where
  "acked [] = []"
| "acked (Emit os True # t) = os @ acked t"
| "acked (_ # t) = acked t"

fun committed :: "'o event list \<Rightarrow> kafka_msg list" where
  "committed [] = []"
| "committed (Commit rs True # t) = rs @ committed t"
| "committed (_ # t) = committed t"

fun fetched :: "poll list \<Rightarrow> kafka_msg list" where
  "fetched [] = []"
| "fetched (Next m # ps) = m # fetched ps"
| "fetched (_ # ps) = fetched ps"

lemma acked_append [simp]: "acked (t @ u) = acked t @ acked u"
  by (induction t rule: acked.induct) auto

lemma committed_append [simp]: "committed (t @ u) = committed t @ committed u"
  by (induction t rule: committed.induct) auto

lemma failed_rounds [simp]:
  "acked (replicate n (Emit os False)) = []" "committed (replicate n (Emit os False)) = []"
  "acked (replicate n (Commit rs False)) = []" "committed (replicate n (Commit rs False)) = []"
  "committed [Emit os b] = []" "acked [Commit rs b] = []"
  by (induction n) auto

definition outputs_of :: "'o list option \<Rightarrow> 'o list" where
  "outputs_of outs = (case outs of None \<Rightarrow> [] | Some os \<Rightarrow> os)"

lemma outputs_of_simps [simp]: "outputs_of None = []" "outputs_of (Some os) = os"
    "outputs_of (if_any os) = os"
  by (simp_all add: outputs_of_def if_any_def)

section \<open>Send before commit\<close>

text \<open>
  At every point of a delivery either nothing happened yet, or the outputs are acknowledged, or they
  are and the records are committed; the last is the case when it ends well.
\<close>

lemma take_replicate_snoc:
  "take k (replicate n x @ ys) = replicate (min k n) x @ take (k - n) ys"
  by (simp add: min_def)

lemma Retry_prefix:
  assumes "Retry action as = (t, r, as')"
  shows "(\<exists>n. take k t = replicate n (action False)) \<or>
    (r = RetryOk \<and> (\<exists>n. take k t = replicate n (action False) @ [action True]))"
proof -
  from Retry_trace [OF assms] obtain n where
    "t = replicate n (action False) @ (if r = RetryOk then [action True] else [])" by blast
  then show ?thesis
    by (cases "k \<le> n") (auto simp: take_Cons' min_def split: if_splits)
qed

lemma deliver_prefix:
  assumes "deliver outs rs as = (t, r, as')"
  shows "acked (take k t) = [] \<and> committed (take k t) = [] \<or>
    acked (take k t) = outputs_of outs \<and> committed (take k t) = [] \<or>
    r = RetryOk \<and> acked (take k t) = outputs_of outs \<and> committed (take k t) = rs"
proof (cases outs)
  case None
  with assms have "Retry (Commit rs) as = (t, r, as')" by (auto simp: deliver_def split: prod.splits)
  from Retry_prefix [OF this, of k] None show ?thesis by auto
next
  case (Some os)
  obtain t1 r1 as1 where e: "Retry (Emit os) as = (t1, r1, as1)" by (metis prod_cases3)
  show ?thesis
  proof (cases "r1 = RetryOk")
    case False
    with assms Some e have "t = t1" by (cases r1) (auto simp: deliver_def)
    with Retry_prefix [OF e, of k] Some show ?thesis by auto
  next
    case True
    obtain r2 as2 and t2 :: "'a event list" where c: "Retry (Commit rs) as1 = (t2, r2, as2)"
      by (metis prod_cases3)
    with assms Some e True have t: "t = t1 @ t2" "r = r2" by (auto simp: deliver_def)
    from Retry_trace [OF e] True have t1: "acked t1 = os" "committed t1 = []" by auto
    show ?thesis
    proof (cases "k \<le> length t1")
      case True
      with t have "take k t = take k t1" by simp
      with Retry_prefix [OF e, of k] Some show ?thesis by auto
    next
      case False
      with t have "take k t = t1 @ take (k - length t1) t2" by simp
      with Retry_prefix [OF c, of "k - length t1"] t t1 Some show ?thesis by auto
    qed
  qed
qed

lemma deliver_complete:
  assumes "deliver outs rs as = (t, RetryOk, as')"
  shows "acked t = outputs_of outs" "committed t = rs"
proof -
  have *: "committed u = rs \<and> acked u = []" if "Retry (Commit rs) bs = (u, RetryOk, bs')"
    for bs bs' and u :: "'a event list" using Retry_trace [OF that] by auto
  have "acked t = outputs_of outs \<and> committed t = rs"
  proof (cases outs)
    case None
    with assms have "Retry (Commit rs) as = (t, RetryOk, as')"
      by (auto simp: deliver_def split: prod.splits)
    from * [OF this] None show ?thesis by simp
  next
    case (Some os)
    obtain t1 r1 as1 where e: "Retry (Emit os) as = (t1, r1, as1)" by (metis prod_cases3)
    obtain r2 as2 and t2 :: "'a event list" where c: "Retry (Commit rs) as1 = (t2, r2, as2)"
      by (metis prod_cases3)
    from assms Some e c have "r1 = RetryOk" "r2 = RetryOk" "t = t1 @ t2"
      by (cases r1; auto simp: deliver_def)+
    with Retry_trace [OF e] * [of as1 t2 as2] c Some show ?thesis by auto
  qed
  then show "acked t = outputs_of outs" "committed t = rs" by simp_all
qed

lemma consume_loop_cases:
  assumes "consume_loop opts handle st pending sc = (t, r, st2)"
  obtains (quiet) "t = []"
  | (once) first ps records pend terminal ps' outs st' res as where
      "first_record pending (polls sc) = Some (Inr first, ps)" "km_size first \<le> bo_MaxBytes opts"
      "collect opts [first] (km_size first) ps = Collected records pend terminal ps'"
      "handle st records = (Inr outs, st')" "deliver outs records (attempts sc) = (t, res, as)"
  | (again) first ps records pend ps' outs st' u as v where
      "first_record pending (polls sc) = Some (Inr first, ps)" "km_size first \<le> bo_MaxBytes opts"
      "collect opts [first] (km_size first) ps = Collected records pend None ps'"
      "handle st records = (Inr outs, st')" "deliver outs records (attempts sc) = (u, RetryOk, as)"
      "consume_loop opts handle st' pend \<lparr>polls = ps', cancels = tl (cancels sc), attempts = as\<rparr>
         = (v, r, st2)"
      "t = u @ v"
  using assms
  by (subst (asm) consume_loop.simps)
    (auto split: option.splits prod.splits sum.splits collected.splits if_splits retry_result.splits)

lemma collect_records:
  "collect opts records bytes ps = Collected rs pend e ps' \<Longrightarrow>
     records @ fetched ps = rs @ (case pend of None \<Rightarrow> [] | Some m \<Rightarrow> [m]) @ fetched ps'"
  by (induction opts records bytes ps rule: collect.induct) (auto split: if_splits poll.splits)

lemma collect_starts:
  "collect opts records bytes ps = Collected rs pend e ps' \<Longrightarrow> \<exists>more. rs = records @ more"
  by (induction opts records bytes ps rule: collect.induct) (auto split: if_splits poll.splits)

definition to_come :: "kafka_msg option \<Rightarrow> poll list \<Rightarrow> kafka_msg list" where
  "to_come pending ps = (case pending of None \<Rightarrow> [] | Some m \<Rightarrow> [m]) @ fetched ps"

lemma batch_records:
  assumes "first_record pending qs = Some (Inr first, ps)"
    "collect opts [first] b ps = Collected rs pend e ps'"
  shows "to_come pending qs = rs @ to_come pend ps'"
proof -
  have "to_come pending qs = first # fetched ps"
    using assms(1) by (induction pending qs rule: first_record.induct) (auto simp: to_come_def)
  with collect_records [OF assms(2)] show ?thesis by (simp add: to_come_def)
qed

text \<open>
  What a loop owes its handler: the outputs of a sequence of records are the outputs of its parts,
  with the state passed on. Both handlers satisfy it; from it follows that the grouping into batches
  does not matter.
\<close>

locale record_handler =
  fixes prep :: "'s \<Rightarrow> kafka_msg list \<Rightarrow> (loop_error + 'o list) \<times> 's"
  assumes prep_none: "prep s [] = (Inr [], s)"
    and prep_split: "prep s (xs @ ys) =
      (case prep s xs of
         (Inl e, s') \<Rightarrow> (Inl e, s')
       | (Inr a, s') \<Rightarrow>
           (case prep s' ys of (Inl e, s'') \<Rightarrow> (Inl e, s'') | (Inr b, s'') \<Rightarrow> (Inr (a @ b), s'')))"
begin

text \<open>
  After every event of the trace, the committed records are a prefix of the input, and the
  acknowledged outputs are those of a prefix that is at least as long.
\<close>

definition faithful :: "'s \<Rightarrow> kafka_msg list \<Rightarrow> 'o event list \<Rightarrow> bool" where
  "faithful s recs t \<longleftrightarrow> (\<forall>k. \<exists>n m. n \<le> m \<and> m \<le> length recs \<and> committed (take k t) = take n recs \<and>
     fst (prep s (take m recs)) = Inr (acked (take k t)))"

lemma faithful_Nil [simp]: "faithful s recs []"
  by (auto simp: faithful_def prep_none intro!: exI [of _ 0])

lemma faithful_deliver:
  assumes "prep s rs = (Inr os, s')" "outputs_of outs = os" "deliver outs rs as = (t, r, as')"
  shows "faithful s (rs @ rest) t"
  unfolding faithful_def
proof
  fix k
  have none: "fst (prep s (take 0 (rs @ rest))) = Inr []" by (simp add: prep_none)
  have all: "fst (prep s (take (length rs) (rs @ rest))) = Inr os" by (simp add: assms(1))
  from deliver_prefix [OF assms(3), of k] assms(2)
  consider "acked (take k t) = []" "committed (take k t) = []"
    | "acked (take k t) = os" "committed (take k t) = []"
    | "acked (take k t) = os" "committed (take k t) = rs" by auto
  then show "\<exists>n m. n \<le> m \<and> m \<le> length (rs @ rest) \<and> committed (take k t) = take n (rs @ rest) \<and>
     fst (prep s (take m (rs @ rest))) = Inr (acked (take k t))"
  proof cases
    case 1
    with none show ?thesis by (intro exI [of _ 0]) auto
  next
    case 2
    with all show ?thesis by (intro exI [of _ 0] exI [of _ "length rs"] conjI) simp_all
  next
    case 3
    with all show ?thesis by (intro exI [of _ "length rs"] conjI) simp_all
  qed
qed

lemma faithful_step:
  assumes "prep s rs = (Inr os, s')" "outputs_of outs = os" "deliver outs rs as = (u, RetryOk, as')"
    and "faithful s' rest v"
  shows "faithful s (rs @ rest) (u @ v)"
  unfolding faithful_def
proof
  fix k
  show "\<exists>n m. n \<le> m \<and> m \<le> length (rs @ rest) \<and> committed (take k (u @ v)) = take n (rs @ rest) \<and>
     fst (prep s (take m (rs @ rest))) = Inr (acked (take k (u @ v)))"
  proof (cases "k \<le> length u")
    case True
    with faithful_deliver [OF assms(1-3), of rest] show ?thesis by (simp add: faithful_def)
  next
    case False
    from assms(4) obtain n m where nm: "n \<le> m" "m \<le> length rest"
      "committed (take (k - length u) v) = take n rest"
      "fst (prep s' (take m rest)) = Inr (acked (take (k - length u) v))"
      unfolding faithful_def by blast
    have "fst (prep s (take (length rs + m) (rs @ rest))) = Inr (os @ acked (take (k - length u) v))"
      using nm(4) by (auto simp: prep_split assms(1) split: prod.splits sum.splits)
    with nm False deliver_complete [OF assms(3)] assms(2) show ?thesis
      by (intro exI [of _ "length rs + n"] exI [of _ "length rs + m"] conjI) simp_all
  qed
qed

lemma consume_loop_faithful:
  assumes sel: "\<And>os. outputs_of (sel os) = os"
    and run: "consume_loop opts (with_outputs sel prep) st pending sc = (t, r, st2)"
  shows "faithful st (to_come pending (polls sc)) t"
  using run
proof (induction "length (polls sc) + length (attempts sc)" arbitrary: st pending sc t rule: less_induct)
  case less
  have handled: "\<exists>os. prep s rs = (Inr os, s') \<and> outputs_of outs = os"
    if "with_outputs sel prep s rs = (Inr outs, s')" for s s' rs outs
    using that by (auto simp: with_outputs_def sel split: prod.splits sum.splits)
  from less.prems show ?case
  proof (cases rule: consume_loop_cases)
    case quiet
    then show ?thesis by simp
  next
    case (once first ps records pend terminal ps' outs st' res as)
    from handled [OF once(4)] obtain os where os: "prep st records = (Inr os, st')" "outputs_of outs = os"
      by blast
    from faithful_deliver [OF os once(5)] batch_records [OF once(1,3)] show ?thesis by simp
  next
    case (again first ps records pend ps' outs st' u as v)
    from handled [OF again(4)] obtain os where os: "prep st records = (Inr os, st')" "outputs_of outs = os"
      by blast
    have "length ps' + length as < length (polls sc) + length (attempts sc)"
      using loop_shorter [OF again(1) refl again(3)] again(5) by metis
    then have "faithful st' (to_come pend ps') v" using less.hyps [OF _ again(6)] by simp
    from faithful_step [OF os again(5) this] batch_records [OF again(1,3)] again(7)
    show ?thesis by simp
  qed
qed

lemma consumeBatches_faithful:
  assumes "\<And>os. outputs_of (sel os) = os"
    and "consumeBatches opts (with_outputs sel prep) st sc = (t, r, st2)"
  shows "faithful st (fetched (polls sc)) t"
  using assms consume_loop_faithful [OF assms(1), of opts st None sc t r st2]
  by (auto simp: consumeBatches_def to_come_def split: if_splits)

lemma consume_each_faithful:
  assumes sel: "\<And>os. outputs_of (sel os) = os"
    and run: "consume_each (\<lambda>s x. with_outputs sel prep s [x]) st ps as = (t, r, st2)"
  shows "faithful st (fetched ps) t"
  using run
proof (induction ps arbitrary: st as t)
  case Nil
  then show ?case by simp
next
  case (Cons p ps)
  show ?case
  proof (cases p)
    case (Next m)
    show ?thesis
    proof (cases "prep st [m]")
      case (Pair o' s')
      then show ?thesis
      proof (cases o')
        case (Inl e)
        with Pair Next Cons.prems show ?thesis by (auto simp: with_outputs_def)
      next
        case (Inr os)
        obtain u ru as' where d: "deliver (sel os) [m] as = (u, ru, as')" by (metis prod_cases3)
        show ?thesis
        proof (cases "ru = RetryOk")
          case True
          obtain v rv sv where v: "consume_each (\<lambda>s x. with_outputs sel prep s [x]) s' ps as' = (v, rv, sv)"
            by (metis prod_cases3)
          with True Cons.prems Next Pair Inr d have "t = u @ v" "rv = r" "sv = st2"
            by (auto simp: with_outputs_def)
          with v Cons.IH faithful_step [OF Pair [unfolded Inr] sel d [unfolded True], of "fetched ps" v] Next
          show ?thesis by simp
        next
          case False
          with Cons.prems Next Pair Inr d have "t = u"
            by (cases ru) (auto simp: with_outputs_def)
          with faithful_deliver [OF Pair [unfolded Inr] sel d, of "fetched ps"] Next
          show ?thesis by simp
        qed
      qed
    qed
  qed (use Cons.prems in auto)
qed

end

lemma number_records_append:
  "number_records cd clk s (xs @ ys) =
     (case number_records cd clk s xs of
        (Inl e, s') \<Rightarrow> (Inl e, s')
      | (Inr a, s') \<Rightarrow>
          (case number_records cd clk s' ys of
             (Inl e, s'') \<Rightarrow> (Inl e, s'') | (Inr b, s'') \<Rightarrow> (Inr (a @ b), s'')))"
  by (induction cd clk s xs rule: number_records.induct)
    (auto simp: Let_def split: sum.splits prod.splits)

lemma relay_records_append:
  "relay_records cd clk (xs @ ys) =
     (case relay_records cd clk xs of
        Inl e \<Rightarrow> Inl e
      | Inr a \<Rightarrow> (case relay_records cd clk ys of Inl e \<Rightarrow> Inl e | Inr b \<Rightarrow> Inr (a @ b)))"
  by (induction cd clk xs rule: relay_records.induct) (auto split: sum.splits)

interpretation nr: record_handler "number_records cd clk" for cd clk
  by unfold_locales (simp_all add: number_records_append)

interpretation rr: record_handler "\<lambda>u :: unit. \<lambda>records. (relay_records cd clk records, u)" for cd clk
  by unfold_locales (auto simp: relay_records_append split: sum.splits)

lemma Run_consume_each:
  "Run cd clk s ps as =
     consume_each (\<lambda>s x. with_outputs if_any (number_records cd clk) s [x]) s ps as"
proof -
  have "(\<lambda>state record. let now = clk (km_Offset record)
          in case Unmarshal cd now (km_Value record) of
            Inl _ \<Rightarrow> (Inl (DecodeError (km_Offset record)), state)
          | Inr input \<Rightarrow>
              (case Assign (UnixMilli now) state input of
                 (Inl _, state') \<Rightarrow> (Inr None, state')
               | (Inr message, state') \<Rightarrow>
                   (case Marshal cd message of
                      Inl _ \<Rightarrow> (Inl EncodeError, state')
                    | Inr v \<Rightarrow>
                        (Inr (Some [\<lparr>km_Offset = 0, km_Key = FormatInt (env_RoomID message), km_Value = v\<rparr>]),
                         state'))))
    = (\<lambda>s x. with_outputs if_any (number_records cd clk) s [x])"
    by (auto simp: fun_eq_iff with_outputs_def if_any_def Let_def split: sum.splits prod.splits)
  then show ?thesis by (simp add: Run_def)
qed

text \<open>
  C4: no record of the ingress topic is committed before its number is published. At every moment of
  \<open>RunBatched\<close>, whatever Kafka answers, the committed records are a prefix of the fetched ones and the
  acknowledged outputs are exactly the numbering (in input order) of a prefix that is at least as
  long; so a crash loses nothing that was committed, and batching never reorders.
\<close>

theorem RunBatched_send_before_commit:
  "\<exists>n m. n \<le> m \<and> m \<le> length (fetched (polls sc)) \<and>
     committed (take k (fst (RunBatched cd clk opts s sc))) = take n (fetched (polls sc)) \<and>
     fst (number_records cd clk s (take m (fetched (polls sc)))) =
       Inr (acked (take k (fst (RunBatched cd clk opts s sc))))"
proof -
  obtain t r s' where run: "RunBatched cd clk opts s sc = (t, r, s')" by (metis prod_cases3)
  then have "nr.faithful cd clk s (fetched (polls sc)) t"
    unfolding RunBatched_def by (intro nr.consumeBatches_faithful) simp_all
  with run show ?thesis by (simp add: nr.faithful_def)
qed

lemma number_records_prefix:
  assumes "fst (number_records cd clk s (take m recs)) = Inr a"
    and "fst (number_records cd clk s (take m' recs)) = Inr b" and "m \<le> m'"
  shows "\<exists>xs. b = a @ xs"
proof -
  have "take m' recs = take m recs @ drop m (take m' recs)"
    using assms(3) by (metis append_take_drop_id min.absorb1 take_take)
  with assms(2) have "fst (number_records cd clk s (take m recs @ drop m (take m' recs))) = Inr b"
    by simp
  with assms(1) show ?thesis
    by (auto simp: number_records_append split: prod.splits sum.splits)
qed

text \<open>
  C5: the optimised loop does what the simple one does. On the same input, however the records are
  grouped into batches and however often writes fail, the numbered messages that \<open>RunBatched\<close> and
  \<open>Run\<close> publish agree: one sequence is a prefix of the other.
\<close>

theorem RunBatched_agrees_with_Run:
  assumes "fetched (polls sc) = fetched ps"
  shows "\<exists>xs. acked (fst (RunBatched cd clk opts s sc)) = acked (fst (Run cd clk s ps as)) @ xs
     \<or> acked (fst (Run cd clk s ps as)) = acked (fst (RunBatched cd clk opts s sc)) @ xs"
proof -
  obtain t r s' where run: "RunBatched cd clk opts s sc = (t, r, s')" by (metis prod_cases3)
  obtain u q s2 where each: "Run cd clk s ps as = (u, q, s2)" by (metis prod_cases3)
  have "nr.faithful cd clk s (fetched (polls sc)) t"
    using run unfolding RunBatched_def by (intro nr.consumeBatches_faithful) simp_all
  then obtain m where m: "fst (number_records cd clk s (take m (fetched ps))) = Inr (acked t)"
    unfolding nr.faithful_def assms by (metis take_all_iff order_refl)
  have "nr.faithful cd clk s (fetched ps) u"
    using each unfolding Run_consume_each by (intro nr.consume_each_faithful) simp_all
  then obtain m' where m': "fst (number_records cd clk s (take m' (fetched ps))) = Inr (acked u)"
    unfolding nr.faithful_def by (metis take_all_iff order_refl)
  from number_records_prefix [OF m m'] number_records_prefix [OF m' m] run each
  show ?thesis by (cases "m \<le> m'") auto
qed

section \<open>Batch bounds\<close>

definition batch_size :: "kafka_msg list \<Rightarrow> int" where
  "batch_size rs = sum_list (map km_size rs)"

lemma batch_size_simps [simp]: "batch_size [] = 0" "batch_size (m # rs) = km_size m + batch_size rs"
    "batch_size (rs @ qs) = batch_size rs + batch_size qs"
  by (simp_all add: batch_size_def)

lemma collect_bounds:
  assumes "collect opts records bytes ps = Collected rs pend e ps'"
    and "bytes = batch_size records" "bytes \<le> bo_MaxBytes opts"
    and "int (length records) \<le> bo_MaxMessages opts"
  shows "int (length rs) \<le> bo_MaxMessages opts \<and> batch_size rs \<le> bo_MaxBytes opts"
  using assms
  by (induction opts records bytes ps rule: collect.induct) (auto split: if_splits poll.splits)

lemma deliver_events:
  assumes "deliver outs rs as = (t, r, as')" "Commit qs b \<in> set t"
  shows "qs = rs"
proof -
  have c: "qs = rs" if "Retry (Commit rs) bs = (u, q, bs')" "Commit qs b \<in> set u"
    for bs q bs' and u :: "'a event list"
    using Retry_trace [OF that(1)] that(2) by (auto split: if_splits)
  have e: "Commit qs b \<notin> set u" if "Retry (Emit os) bs = (u, q, bs')" for bs u q bs' and os :: "'a list"
    using Retry_trace [OF that] by (auto split: if_splits)
  from assms show ?thesis
    by (auto simp: deliver_def split: option.splits prod.splits retry_result.splits dest: c e)
qed

lemma consume_loop_bounds:
  assumes "consume_loop opts handle st pending sc = (t, r, st2)" "1 \<le> bo_MaxMessages opts"
    "Commit rs b \<in> set t"
  shows "rs \<noteq> [] \<and> int (length rs) \<le> bo_MaxMessages opts \<and> batch_size rs \<le> bo_MaxBytes opts"
  using assms
proof (induction "length (polls sc) + length (attempts sc)" arbitrary: st pending sc t rule: less_induct)
  case less
  have ok: "records \<noteq> [] \<and> int (length records) \<le> bo_MaxMessages opts \<and> batch_size records \<le> bo_MaxBytes opts"
    if "collect opts [first] (km_size first) ps = Collected records pend terminal ps'"
      "km_size first \<le> bo_MaxBytes opts" for first ps records pend terminal ps'
    using collect_bounds [OF that(1)] collect_starts [OF that(1)] that(2) less.prems(2) by auto
  from less.prems(1) show ?case
  proof (cases rule: consume_loop_cases)
    case quiet
    with less.prems show ?thesis by simp
  next
    case (once first ps records pend terminal ps' outs st' res as)
    from deliver_events [OF once(5) less.prems(3)] ok [OF once(3,2)] show ?thesis by simp
  next
    case (again first ps records pend ps' outs st' u as v)
    have "length ps' + length as < length (polls sc) + length (attempts sc)"
      using loop_shorter [OF again(1) refl again(3)] again(5) by metis
    then have "Commit rs b \<in> set v \<Longrightarrow> ?thesis" using less.hyps [OF _ again(6) less.prems(2)] by simp
    with deliver_events [OF again(5)] ok [OF again(3,2)] less.prems(3) again(7) show ?thesis by auto
  qed
qed

text \<open>
  Every batch that \<open>consumeBatches\<close> works on, for any handler and any answers of Kafka, is not
  empty, has at most \<^verbatim>\<open>MaxMessages\<close> records and at most \<^verbatim>\<open>MaxBytes\<close> bytes of keys and values.
\<close>

lemma consumeBatches_bounds:
  assumes "Commit rs b \<in> set (fst (consumeBatches opts handle st sc))"
  shows "rs \<noteq> [] \<and> int (length rs) \<le> bo_MaxMessages opts \<and> batch_size rs \<le> bo_MaxBytes opts"
  using assms consume_loop_bounds [of opts handle st None sc _ _ _ rs b]
  by (cases "consume_loop opts handle st None sc") (auto simp: consumeBatches_def split: if_splits)

section \<open>Progress\<close>

text \<open>Rounds of \<open>Retry\<close> that fail now and then, but are never cancelled.\<close>

definition patient :: "attempt list \<Rightarrow> bool" where
  "patient as \<longleftrightarrow> set as \<subseteq> {Succeeds, Fails}"

lemma patient_Cons [simp]: "patient (a # as) \<longleftrightarrow> (a = Succeeds \<or> a = Fails) \<and> patient as"
  by (auto simp: patient_def)

lemma Retry_patient:
  assumes "patient as" "0 < count_list as Succeeds"
  shows "\<exists>t as'. Retry action as = (t, RetryOk, as') \<and> patient as' \<and>
    count_list as Succeeds = Suc (count_list as' Succeeds)"
  using assms by (induction action as rule: Retry.induct) (auto split: if_splits)

lemma deliver_patient:
  assumes "patient as" "2 \<le> count_list as Succeeds"
  shows "\<exists>t as'. deliver outs rs as = (t, RetryOk, as') \<and> patient as' \<and>
    count_list as Succeeds \<le> count_list as' Succeeds + 2"
proof -
  obtain t as1 where e: "(case outs of None \<Rightarrow> ([], RetryOk, as) | Some os \<Rightarrow> Retry (Emit os) as) = (t, RetryOk, as1)"
    "patient as1" "count_list as Succeeds \<le> Suc (count_list as1 Succeeds)"
  proof (cases outs)
    case None
    with that [of "[]" as] assms show thesis by simp
  next
    case (Some os)
    with Retry_patient [OF assms(1), of "Emit os"] assms(2) that show thesis by fastforce
  qed
  then have "0 < count_list as1 Succeeds" using assms(2) by simp
  from Retry_patient [OF e(2) this, of "Commit rs :: bool \<Rightarrow> 'a event"] obtain u as2 where
    "Retry (Commit rs) as1 = (u :: 'a event list, RetryOk, as2)" "patient as2"
    "count_list as1 Succeeds = Suc (count_list as2 Succeeds)" by blast
  with e show ?thesis by (intro exI [of _ "t @ u"] exI [of _ as2]) (simp add: deliver_def)
qed

lemma collect_stream:
  "\<exists>rs pend ps'. collect opts records bytes (map Next xs @ [WindowOver]) = Collected rs pend None ps' \<and>
     (ps' = [] \<and> pend = None \<or> (\<exists>ys. ps' = map Next ys @ [WindowOver]))"
proof (induction xs arbitrary: records bytes)
  case (Cons x xs)
  have "\<exists>ys. Next x # map Next xs @ [WindowOver] = map Next ys @ [WindowOver]"
    by (rule exI [of _ "x # xs"]) simp
  with Cons show ?case by auto
qed auto

lemma fetched_stream [simp]: "fetched (map Next xs @ [WindowOver]) = xs"
  by (induction xs) auto

context record_handler
begin

lemma prep_prefix:
  assumes "prep s (xs @ ys) = (Inr c, s2)"
  shows "\<exists>a s1 b. prep s xs = (Inr a, s1) \<and> prep s1 ys = (Inr b, s2) \<and> c = a @ b"
  using assms by (auto simp: prep_split split: prod.splits sum.splits)

lemma consume_loop_progress:
  assumes "\<And>os. outputs_of (sel os) = os"
    and "polls sc = [] \<and> pending = None \<or> (\<exists>ys. polls sc = map Next ys @ [WindowOver])"
    and "\<forall>m \<in> set (to_come pending (polls sc)). km_size m \<le> bo_MaxBytes opts"
    and "cancels sc = []" "patient (attempts sc)"
    and "2 * length (to_come pending (polls sc)) \<le> count_list (attempts sc) Succeeds"
    and "prep st (to_come pending (polls sc)) = (Inr os, st2)"
  shows "\<exists>t r. consume_loop opts (with_outputs sel prep) st pending sc = (t, r, st2) \<and>
    committed t = to_come pending (polls sc) \<and> acked t = os"
  using assms(2-)
proof (induction "length (to_come pending (polls sc))" arbitrary: st pending sc os rule: less_induct)
  case less
  show ?case
  proof (cases "to_come pending (polls sc) = []")
    case True
    with less.prems(1) have "pending = None \<and> (polls sc = [] \<or> polls sc = [WindowOver])"
      by (auto simp: to_come_def split: option.splits)
    with less.prems(6) True show ?thesis
      by (subst consume_loop.simps) (auto simp: prep_none to_come_def)
  next
    case False
    obtain first xs where f: "first_record pending (polls sc) = Some (Inr first, map Next xs @ [WindowOver])"
    proof (cases pending)
      case (Some m)
      with less.prems(1) that show thesis by auto
    next
      case None
      with less.prems(1) False obtain ys where ys: "polls sc = map Next ys @ [WindowOver]"
        by (auto simp: to_come_def)
      with None False obtain y zs where "ys = y # zs" by (cases ys) (auto simp: to_come_def)
      with ys have "polls sc = map Next (y # zs) @ [WindowOver]" by simp
      with None that [of y zs] show thesis by simp
    qed
    obtain rs pend ps' where c: "collect opts [first] (km_size first) (map Next xs @ [WindowOver])
        = Collected rs pend None ps'"
      and rest: "ps' = [] \<and> pend = None \<or> (\<exists>ys. ps' = map Next ys @ [WindowOver])"
      using collect_stream by blast
    have whole: "to_come pending (polls sc) = rs @ to_come pend ps'" by (rule batch_records [OF f c])
    have rs: "rs \<noteq> []" "first \<in> set rs" using collect_starts [OF c] by auto
    from less.prems(6) [unfolded whole] obtain a s1 b where p: "prep st rs = (Inr a, s1)"
      "prep s1 (to_come pend ps') = (Inr b, st2)" "os = a @ b" using prep_prefix by blast
    have two: "2 \<le> count_list (attempts sc) Succeeds"
      using less.prems(5) rs(1) unfolding whole by (cases rs) auto
    obtain u as where d: "deliver (sel a) rs (attempts sc) = (u, RetryOk, as)" "patient as"
      "count_list (attempts sc) Succeeds \<le> count_list as Succeeds + 2"
      using deliver_patient [OF less.prems(4) two] by blast
    have smaller: "length (to_come pend ps') < length (to_come pending (polls sc))"
      using rs(1) unfolding whole by simp
    have "2 * length (to_come pend ps') \<le> count_list as Succeeds"
      using less.prems(5) d(3) rs(1) unfolding whole by (cases rs) auto
    with less.hyps [where pending = pend and sc = "\<lparr>polls = ps', cancels = tl (cancels sc), attempts = as\<rparr>"
        and st = s1 and os = b] smaller rest less.prems(2,3) d(2) p(2)
    obtain v r where "consume_loop opts (with_outputs sel prep) s1 pend
        \<lparr>polls = ps', cancels = tl (cancels sc), attempts = as\<rparr> = (v, r, st2)"
      "committed v = to_come pend ps'" "acked v = b" by (auto simp: whole)
    note v = this
    have "km_size first \<le> bo_MaxBytes opts" using less.prems(2) rs(2) unfolding whole by simp
    then have "consume_loop opts (with_outputs sel prep) st pending sc = (u @ v, r, st2)"
      using f c p(1) d(1) v(1) less.prems(3)
      by (subst consume_loop.simps) (simp add: with_outputs_def)
    moreover have "committed (u @ v) = to_come pending (polls sc)" "acked (u @ v) = os"
      using deliver_complete [OF d(1)] v(2,3) p(3) assms(1) whole by simp_all
    ultimately show ?thesis by blast
  qed
qed

end


section \<open>From the numberer to the relay\<close>

definition is_numbered :: "RelayMessage \<Rightarrow> bool" where
  "is_numbered m \<longleftrightarrow> 0 < env_RoomID (rm_Message m) \<and> 0 < env_MessageID (rm_Message m) \<and>
     0 < env_RoomSeq (rm_Message m)"

lemma relay_records_Inr:
  "relay_records cd clk recs = Inr ms \<Longrightarrow>
     list_all is_numbered ms \<and> map rm_Value ms = map km_Value recs"
  by (induction cd clk recs arbitrary: ms rule: relay_records.induct)
    (auto simp: is_numbered_def split: sum.splits if_splits)

text \<open>
  The relay publishes only messages that carry a room, a message id and a room number, keeps the
  order and the bytes of the numbered topic, and commits a record only after it was published.
\<close>

lemma RelayBatched_publishes_numbered:
  "\<exists>n m. n \<le> m \<and> m \<le> length (fetched (polls sc)) \<and>
     committed (take k (fst (RelayBatched cd clk opts sc))) = take n (fetched (polls sc)) \<and>
     map rm_Value (acked (take k (fst (RelayBatched cd clk opts sc)))) =
       map km_Value (take m (fetched (polls sc))) \<and>
     list_all is_numbered (acked (take k (fst (RelayBatched cd clk opts sc))))"
proof -
  obtain t r u where run: "consumeBatches opts
      (with_outputs Some (\<lambda>u records. (relay_records cd clk records, u))) () sc = (t, r, u)"
    by (metis prod_cases3)
  then have "rr.faithful cd clk () (fetched (polls sc)) t"
    by (intro rr.consumeBatches_faithful) simp_all
  then obtain n m where "n \<le> m" "m \<le> length (fetched (polls sc))"
    "committed (take k t) = take n (fetched (polls sc))"
    "relay_records cd clk (take m (fetched (polls sc))) = Inr (acked (take k t))"
    unfolding rr.faithful_def fst_conv by blast
  with relay_records_Inr [OF this(4)] run show ?thesis by (auto simp: RelayBatched_def)
qed

definition stored_types_ok :: "Sequencer \<Rightarrow> bool" where
  "stored_types_ok s \<longleftrightarrow> (\<forall>e \<in> ran (map_get (sq_requests s)). int8_range (env_Type e))"

lemma Assign_types:
  assumes "stored_types_ok s" "int8_range (env_Type m)"
  shows "stored_types_ok (snd (Assign now s m))"
  using assms
  by (cases rule: Assign_cases [of m now s]) (auto simp: stored_types_ok_def ran_def split: if_splits)

lemma accepted_numbered:
  assumes "seq_inv s" "clock_ok now" "map_len (sq_requests s) < 2 ^ 61" "Assign now s m = (Inr a, s')"
  shows "0 < env_RoomID a" "0 < env_MessageID a" "0 < env_RoomSeq a"
proof -
  have e: "entries_ok s'" using Assign_preserves_inv [OF assms(1-3), of m] assms(4) by (simp add: seq_inv_def)
  have k: "map_get (sq_requests s') (request_key m) = Some a" using assms(4) by (rule sq.accepted)
  show "0 < env_RoomID a" "0 < env_MessageID a" "0 < env_RoomSeq a"
    using entries_okD(2,3,5) [OF e k] by (simp_all add: invalid_identity_def)
qed

lemma accepted_type:
  assumes "stored_types_ok s" "int8_range (env_Type m)" "Assign now s m = (Inr a, s')"
  shows "int8_range (env_Type a)"
  using Assign_types [OF assms(1,2), of now] ranI [of "map_get (sq_requests s')", OF sq.accepted [OF assms(3)]] assms(3)
  by (simp add: stored_types_ok_def)

text \<open>What the numberer writes is what the relay accepts; offsets are the broker's.\<close>

lemma numbered_records_relay:
  assumes "pb_laws cd" "seq_inv s" "stored_types_ok s"
    and "\<forall>rec \<in> set recs. clock_ok (UnixMilli (clk (km_Offset rec)))"
    and "map_len (sq_requests s) + length recs < 2 ^ 61"
    and "number_records cd clk s recs = (Inr os, s')"
    and "map km_Value recs' = map km_Value os"
  shows "\<exists>ms. relay_records cd clk' recs' = Inr ms"
  using assms(2-)
proof (induction recs arbitrary: s os recs')
  case Nil
  then show ?case by simp
next
  case (Cons rec recs)
  let ?now = "clk (km_Offset rec)"
  obtain input where input: "Unmarshal cd ?now (km_Value rec) = Inr input"
    using Cons.prems(5) by (auto simp: Let_def split: sum.splits)
  obtain r s1 where a: "Assign (UnixMilli ?now) s input = (r, s1)" by force
  have bound: "map_len (sq_requests s) < 2 ^ 61" and now: "clock_ok (UnixMilli ?now)"
    using Cons.prems(3,4) by auto
  have s1: "seq_inv s1" "stored_types_ok s1" "map_len (sq_requests s1) \<le> Suc (map_len (sq_requests s))"
    using Assign_preserves_inv [OF Cons.prems(1) now bound, of input] Assign_len [of "UnixMilli ?now" s input]
      Assign_types [OF Cons.prems(2) Unmarshal_type_range [OF input], of "UnixMilli ?now"] a by simp_all
  have later: "\<forall>rec \<in> set recs. clock_ok (UnixMilli (clk (km_Offset rec)))"
    "map_len (sq_requests s1) + length recs < 2 ^ 61" using Cons.prems(3,4) s1(3) by auto
  show ?case
  proof (cases r)
    case (Inl e)
    then show ?thesis
      using Cons.IH [OF s1(1,2) later _ Cons.prems(6)] Cons.prems(5) input a by (simp add: Let_def)
  next
    case (Inr m)
    from Cons.prems(5) input a Inr obtain v os' where v: "Marshal cd m = Inr v"
      "number_records cd clk s1 recs = (Inr os', s')"
      "os = \<lparr>km_Offset = 0, km_Key = FormatInt (env_RoomID m), km_Value = v\<rparr> # os'"
      by (auto simp: Let_def split: sum.splits prod.splits)
    with Cons.prems(6) obtain x xs where x: "recs' = x # xs" "km_Value x = v"
      "map km_Value xs = map km_Value os'" by auto
    note num = accepted_numbered [OF Cons.prems(1) now bound a [unfolded Inr]]
    have "Unmarshal cd (clk' (km_Offset x)) v = Inr (wire_normal (clk' (km_Offset x)) m)"
      by (rule Unmarshal_Marshal [OF assms(1) v(1)
            accepted_type [OF Cons.prems(2) Unmarshal_type_range [OF input] a [unfolded Inr]]])
        (use num in simp)
    moreover obtain ms where "relay_records cd clk' xs = Inr ms"
      using Cons.IH [OF s1(1,2) later v(2) x(3)] by blast
    ultimately show ?thesis using x num by simp
  qed
qed

text \<open>
  The two services fit together. Whatever batch of records the numberer processes from its start,
  the relay accepts the topic it wrote: with rounds that are not cancelled it publishes every numbered
  message, in order and unchanged, and commits the whole topic.
\<close>

lemma numbered_topic_is_relayed:
  assumes "pb_laws cd" and "number_records cd clk New recs = (Inr os, s')"
    and "\<forall>rec \<in> set recs. clock_ok (UnixMilli (clk (km_Offset rec)))" "length recs < 2 ^ 61"
    and "map km_Value recs' = map km_Value os"
    and "1 \<le> bo_MaxMessages opts" "bo_MaxMessages opts \<le> 10000" "1 \<le> bo_MaxBytes opts" "0 < bo_MaxWait opts"
    and "\<forall>m \<in> set recs'. km_size m \<le> bo_MaxBytes opts"
    and "patient as" "2 * length recs' \<le> count_list as Succeeds"
  shows "\<exists>t r. RelayBatched cd clk' opts \<lparr>polls = map Next recs' @ [WindowOver], cancels = [], attempts = as\<rparr>
       = (t, r) \<and> committed t = recs' \<and> map rm_Value (acked t) = map km_Value os \<and>
     list_all is_numbered (acked t)"
proof -
  let ?sc = "\<lparr>polls = map Next recs' @ [WindowOver], cancels = [], attempts = as\<rparr>"
  have "seq_inv New" "stored_types_ok New" by (simp_all add: seq_inv_New stored_types_ok_def)
  moreover have "map_len (sq_requests New) + length recs < 2 ^ 61" using assms(4) by (simp add: New_def map_len_def)
  ultimately obtain ms where ms: "relay_records cd clk' recs' = Inr ms"
    using numbered_records_relay [OF assms(1) _ _ assms(3) _ assms(2,5)] by blast
  have "to_come None (polls ?sc) = recs'" by (simp add: to_come_def)
  with rr.consume_loop_progress [of Some ?sc None opts cd clk' "()" ms "()"] assms(6-) ms
  obtain t r where "consume_loop opts (with_outputs Some (\<lambda>u records. (relay_records cd clk' records, u)))
      () None ?sc = (t, r, ())" "committed t = recs'" "acked t = ms" by auto
  with assms(5-9) relay_records_Inr [OF ms] show ?thesis
    by (auto simp: RelayBatched_def consumeBatches_def)
qed

section \<open>Witnesses\<close>

text \<open>
  A codec for the four messages of a small run: two requests in room 7 (payloads a and b), and what
  the numberer makes of them (c and d).
\<close>

definition run_codec :: codec where
  "run_codec = table_codec
     [(to_chat_message (sample_msg 7 1 ''a'' ''hi''), ''a''),
      (to_chat_message (sample_msg 7 2 ''a'' ''yo''), ''b''),
      (to_chat_message ((sample_msg 7 1 ''a'' ''hi'')\<lparr>env_MessageID := 4096, env_RoomSeq := 1\<rparr>), ''c''),
      (to_chat_message ((sample_msg 7 2 ''a'' ''yo'')\<lparr>env_MessageID := 4097, env_RoomSeq := 2\<rparr>), ''d'')]"

definition run_clock :: "int \<Rightarrow> time" where
  "run_clock off = 1750000000001 * 1000000"

definition run_input :: "kafka_msg list" where
  "run_input = [\<lparr>km_Offset = 0, km_Key = ''7'', km_Value = ''a''\<rparr>, \<lparr>km_Offset = 1, km_Key = ''7'', km_Value = ''b''\<rparr>]"

definition run_output :: "kafka_msg list" where
  "run_output = [\<lparr>km_Offset = 0, km_Key = ''7'', km_Value = ''c''\<rparr>, \<lparr>km_Offset = 0, km_Key = ''7'', km_Value = ''d''\<rparr>]"

definition run_options :: BatchOptions where
  "run_options = \<lparr>bo_MaxMessages = 2, bo_MaxBytes = 3, bo_MaxWait = 1\<rparr>"

definition run_script :: script where
  "run_script = \<lparr>polls = map Next run_input @ [WindowOver], cancels = [],
     attempts = [Fails, Succeeds, Succeeds, Succeeds, Fails, Succeeds]\<rparr>"

lemma run_codec_laws: "pb_laws run_codec"
  unfolding run_codec_def by (rule table_codec_laws) simp_all

lemma run_numbering: "fst (number_records run_codec run_clock New run_input) = Inr run_output"
  by code_simp

theorem RunBatched_agrees_with_Run_witness:
  "\<exists>xs. acked (fst (RunBatched run_codec run_clock run_options New run_script))
       = acked (fst (Run run_codec run_clock New (map Next run_input) [Succeeds, Succeeds, Fails])) @ xs
     \<or> acked (fst (Run run_codec run_clock New (map Next run_input) [Succeeds, Succeeds, Fails]))
       = acked (fst (RunBatched run_codec run_clock run_options New run_script)) @ xs"
  by (rule RunBatched_agrees_with_Run) (simp add: run_script_def run_input_def)

lemma run_trace:
  "fst (RunBatched run_codec run_clock run_options New run_script) =
     [Emit [hd run_output] False, Emit [hd run_output] True, Commit [hd run_input] True,
      Emit [run_output ! 1] True, Commit [run_input ! 1] False, Commit [run_input ! 1] True]"
  by code_simp

lemma consumeBatches_bounds_example:
  "[hd run_input] \<noteq> [] \<and> int (length [hd run_input]) \<le> bo_MaxMessages run_options
     \<and> batch_size [hd run_input] \<le> bo_MaxBytes run_options"
proof (rule consumeBatches_bounds)
  show "Commit [hd run_input] True \<in> set (fst (consumeBatches run_options
      (with_outputs if_any (number_records run_codec run_clock)) New run_script))"
    using run_trace by (simp add: RunBatched_def)
qed


lemma numbered_topic_is_relayed_example:
  "\<exists>t r. RelayBatched run_codec run_clock run_options
       \<lparr>polls = map Next run_output @ [WindowOver], cancels = [], attempts = [Succeeds, Succeeds, Succeeds, Succeeds]\<rparr> = (t, r) \<and>
     committed t = run_output \<and> map rm_Value (acked t) = map km_Value run_output \<and>
     list_all is_numbered (acked t)"
proof -
  obtain s' where n: "number_records run_codec run_clock New run_input = (Inr run_output, s')"
    using run_numbering by (metis prod.collapse)
  show ?thesis
    by (rule numbered_topic_is_relayed [OF run_codec_laws n])
      (simp_all add: run_options_def run_input_def run_output_def km_size_def patient_def
        clock_ok_def run_clock_def UnixMilli_def wrap64_def)
qed

end
