(* ===== verification/GoChan.thy ===== *)
theory GoChan
  imports Prelude
begin

text \<open>
  Buffered Go channels as values: the buffer, the capacity, whether \<^verbatim>\<open>close\<close> was called, and whether
  an operation panicked (a send to or a close of a closed channel kills the process; the flag stays
  set, so a property can state that it never happens). The operations are the ones of the sources:
  the send of a \<^verbatim>\<open>select\<close> with a \<^verbatim>\<open>default\<close> branch, \<^verbatim>\<open>close\<close>, and the receive. Their laws are the
  locale \<open>channel\<close>.
\<close>

record 'a chan =
  ch_buf :: "'a list"
  ch_cap :: nat
  ch_closed :: bool
  ch_crashed :: bool

definition make_chan :: "nat \<Rightarrow> 'a chan" where
  "make_chan n = \<lparr>ch_buf = [], ch_cap = n, ch_closed = False, ch_crashed = False\<rparr>"

definition chan_try_send :: "'a \<Rightarrow> 'a chan \<Rightarrow> bool \<times> 'a chan" where
  "chan_try_send x ch =
     (if ch_closed ch then (False, ch\<lparr>ch_crashed := True\<rparr>)
      else if length (ch_buf ch) < ch_cap ch then (True, ch\<lparr>ch_buf := ch_buf ch @ [x]\<rparr>)
      else (False, ch))"

definition chan_close :: "'a chan \<Rightarrow> 'a chan" where
  "chan_close ch = (if ch_closed ch then ch\<lparr>ch_crashed := True\<rparr> else ch\<lparr>ch_closed := True\<rparr>)"

text \<open>A receive yields a value, the zero value of a closed and drained channel, or blocks.\<close>

datatype 'a received = Got 'a | Drained | Blocks

definition chan_recv :: "'a chan \<Rightarrow> 'a received \<times> 'a chan" where
  "chan_recv ch =
     (case ch_buf ch of
        x # xs \<Rightarrow> (Got x, ch\<lparr>ch_buf := xs\<rparr>)
      | [] \<Rightarrow> (if ch_closed ch then Drained else Blocks, ch))"

definition chan_ok :: "'a chan \<Rightarrow> bool" where
  "chan_ok ch \<longleftrightarrow> \<not> ch_crashed ch \<and> length (ch_buf ch) \<le> ch_cap ch"

text \<open>
  The contract of a bounded queue with a non-blocking send: order is kept, nothing is lost or made
  up, a failed send changes nothing, the bound holds.
\<close>

locale channel =
  fixes content :: "'c \<Rightarrow> 'a list"
    and sound :: "'c \<Rightarrow> bool"
    and closed :: "'c \<Rightarrow> bool"
    and send :: "'a \<Rightarrow> 'c \<Rightarrow> bool \<times> 'c"
    and shut :: "'c \<Rightarrow> 'c"
    and recv :: "'c \<Rightarrow> 'a received \<times> 'c"
  assumes send_law: "\<not> closed ch \<Longrightarrow> send x ch = (b, ch') \<Longrightarrow>
      content ch' = content ch @ (if b then [x] else []) \<and> closed ch' = closed ch \<and>
      (sound ch \<longrightarrow> sound ch')"
    and shut_law: "\<not> closed ch \<Longrightarrow> content (shut ch) = content ch \<and> closed (shut ch) \<and>
      (sound ch \<longrightarrow> sound (shut ch))"
    and recv_law: "recv ch = (Got x, ch') \<Longrightarrow>
      content ch = x # content ch' \<and> closed ch' = closed ch \<and> (sound ch \<longrightarrow> sound ch')"
begin

text \<open>Sending a list of values, ignoring which of them fit.\<close>

fun send_list :: "'a list \<Rightarrow> 'c \<Rightarrow> bool list \<times> 'c" where
  "send_list [] ch = ([], ch)"
| "send_list (x # xs) ch =
     (case send x ch of (b, ch') \<Rightarrow> (case send_list xs ch' of (bs, ch'') \<Rightarrow> (b # bs, ch'')))"

lemma send_list_law:
  assumes "\<not> closed ch" "send_list xs ch = (bs, ch')"
  shows "content ch' = content ch @ map fst (filter snd (zip xs bs)) \<and> length bs = length xs \<and>
    (sound ch \<longrightarrow> sound ch')"
  using assms
proof (induction xs arbitrary: ch bs ch')
  case Nil
  then show ?case by simp
next
  case (Cons x xs)
  obtain b ch1 where s: "send x ch = (b, ch1)" by force
  obtain cs where rest: "send_list xs ch1 = (cs, ch')" "bs = b # cs"
    using Cons.prems(2) s by (auto split: prod.splits)
  from send_law [OF Cons.prems(1) s] Cons.IH [OF _ rest(1)] Cons.prems(1) rest(2)
  show ?case by auto
qed

end

interpretation gc: channel ch_buf chan_ok ch_closed chan_try_send chan_close chan_recv
  by unfold_locales
    (auto simp: chan_try_send_def chan_close_def chan_recv_def chan_ok_def
      split: if_splits list.splits)

lemma make_chan_simps [simp]:
  "ch_buf (make_chan n) = []" "ch_cap (make_chan n) = n" "\<not> ch_closed (make_chan n)"
  "\<not> ch_crashed (make_chan n)" "chan_ok (make_chan n)"
  by (simp_all add: make_chan_def chan_ok_def)

lemma chan_try_send_open:
  assumes "\<not> ch_closed ch"
  shows "chan_try_send x ch =
    (length (ch_buf ch) < ch_cap ch,
     if length (ch_buf ch) < ch_cap ch then ch\<lparr>ch_buf := ch_buf ch @ [x]\<rparr> else ch)"
  using assms by (simp add: chan_try_send_def)

end
