(* ===== verification/Hub.thy ===== *)
theory Hub
  imports GoChan Models
begin

text \<open>
  The connection hub of the gateway, \<^verbatim>\<open>services/gateway/websocket/hub.go\<close> with the client state of
  \<^verbatim>\<open>client.go\<close>: who is online, which connection listens to which room, over shards chosen by user
  and by room.

  Pointers to clients are addresses (\<open>nat\<close>) into \<open>hub_clients\<close>; an address that is not there plays
  the nil pointer. An operation is one function; its body runs under the client's mutex, so the
  functions are the atomic steps of a run (the two operations that are not one critical section,
  \<open>JoinRoom\<close> with its lookup and \<open>DisbandRoom\<close>, are split into their sections in \<^verbatim>\<open>HubRaces\<close>).
  The metrics are left out.
\<close>

section \<open>Clients\<close>

record OutboundMessage =
  om_Payload :: string
  om_GatewayArrivedAt :: time

text \<open>\<open>cl_Conn\<close> is nil or tells whether the connection is open; \<open>cl_roomIDs\<close> may be the nil map.\<close>

record Client =
  cl_UserID :: int
  cl_Conn :: "bool option"
  cl_Send :: "OutboundMessage chan option"
  cl_username :: string
  cl_ConnID :: string
  cl_RemoteIP :: string
  cl_UserAgent :: string
  cl_ClientVersion :: string
  cl_ConnectedAt :: time
  cl_active :: bool
  cl_roomIDs :: "(int, unit) gomap option"
  cl_sendClosed :: bool
  cl_lastReadAt :: int
  cl_lastWriteAt :: int

definition SetLastRead :: "time \<Rightarrow> Client \<Rightarrow> Client" where
  "SetLastRead t c = c\<lparr>cl_lastReadAt := UnixMilli t\<rparr>"

definition SetLastWrite :: "time \<Rightarrow> Client \<Rightarrow> Client" where
  "SetLastWrite t c = c\<lparr>cl_lastWriteAt := UnixMilli t\<rparr>"

definition LastReadAt :: "Client \<Rightarrow> time" where
  "LastReadAt c = (if cl_lastReadAt c > 0 then cl_lastReadAt c * 1000000 else cl_ConnectedAt c)"

definition LastWriteAt :: "Client \<Rightarrow> time" where
  "LastWriteAt c = (if cl_lastWriteAt c > 0 then cl_lastWriteAt c * 1000000 else cl_ConnectedAt c)"

definition SetUsername :: "string \<Rightarrow> Client \<Rightarrow> Client" where
  "SetUsername name c = c\<lparr>cl_username := name\<rparr>"

definition activate :: "Client \<Rightarrow> Client" where
  "activate c = c\<lparr>cl_active := True,
     cl_roomIDs := (case cl_roomIDs c of None \<Rightarrow> Some [] | Some m \<Rightarrow> Some m)\<rparr>"

definition RoomIDs :: "Client \<Rightarrow> int list" where
  "RoomIDs c = (case cl_roomIDs c of None \<Rightarrow> [] | Some m \<Rightarrow> map_keys m)"

definition in_room :: "Client \<Rightarrow> int \<Rightarrow> bool" where
  "in_room c r = (case cl_roomIDs c of None \<Rightarrow> False | Some m \<Rightarrow> map_get m r \<noteq> None)"

definition closeSend :: "Client \<Rightarrow> Client" where
  "closeSend c =
     (case cl_Send c of
        None \<Rightarrow> c
      | Some ch \<Rightarrow> if cl_sendClosed c then c
                  else c\<lparr>cl_sendClosed := True, cl_Send := Some (chan_close ch)\<rparr>)"

text \<open>A send to the nil channel never proceeds, so the \<^verbatim>\<open>default\<close> branch is taken.\<close>

definition TrySend :: "string \<Rightarrow> time \<Rightarrow> Client \<Rightarrow> bool \<times> Client" where
  "TrySend payload at c =
     (if cl_sendClosed c then (False, c)
      else case cl_Send c of
        None \<Rightarrow> (False, c)
      | Some ch \<Rightarrow>
          (case chan_try_send \<lparr>om_Payload = payload, om_GatewayArrivedAt = at\<rparr> ch of
             (b, ch') \<Rightarrow> (b, c\<lparr>cl_Send := Some ch'\<rparr>)))"

section \<open>Shards\<close>

record hubShard =
  sh_users :: "(int, nat) gomap"
  sh_rooms :: "(int, (nat, bool) gomap) gomap"
  sh_forward :: "Message chan"
  sh_killClient :: "nat chan"

record Hub =
  hub_shards :: "hubShard list"
  hub_fanoutThreshold :: int
  hub_fanoutBatchSize :: int
  hub_clients :: "(nat, Client) gomap"

text \<open>\<^verbatim>\<open>positiveEnvInt\<close>: the environment variable as its text, empty when it is not set.\<close>

definition positiveEnvInt :: "string \<Rightarrow> int \<Rightarrow> int" where
  "positiveEnvInt raw fallback =
     (if raw \<noteq> [] then (case ParseInt raw of (parsed, None) \<Rightarrow> if parsed > 0 then parsed else fallback
                       | (_, Some _) \<Rightarrow> fallback)
      else fallback)"

definition new_shard :: hubShard where
  "new_shard = \<lparr>sh_users = [], sh_rooms = [], sh_forward = make_chan 1024, sh_killClient = make_chan 64\<rparr>"

definition NewHubWithShards :: "int \<Rightarrow> string \<Rightarrow> string \<Rightarrow> Hub" where
  "NewHubWithShards shardCount threshold batchSize =
     (let n = (if shardCount \<le> 0 then 64 else shardCount)
      in \<lparr>hub_shards = replicate (nat n) new_shard,
          hub_fanoutThreshold = positiveEnvInt threshold 100,
          hub_fanoutBatchSize = positiveEnvInt batchSize 200,
          hub_clients = []\<rparr>)"

definition NewHub :: "string \<Rightarrow> string \<Rightarrow> string \<Rightarrow> Hub" where
  "NewHub shardCount threshold batchSize =
     NewHubWithShards (positiveEnvInt shardCount 64) threshold batchSize"

definition shard_index :: "nat \<Rightarrow> int \<Rightarrow> nat" where
  "shard_index n k = nat (to_uint64 k mod int n)"

definition shardFor :: "int \<Rightarrow> Hub \<Rightarrow> hubShard" where
  "shardFor k h = hub_shards h ! shard_index (length (hub_shards h)) k"

definition upd_shard :: "int \<Rightarrow> (hubShard \<Rightarrow> hubShard) \<Rightarrow> Hub \<Rightarrow> Hub" where
  "upd_shard k f h =
     (let i = shard_index (length (hub_shards h)) k
      in h\<lparr>hub_shards := (hub_shards h)[i := f (hub_shards h ! i)]\<rparr>)"

definition get_client :: "nat \<Rightarrow> Hub \<Rightarrow> Client option" where
  "get_client c h = map_get (hub_clients h) c"

definition set_client :: "nat \<Rightarrow> Client \<Rightarrow> Hub \<Rightarrow> Hub" where
  "set_client c cl h = h\<lparr>hub_clients := map_put c cl (hub_clients h)\<rparr>"

definition clientByUser :: "int \<Rightarrow> Hub \<Rightarrow> nat option" where
  "clientByUser u h = map_get (sh_users (shardFor u h)) u"

definition put_user :: "int \<Rightarrow> nat \<Rightarrow> Hub \<Rightarrow> Hub" where
  "put_user u c = upd_shard u (\<lambda>s. s\<lparr>sh_users := map_put u c (sh_users s)\<rparr>)"

definition del_user :: "int \<Rightarrow> Hub \<Rightarrow> Hub" where
  "del_user u = upd_shard u (\<lambda>s. s\<lparr>sh_users := map_del u (sh_users s)\<rparr>)"

definition addClientToRoom :: "nat \<Rightarrow> int \<Rightarrow> Hub \<Rightarrow> Hub" where
  "addClientToRoom c r =
     upd_shard r (\<lambda>s.
       (let clients = (case map_get (sh_rooms s) r of None \<Rightarrow> [] | Some m \<Rightarrow> m)
        in s\<lparr>sh_rooms := map_put r (map_put c True clients) (sh_rooms s)\<rparr>))"

definition removeClientFromRoom :: "nat \<Rightarrow> int \<Rightarrow> Hub \<Rightarrow> Hub" where
  "removeClientFromRoom c r =
     upd_shard r (\<lambda>s.
       (case map_get (sh_rooms s) r of
          None \<Rightarrow> s
        | Some clients \<Rightarrow>
            (let clients' = map_del c clients
             in if map_len clients' = 0 then s\<lparr>sh_rooms := map_del r (sh_rooms s)\<rparr>
                else s\<lparr>sh_rooms := map_put r clients' (sh_rooms s)\<rparr>)))"

definition room_clients :: "int \<Rightarrow> Hub \<Rightarrow> nat list" where
  "room_clients r h =
     (case map_get (sh_rooms (shardFor r h)) r of None \<Rightarrow> [] | Some m \<Rightarrow> map_keys m)"

section \<open>Operations\<close>

definition room_set :: "int list \<Rightarrow> (int, unit) gomap" where
  "room_set rs = fold (\<lambda>r. map_put r ()) rs []"

definition Register :: "nat \<Rightarrow> int list \<Rightarrow> Hub \<Rightarrow> Hub" where
  "Register c roomIDs h =
     (case get_client c h of
        None \<Rightarrow> h
      | Some cl \<Rightarrow>
          fold (addClientToRoom c) roomIDs
            (put_user (cl_UserID cl) c
              (set_client c (cl\<lparr>cl_active := True, cl_roomIDs := Some (room_set roomIDs)\<rparr>) h)))"

definition Unregister :: "nat \<Rightarrow> Hub \<Rightarrow> Hub" where
  "Unregister c h =
     (case get_client c h of
        None \<Rightarrow> h
      | Some cl \<Rightarrow>
          if \<not> cl_active cl then h
          else
            (let u = cl_UserID cl;
                 h1 = (if clientByUser u h = Some c then del_user u h else h);
                 h2 = fold (removeClientFromRoom c) (RoomIDs cl) h1
             in set_client c (closeSend (cl\<lparr>cl_active := False, cl_roomIDs := None\<rparr>)) h2))"

definition UpdateRooms :: "nat \<Rightarrow> int list \<Rightarrow> Hub \<Rightarrow> Hub" where
  "UpdateRooms c roomIDs h =
     (case get_client c h of
        None \<Rightarrow> h
      | Some cl \<Rightarrow>
          if \<not> cl_active cl then h
          else
            (let newRooms = room_set roomIDs;
                 h1 = fold (removeClientFromRoom c) (filter (\<lambda>r. map_get newRooms r = None) (RoomIDs cl)) h;
                 h2 = fold (addClientToRoom c) (filter (\<lambda>r. \<not> in_room cl r) (map_keys newRooms)) h1
             in set_client c (cl\<lparr>cl_roomIDs := Some newRooms\<rparr>) h2))"

text \<open>The critical sections of \<open>JoinRoom\<close> and \<open>LeaveRoom\<close>, once the client was looked up.\<close>

definition join_client :: "nat \<Rightarrow> int \<Rightarrow> Hub \<Rightarrow> Hub" where
  "join_client c roomID h =
     (case get_client c h of
        None \<Rightarrow> h
      | Some cl \<Rightarrow>
          if \<not> cl_active cl then h
          else if in_room cl roomID then h
          else
            (let rooms = (case cl_roomIDs cl of None \<Rightarrow> [] | Some m \<Rightarrow> m)
             in addClientToRoom c roomID
                  (set_client c (cl\<lparr>cl_roomIDs := Some (map_put roomID () rooms)\<rparr>) h)))"

definition drop_room :: "int \<Rightarrow> Client \<Rightarrow> Client" where
  "drop_room r cl = cl\<lparr>cl_roomIDs := map_option (map_del r) (cl_roomIDs cl)\<rparr>"

definition leave_client :: "nat \<Rightarrow> int \<Rightarrow> Hub \<Rightarrow> Hub" where
  "leave_client c roomID h =
     (case get_client c h of
        None \<Rightarrow> h
      | Some cl \<Rightarrow>
          if \<not> cl_active cl then h
          else if \<not> in_room cl roomID then h
          else removeClientFromRoom c roomID (set_client c (drop_room roomID cl) h))"

definition JoinRoom :: "int \<Rightarrow> int \<Rightarrow> Hub \<Rightarrow> Hub" where
  "JoinRoom userID roomID h =
     (case clientByUser userID h of None \<Rightarrow> h | Some c \<Rightarrow> join_client c roomID h)"

definition LeaveRoom :: "int \<Rightarrow> int \<Rightarrow> Hub \<Rightarrow> Hub" where
  "LeaveRoom userID roomID h =
     (case clientByUser userID h of None \<Rightarrow> h | Some c \<Rightarrow> leave_client c roomID h)"

text \<open>\<open>DisbandRoom\<close>: the section on the room's shard, then one section per client it found.\<close>

definition disband_shard :: "int \<Rightarrow> Hub \<Rightarrow> nat list \<times> Hub" where
  "disband_shard roomID h =
     (room_clients roomID h, upd_shard roomID (\<lambda>s. s\<lparr>sh_rooms := map_del roomID (sh_rooms s)\<rparr>) h)"

definition disband_client :: "int \<Rightarrow> nat \<Rightarrow> Hub \<Rightarrow> Hub" where
  "disband_client roomID c h =
     (case get_client c h of None \<Rightarrow> h | Some cl \<Rightarrow> set_client c (drop_room roomID cl) h)"

definition DisbandRoom :: "int \<Rightarrow> Hub \<Rightarrow> Hub" where
  "DisbandRoom roomID h =
     (case disband_shard roomID h of (clients, h') \<Rightarrow> fold (disband_client roomID) clients h')"

definition close_conn :: "nat \<Rightarrow> Hub \<Rightarrow> Hub" where
  "close_conn c h =
     (case get_client c h of
        None \<Rightarrow> h
      | Some cl \<Rightarrow> (case cl_Conn cl of None \<Rightarrow> h | Some _ \<Rightarrow> set_client c (cl\<lparr>cl_Conn := Some False\<rparr>) h))"

definition Kick :: "int \<Rightarrow> Hub \<Rightarrow> Hub" where
  "Kick userID h = (case clientByUser userID h of None \<Rightarrow> h | Some c \<Rightarrow> close_conn c h)"

text \<open>The scan of \<open>CloseConnection\<close>: the first connection with the id in each shard, until one has a socket.\<close>

definition find_conn :: "string \<Rightarrow> Hub \<Rightarrow> hubShard \<Rightarrow> nat option" where
  "find_conn connID h s =
     find (\<lambda>c. case get_client c h of None \<Rightarrow> False | Some cl \<Rightarrow> cl_ConnID cl = connID) (map snd (sh_users s))"

fun close_first :: "string \<Rightarrow> Hub \<Rightarrow> hubShard list \<Rightarrow> Hub" where
  "close_first connID h [] = h"
| "close_first connID h (s # ss) =
     (case find_conn connID h s of
        None \<Rightarrow> close_first connID h ss
      | Some c \<Rightarrow>
          (case get_client c h of
             Some cl \<Rightarrow> if cl_Conn cl \<noteq> None then close_conn c h else close_first connID h ss
           | None \<Rightarrow> close_first connID h ss))"

definition CloseConnection :: "string \<Rightarrow> Hub \<Rightarrow> Hub" where
  "CloseConnection connID h = close_first connID h (hub_shards h)"

record HubStats =
  st_ClientCount :: nat
  st_RoomCount :: nat

definition Stats :: "Hub \<Rightarrow> HubStats" where
  "Stats h = \<lparr>st_ClientCount = sum_list (map (\<lambda>s. map_len (sh_users s)) (hub_shards h)),
              st_RoomCount = sum_list (map (\<lambda>s. map_len (sh_rooms s)) (hub_shards h))\<rparr>"

record ConnectionSnapshot =
  cs_UserID :: int
  cs_Username :: string
  cs_ConnectionID :: string
  cs_RemoteIP :: string
  cs_UserAgent :: string
  cs_ClientVersion :: string
  cs_ConnectedAt :: time
  cs_LastReadAt :: time
  cs_LastWriteAt :: time
  cs_SendQueueLen :: nat
  cs_RoomIDs :: "int list"

definition snapshot :: "Client \<Rightarrow> ConnectionSnapshot" where
  "snapshot c =
     \<lparr>cs_UserID = cl_UserID c, cs_Username = cl_username c, cs_ConnectionID = cl_ConnID c,
      cs_RemoteIP = cl_RemoteIP c, cs_UserAgent = cl_UserAgent c, cs_ClientVersion = cl_ClientVersion c,
      cs_ConnectedAt = cl_ConnectedAt c, cs_LastReadAt = LastReadAt c, cs_LastWriteAt = LastWriteAt c,
      cs_SendQueueLen = (case cl_Send c of None \<Rightarrow> 0 | Some ch \<Rightarrow> length (ch_buf ch)),
      cs_RoomIDs = RoomIDs c\<rparr>"

definition Connections :: "Hub \<Rightarrow> ConnectionSnapshot list" where
  "Connections h =
     (let clients = concat (map (\<lambda>s. map snd (sh_users s)) (hub_shards h))
      in map snapshot (List.map_filter (\<lambda>c. get_client c h) clients))"

definition Publish :: "Message \<Rightarrow> Hub \<Rightarrow> Hub" where
  "Publish msg =
     upd_shard (msg_RoomID msg) (\<lambda>s. s\<lparr>sh_forward := snd (chan_try_send msg (sh_forward s))\<rparr>)"

end
