(* ===== verification/HubSpec.thy ===== *)
theory HubSpec
  imports Hub
begin

text \<open>
  What the hub promises. \<open>flat\<close> is its abstract state: one map from users to connections, one map
  from rooms to sets of connections, and the clients; \<open>flat_op\<close> gives each operation on it. The
  sharded hub refines it (\<open>hub_refines_flat\<close>), so the number of shards cannot be observed. The
  invariant \<open>consistent\<close> ties the room index to the subscriptions that the clients hold.

  The laws of the room index are the locale \<open>room_index\<close>, interpreted on the shards.
\<close>

section \<open>Shape of the shards\<close>

definition shard_ok :: "nat \<Rightarrow> nat \<Rightarrow> hubShard \<Rightarrow> bool" where
  "shard_ok n i s \<longleftrightarrow> map_wf (sh_users s) \<and> map_wf (sh_rooms s) \<and>
     (\<forall>u. map_get (sh_users s) u \<noteq> None \<longrightarrow> shard_index n u = i) \<and>
     (\<forall>r m. map_get (sh_rooms s) r = Some m \<longrightarrow> shard_index n r = i \<and> map_wf m \<and> m \<noteq> [])"

definition hub_shape :: "Hub \<Rightarrow> bool" where
  "hub_shape h \<longleftrightarrow> hub_shards h \<noteq> [] \<and>
     (\<forall>i < length (hub_shards h). shard_ok (length (hub_shards h)) i (hub_shards h ! i))"

lemma shard_index_less [simp]: "0 < n \<Longrightarrow> shard_index n k < n"
  by (simp add: shard_index_def nat_less_iff)

lemma hub_shapeD:
  "hub_shape h \<Longrightarrow> shard_index (length (hub_shards h)) k < length (hub_shards h)"
  by (simp add: hub_shape_def)

lemma shard_ok_at:
  "hub_shape h \<Longrightarrow> shard_ok (length (hub_shards h)) (shard_index (length (hub_shards h)) k) (shardFor k h)"
  by (simp add: hub_shape_def shardFor_def)

lemma upd_shard_shape:
  assumes "hub_shape h"
    and "\<And>s. shard_ok (length (hub_shards h)) (shard_index (length (hub_shards h)) k) s \<Longrightarrow>
      shard_ok (length (hub_shards h)) (shard_index (length (hub_shards h)) k) (f s)"
  shows "hub_shape (upd_shard k f h)"
  using assms by (auto simp: hub_shape_def upd_shard_def Let_def nth_list_update)

lemma upd_shard_frame [simp]:
  "length (hub_shards (upd_shard k f h)) = length (hub_shards h)"
  "hub_clients (upd_shard k f h) = hub_clients h"
  "get_client c (upd_shard k f h) = get_client c h"
  "hub_fanoutThreshold (upd_shard k f h) = hub_fanoutThreshold h"
  "hub_fanoutBatchSize (upd_shard k f h) = hub_fanoutBatchSize h"
  by (simp_all add: upd_shard_def Let_def get_client_def)

lemma shardFor_upd:
  assumes "hub_shape h"
  shows "shardFor k' (upd_shard k f h) =
    (if shard_index (length (hub_shards h)) k' = shard_index (length (hub_shards h)) k
     then f (shardFor k' h) else shardFor k' h)"
  using hub_shapeD [OF assms, of k]
  by (simp add: shardFor_def upd_shard_def Let_def)

section \<open>Reading the hub\<close>

definition members :: "Hub \<Rightarrow> int \<Rightarrow> nat set" where
  "members h r = set (room_clients r h)"

definition users :: "Hub \<Rightarrow> int \<Rightarrow> nat option" where
  "users h u = clientByUser u h"

lemma members_alt:
  "members h r = (case map_get (sh_rooms (shardFor r h)) r of None \<Rightarrow> {} | Some m \<Rightarrow> dom (map_get m))"
  by (auto simp: members_def room_clients_def gm.keys_law(1) split: option.splits)

lemma set_client_frame [simp]:
  "hub_shape (set_client c cl h) = hub_shape h" "members (set_client c cl h) = members h"
  "users (set_client c cl h) = users h" "clientByUser u (set_client c cl h) = clientByUser u h"
  "get_client c' (set_client c cl h) = (if c' = c then Some cl else get_client c' h)"
  by (simp_all add: set_client_def hub_shape_def fun_eq_iff members_def room_clients_def users_def
      clientByUser_def shardFor_def get_client_def)

lemma put_user_law:
  assumes "hub_shape h"
  shows "users (put_user u c h) = (users h)(u \<mapsto> c)" "members (put_user u c h) = members h"
    "hub_shape (put_user u c h)" "get_client c' (put_user u c h) = get_client c' h"
  using assms
  by (auto simp: users_def clientByUser_def put_user_def fun_eq_iff shardFor_upd members_alt
      intro!: upd_shard_shape) (auto simp: shard_ok_def split: if_splits)

lemma del_user_law:
  assumes "hub_shape h"
  shows "users (del_user u h) = (users h)(u := None)" "members (del_user u h) = members h"
    "hub_shape (del_user u h)" "get_client c' (del_user u h) = get_client c' h"
  using assms
  by (auto simp: users_def clientByUser_def del_user_def fun_eq_iff shardFor_upd members_alt
      intro!: upd_shard_shape) (auto simp: shard_ok_def split: if_splits)

lemma map_put_not_Nil [simp]: "map_put k v m \<noteq> []"
  by (cases m) (auto simp: map_put_def)

lemma addClientToRoom_law:
  assumes "hub_shape h"
  shows "members (addClientToRoom c r h) = (members h)(r := insert c (members h r))"
    "users (addClientToRoom c r h) = users h" "hub_shape (addClientToRoom c r h)"
    "get_client c' (addClientToRoom c r h) = get_client c' h"
proof -
  show "members (addClientToRoom c r h) = (members h)(r := insert c (members h r))"
    "users (addClientToRoom c r h) = users h"
    using assms
    by (auto simp: members_alt users_def clientByUser_def addClientToRoom_def Let_def fun_eq_iff
        shardFor_upd split: option.splits)
  show "hub_shape (addClientToRoom c r h)" unfolding addClientToRoom_def
    by (rule upd_shard_shape [OF assms]) (auto simp: shard_ok_def Let_def split: option.splits if_splits)
  show "get_client c' (addClientToRoom c r h) = get_client c' h" by (simp add: addClientToRoom_def)
qed

lemma dom_map_get_Nil: "dom (map_get m) = {} \<longleftrightarrow> m = []"
  using gm.len_zero_iff [of m] by (auto simp: map_len_def)

lemma members_upd_shard:
  assumes "hub_shape h"
    and "\<And>s r'. r' \<noteq> r \<Longrightarrow> map_get (sh_rooms (f s)) r' = map_get (sh_rooms s) r'"
  shows "members (upd_shard r f h) = (members h)(r :=
    (case map_get (sh_rooms (f (shardFor r h))) r of None \<Rightarrow> {} | Some m \<Rightarrow> dom (map_get m)))"
proof
  fix r'
  show "members (upd_shard r f h) r' = ((members h)(r :=
    (case map_get (sh_rooms (f (shardFor r h))) r of None \<Rightarrow> {} | Some m \<Rightarrow> dom (map_get m)))) r'"
    using assms by (cases "r' = r") (simp_all add: members_alt shardFor_upd)
qed

lemma users_upd_shard:
  assumes "hub_shape h" "\<And>s. sh_users (f s) = sh_users s"
  shows "users (upd_shard r f h) = users h"
  using assms by (simp add: fun_eq_iff users_def clientByUser_def shardFor_upd)

lemma shard_ok_room:
  assumes "shard_ok n i s"
  shows "shard_ok n i (s\<lparr>sh_rooms := map_del r (sh_rooms s)\<rparr>)"
    and "shard_index n r = i \<Longrightarrow> map_wf m \<Longrightarrow> m \<noteq> [] \<Longrightarrow>
      shard_ok n i (s\<lparr>sh_rooms := map_put r m (sh_rooms s)\<rparr>)"
  using assms by (simp_all add: shard_ok_def)

lemma shard_ok_remove:
  assumes "shard_ok n i s"
  shows "shard_ok n i (case map_get (sh_rooms s) r of
      None \<Rightarrow> s
    | Some clients \<Rightarrow>
        (let clients' = map_del c clients
         in if map_len clients' = 0 then s\<lparr>sh_rooms := map_del r (sh_rooms s)\<rparr>
            else s\<lparr>sh_rooms := map_put r clients' (sh_rooms s)\<rparr>))"
proof (cases "map_get (sh_rooms s) r")
  case (Some m)
  with assms have "shard_index n r = i" "map_wf m" by (simp_all add: shard_ok_def)
  with Some shard_ok_room [OF assms] show ?thesis by (simp add: Let_def map_len_def)
qed (simp add: assms)

lemma removeClientFromRoom_law:
  assumes "hub_shape h"
  shows "members (removeClientFromRoom c r h) = (members h)(r := members h r - {c})"
    "users (removeClientFromRoom c r h) = users h" "hub_shape (removeClientFromRoom c r h)"
    "get_client c' (removeClientFromRoom c r h) = get_client c' h"
proof -
  have del: "dom (map_get (map_del c m)) = dom (map_get m) - {c}" for m :: "(nat, bool) gomap" by simp
  have gone: "dom (map_get m) - {c} = {}" if "map_del c m = []" for m :: "(nat, bool) gomap"
    using that del [of m] by simp
  show "members (removeClientFromRoom c r h) = (members h)(r := members h r - {c})"
    unfolding removeClientFromRoom_def
    by (subst members_upd_shard [OF assms])
      (auto simp: members_alt Let_def map_len_def del gone simp del: gm.del_law(1) dom_fun_upd
        split: option.splits if_splits, simp_all)
  show "users (removeClientFromRoom c r h) = users h"
    unfolding removeClientFromRoom_def
    by (rule users_upd_shard [OF assms]) (simp add: Let_def split: option.splits)
  show "hub_shape (removeClientFromRoom c r h)" unfolding removeClientFromRoom_def
    by (rule upd_shard_shape [OF assms]) (rule shard_ok_remove)
  show "get_client c' (removeClientFromRoom c r h) = get_client c' h" by (simp add: removeClientFromRoom_def)
qed

lemma disband_shard_law:
  assumes "hub_shape h"
  shows "members (snd (disband_shard r h)) = (members h)(r := {})"
    "users (snd (disband_shard r h)) = users h" "hub_shape (snd (disband_shard r h))"
    "get_client c' (snd (disband_shard r h)) = get_client c' h"
    "set (fst (disband_shard r h)) = members h r"
proof -
  show "members (snd (disband_shard r h)) = (members h)(r := {})"
    "users (snd (disband_shard r h)) = users h"
    using assms by (auto simp: members_alt users_def clientByUser_def disband_shard_def fun_eq_iff shardFor_upd)
  show "hub_shape (snd (disband_shard r h))" unfolding disband_shard_def snd_conv
    by (rule upd_shard_shape [OF assms]) (auto simp: shard_ok_def split: if_splits)
  show "get_client c' (snd (disband_shard r h)) = get_client c' h" by (simp add: disband_shard_def)
  show "set (fst (disband_shard r h)) = members h r" by (simp add: disband_shard_def members_def)
qed

section \<open>The room index\<close>

locale room_index =
  fixes ok :: "'h \<Rightarrow> bool"
    and rooms :: "'h \<Rightarrow> 'r \<Rightarrow> 'c set"
    and frame :: "'h \<Rightarrow> 'f"
    and add :: "'c \<Rightarrow> 'r \<Rightarrow> 'h \<Rightarrow> 'h"
    and remove :: "'c \<Rightarrow> 'r \<Rightarrow> 'h \<Rightarrow> 'h"
  assumes add_law: "ok h \<Longrightarrow> rooms (add c r h) = (rooms h)(r := insert c (rooms h r))"
      "ok h \<Longrightarrow> ok (add c r h)" "ok h \<Longrightarrow> frame (add c r h) = frame h"
    and remove_law: "ok h \<Longrightarrow> rooms (remove c r h) = (rooms h)(r := rooms h r - {c})"
      "ok h \<Longrightarrow> ok (remove c r h)" "ok h \<Longrightarrow> frame (remove c r h) = frame h"
begin

lemma add_all:
  "ok h \<Longrightarrow> ok (fold (add c) rs h) \<and> frame (fold (add c) rs h) = frame h \<and>
     rooms (fold (add c) rs h) = (\<lambda>r. if r \<in> set rs then insert c (rooms h r) else rooms h r)"
  by (induction rs arbitrary: h) (auto simp: add_law fun_eq_iff)

lemma remove_all:
  "ok h \<Longrightarrow> ok (fold (remove c) rs h) \<and> frame (fold (remove c) rs h) = frame h \<and>
     rooms (fold (remove c) rs h) = (\<lambda>r. if r \<in> set rs then rooms h r - {c} else rooms h r)"
  by (induction rs arbitrary: h) (auto simp: remove_law fun_eq_iff)

end

interpretation hi: room_index hub_shape members "\<lambda>h. (users h, \<lambda>c. get_client c h)"
    addClientToRoom removeClientFromRoom
  by unfold_locales (auto simp: addClientToRoom_law removeClientFromRoom_law)

lemma add_all_simps:
  assumes "hub_shape h"
  shows "hub_shape (fold (addClientToRoom c) rs h)" "users (fold (addClientToRoom c) rs h) = users h"
    "get_client c' (fold (addClientToRoom c) rs h) = get_client c' h"
    "members (fold (addClientToRoom c) rs h) = (\<lambda>r. if r \<in> set rs then insert c (members h r) else members h r)"
  using hi.add_all [OF assms, of c rs] by (auto simp: fun_eq_iff)

lemma remove_all_simps:
  assumes "hub_shape h"
  shows "hub_shape (fold (removeClientFromRoom c) rs h)" "users (fold (removeClientFromRoom c) rs h) = users h"
    "get_client c' (fold (removeClientFromRoom c) rs h) = get_client c' h"
    "members (fold (removeClientFromRoom c) rs h) = (\<lambda>r. if r \<in> set rs then members h r - {c} else members h r)"
  using hi.remove_all [OF assms, of c rs] by (auto simp: fun_eq_iff)

lemmas index_laws = put_user_law del_user_law addClientToRoom_law removeClientFromRoom_law
  disband_shard_law add_all_simps remove_all_simps

section \<open>The flat specification\<close>

record flat =
  fl_users :: "int \<Rightarrow> nat option"
  fl_rooms :: "int \<Rightarrow> nat set"
  fl_clients :: "nat \<Rightarrow> Client option"

definition flat_of :: "Hub \<Rightarrow> flat" where
  "flat_of h = \<lparr>fl_users = users h, fl_rooms = members h, fl_clients = (\<lambda>c. get_client c h)\<rparr>"

text \<open>The operations of a run; \<open>OConnect\<close> is the allocation of a client by the WebSocket handler.\<close>

datatype hub_op =
    OConnect nat Client
  | ORegister nat "int list"
  | OUnregister nat
  | OUpdateRooms nat "int list"
  | OJoin int int
  | OLeave int int
  | ODisband int

definition new_client :: "int \<Rightarrow> string \<Rightarrow> string \<Rightarrow> string \<Rightarrow> string \<Rightarrow> time \<Rightarrow> Client" where
  "new_client userID connID ip agent version now =
     \<lparr>cl_UserID = userID, cl_Conn = Some True, cl_Send = Some (make_chan 512), cl_username = [],
      cl_ConnID = connID, cl_RemoteIP = ip, cl_UserAgent = agent, cl_ClientVersion = version,
      cl_ConnectedAt = now, cl_active = False, cl_roomIDs = None, cl_sendClosed = False,
      cl_lastReadAt = 0, cl_lastWriteAt = 0\<rparr>"

fun run_op :: "hub_op \<Rightarrow> Hub \<Rightarrow> Hub" where
  "run_op (OConnect c cl) h = (if get_client c h = None then set_client c cl h else h)"
| "run_op (ORegister c rs) h = Register c rs h"
| "run_op (OUnregister c) h = Unregister c h"
| "run_op (OUpdateRooms c rs) h = UpdateRooms c rs h"
| "run_op (OJoin u r) h = JoinRoom u r h"
| "run_op (OLeave u r) h = LeaveRoom u r h"
| "run_op (ODisband r) h = DisbandRoom r h"

definition flat_set :: "nat \<Rightarrow> Client \<Rightarrow> flat \<Rightarrow> flat" where
  "flat_set c cl f = f\<lparr>fl_clients := (fl_clients f)(c \<mapsto> cl)\<rparr>"

definition flat_join :: "nat \<Rightarrow> int \<Rightarrow> flat \<Rightarrow> flat" where
  "flat_join c r f =
     (case fl_clients f c of
        Some cl \<Rightarrow>
          if cl_active cl \<and> \<not> in_room cl r then
            (flat_set c (cl\<lparr>cl_roomIDs := Some (map_put r () (case cl_roomIDs cl of None \<Rightarrow> [] | Some m \<Rightarrow> m))\<rparr>) f)
              \<lparr>fl_rooms := (fl_rooms f)(r := insert c (fl_rooms f r))\<rparr>
          else f
      | None \<Rightarrow> f)"

definition flat_leave :: "nat \<Rightarrow> int \<Rightarrow> flat \<Rightarrow> flat" where
  "flat_leave c r f =
     (case fl_clients f c of
        Some cl \<Rightarrow>
          if cl_active cl \<and> in_room cl r then
            (flat_set c (drop_room r cl) f)\<lparr>fl_rooms := (fl_rooms f)(r := fl_rooms f r - {c})\<rparr>
          else f
      | None \<Rightarrow> f)"

fun flat_op :: "hub_op \<Rightarrow> flat \<Rightarrow> flat" where
  "flat_op (OConnect c cl) f = (if fl_clients f c = None then flat_set c cl f else f)"
| "flat_op (ORegister c rs) f =
     (case fl_clients f c of
        None \<Rightarrow> f
      | Some cl \<Rightarrow>
          \<lparr>fl_users = (fl_users f)(cl_UserID cl \<mapsto> c),
           fl_rooms = (\<lambda>r. if r \<in> set rs then insert c (fl_rooms f r) else fl_rooms f r),
           fl_clients = (fl_clients f)(c \<mapsto> cl\<lparr>cl_active := True, cl_roomIDs := Some (room_set rs)\<rparr>)\<rparr>)"
| "flat_op (OUnregister c) f =
     (case fl_clients f c of
        Some cl \<Rightarrow>
          if cl_active cl then
            \<lparr>fl_users = (if fl_users f (cl_UserID cl) = Some c then (fl_users f)(cl_UserID cl := None) else fl_users f),
             fl_rooms = (\<lambda>r. if in_room cl r then fl_rooms f r - {c} else fl_rooms f r),
             fl_clients = (fl_clients f)(c \<mapsto> closeSend (cl\<lparr>cl_active := False, cl_roomIDs := None\<rparr>))\<rparr>
          else f
      | None \<Rightarrow> f)"
| "flat_op (OUpdateRooms c rs) f =
     (case fl_clients f c of
        Some cl \<Rightarrow>
          if cl_active cl then
            (flat_set c (cl\<lparr>cl_roomIDs := Some (room_set rs)\<rparr>) f)
              \<lparr>fl_rooms := (\<lambda>r. if in_room cl r then (if r \<in> set rs then fl_rooms f r else fl_rooms f r - {c})
                 else if r \<in> set rs then insert c (fl_rooms f r) else fl_rooms f r)\<rparr>
          else f
      | None \<Rightarrow> f)"
| "flat_op (OJoin u r) f = (case fl_users f u of None \<Rightarrow> f | Some c \<Rightarrow> flat_join c r f)"
| "flat_op (OLeave u r) f = (case fl_users f u of None \<Rightarrow> f | Some c \<Rightarrow> flat_leave c r f)"
| "flat_op (ODisband r) f =
     f\<lparr>fl_rooms := (fl_rooms f)(r := {}),
       fl_clients := (\<lambda>c. if c \<in> fl_rooms f r then map_option (drop_room r) (fl_clients f c)
                          else fl_clients f c)\<rparr>"

lemma flat_of_simps [simp]:
  "fl_users (flat_of h) = users h" "fl_rooms (flat_of h) = members h"
  "fl_clients (flat_of h) c = get_client c h" "fl_clients (flat_of h) = (\<lambda>c. get_client c h)"
  by (simp_all add: flat_of_def)

lemma flat_eqI:
  assumes "fl_users f = fl_users g" "fl_rooms f = fl_rooms g" "fl_clients f = fl_clients g"
  shows "f = (g :: flat)"
  using assms by simp

lemma map_get_room_set [simp]: "map_get (room_set rs) r = (if r \<in> set rs then Some () else None)"
proof -
  have "map_get (fold (\<lambda>r. map_put r ()) rs m) r = (if r \<in> set rs then Some () else map_get m r)" for m
    by (induction rs arbitrary: m) auto
  then show ?thesis by (simp add: room_set_def)
qed

lemma set_RoomIDs [simp]: "r \<in> set (RoomIDs cl) \<longleftrightarrow> in_room cl r"
  by (auto simp: RoomIDs_def in_room_def gm.mem_keys split: option.splits)

lemma set_keys_room_set [simp]: "set (map_keys (room_set rs)) = set rs"
  by (auto simp: gm.keys_law(1) split: if_splits)

lemma room_set_mem_keys: "r \<in> set (map_keys (room_set rs)) \<longleftrightarrow> r \<in> set rs"
  by simp

lemma join_client_flat:
  assumes "hub_shape h"
  shows "hub_shape (join_client c r h) \<and> flat_of (join_client c r h) = flat_join c r (flat_of h)"
  using assms
  by (cases "get_client c h")
    (auto simp: join_client_def flat_join_def Let_def index_laws flat_set_def intro!: flat_eqI)

lemma leave_client_flat:
  assumes "hub_shape h"
  shows "hub_shape (leave_client c r h) \<and> flat_of (leave_client c r h) = flat_leave c r (flat_of h)"
  using assms
  by (cases "get_client c h")
    (auto simp: leave_client_def flat_leave_def Let_def index_laws flat_set_def intro!: flat_eqI)

lemma drop_room_idem [simp]: "drop_room r (drop_room r cl) = drop_room r cl"
  by (cases "cl_roomIDs cl") (auto simp: drop_room_def map_del_def delete_idem)

lemma disband_clients:
  "hub_shape h \<Longrightarrow> hub_shape (fold (disband_client r) cs h) \<and> users (fold (disband_client r) cs h) = users h \<and>
     members (fold (disband_client r) cs h) = members h \<and>
     get_client c (fold (disband_client r) cs h) =
       (if c \<in> set cs then map_option (drop_room r) (get_client c h) else get_client c h)"
proof (induction cs arbitrary: h)
  case (Cons x cs)
  have "hub_shape (disband_client r x h)" "users (disband_client r x h) = users h"
    "members (disband_client r x h) = members h"
    "get_client c (disband_client r x h) =
      (if c = x then map_option (drop_room r) (get_client c h) else get_client c h)"
    using Cons.prems by (auto simp: disband_client_def split: option.splits)
  with Cons.IH [of "disband_client r x h"] show ?case
    by (auto simp: option.map_comp comp_def)
qed simp

lemma Register_flat:
  assumes "hub_shape h"
  shows "hub_shape (Register c rs h) \<and> flat_of (Register c rs h) = flat_op (ORegister c rs) (flat_of h)"
  using assms
  by (cases "get_client c h") (auto simp: Register_def index_laws fun_eq_iff intro!: flat_eqI)

lemma Unregister_flat:
  assumes "hub_shape h"
  shows "hub_shape (Unregister c h) \<and> flat_of (Unregister c h) = flat_op (OUnregister c) (flat_of h)"
proof (cases "get_client c h")
  case (Some cl)
  have "users h (cl_UserID cl) = clientByUser (cl_UserID cl) h" by (simp add: users_def)
  with assms Some show ?thesis
    by (auto simp: Unregister_def Let_def index_laws fun_eq_iff intro!: flat_eqI)
qed (use assms in \<open>simp add: Unregister_def\<close>)

lemma UpdateRooms_flat:
  assumes "hub_shape h"
  shows "hub_shape (UpdateRooms c rs h) \<and>
    flat_of (UpdateRooms c rs h) = flat_op (OUpdateRooms c rs) (flat_of h)"
  using assms
  by (cases "get_client c h")
    (auto simp: UpdateRooms_def Let_def index_laws flat_set_def fun_eq_iff intro!: flat_eqI)

lemma DisbandRoom_flat:
  assumes "hub_shape h"
  shows "hub_shape (DisbandRoom r h) \<and> flat_of (DisbandRoom r h) = flat_op (ODisband r) (flat_of h)"
proof -
  obtain cs h1 where d: "disband_shard r h = (cs, h1)" by force
  have h1: "hub_shape h1" "users h1 = users h" "members h1 = (members h)(r := {})"
    "\<And>c. get_client c h1 = get_client c h" "set cs = members h r"
    using disband_shard_law [OF assms, where r = r] d by auto
  with disband_clients [OF h1(1), where r = r and cs = cs] d show ?thesis
    by (auto simp: DisbandRoom_def intro!: flat_eqI)
qed

lemma run_op_flat:
  assumes "hub_shape h"
  shows "hub_shape (run_op op h) \<and> flat_of (run_op op h) = flat_op op (flat_of h)"
proof (cases op)
  case (OConnect c cl)
  with assms show ?thesis by (auto simp: flat_set_def intro!: flat_eqI)
next
  case (OJoin u r)
  with assms join_client_flat [OF assms] show ?thesis
    by (auto simp: JoinRoom_def users_def split: option.splits)
next
  case (OLeave u r)
  with assms leave_client_flat [OF assms] show ?thesis
    by (auto simp: LeaveRoom_def users_def split: option.splits)
qed (use assms Register_flat Unregister_flat UpdateRooms_flat DisbandRoom_flat in simp_all)

section \<open>Refinement\<close>

lemma NewHub_shape: "hub_shape (NewHubWithShards n t b)"
  by (auto simp: hub_shape_def NewHubWithShards_def Let_def shard_ok_def new_shard_def map_wf_def)

lemma NewHub_flat:
  "flat_of (NewHubWithShards n t b) = \<lparr>fl_users = Map.empty, fl_rooms = (\<lambda>_. {}), fl_clients = Map.empty\<rparr>"
proof -
  have "shardFor k (NewHubWithShards n t b) = new_shard" for k
    using hub_shapeD [OF NewHub_shape, of n t b k] by (simp add: shardFor_def NewHubWithShards_def Let_def)
  then show ?thesis
    by (auto simp: flat_of_def users_def clientByUser_def members_alt new_shard_def get_client_def
        NewHubWithShards_def Let_def)
qed

lemma run_ops_flat:
  "hub_shape h \<Longrightarrow> hub_shape (fold run_op ops h) \<and> flat_of (fold run_op ops h) = fold flat_op ops (flat_of h)"
  by (induction ops arbitrary: h) (auto simp: run_op_flat)

text \<open>
  C7: sharding is invisible. Run any sequence of connects, registrations, unregistrations, room
  updates, joins, leaves and disbands on a fresh hub with any configured number of shards: the online
  users, the members of each room and the state of each client are those of the flat specification.
\<close>

theorem hub_refines_flat:
  "flat_of (fold run_op ops (NewHubWithShards n t b)) =
     fold flat_op ops \<lparr>fl_users = Map.empty, fl_rooms = (\<lambda>_. {}), fl_clients = Map.empty\<rparr>"
  using run_ops_flat [OF NewHub_shape] by (simp add: NewHub_flat)

section \<open>The invariant\<close>

text \<open>
  A client's channel is closed exactly when \<^verbatim>\<open>sendClosed\<close> says so, and no operation on it panicked.
\<close>

definition client_ok :: "Client \<Rightarrow> bool" where
  "client_ok cl \<longleftrightarrow> (\<not> cl_active cl \<longrightarrow> (\<forall>r. \<not> in_room cl r)) \<and>
     (\<forall>ch. cl_Send cl = Some ch \<longrightarrow> ch_closed ch = cl_sendClosed cl \<and> chan_ok ch)"

text \<open>
  The index lists exactly the active subscribers of a room, and a user's entry is an active
  connection of that user.
\<close>

definition rooms_match :: "flat \<Rightarrow> bool" where
  "rooms_match f \<longleftrightarrow> (\<forall>r c. c \<in> fl_rooms f r \<longleftrightarrow>
     (\<exists>cl. fl_clients f c = Some cl \<and> cl_active cl \<and> in_room cl r))"

definition users_match :: "flat \<Rightarrow> bool" where
  "users_match f \<longleftrightarrow> (\<forall>u c. fl_users f u = Some c \<longrightarrow>
     (\<exists>cl. fl_clients f c = Some cl \<and> cl_UserID cl = u \<and> cl_active cl))"

definition clients_match :: "flat \<Rightarrow> bool" where
  "clients_match f \<longleftrightarrow> (\<forall>c cl. fl_clients f c = Some cl \<longrightarrow> client_ok cl)"

definition consistent :: "flat \<Rightarrow> bool" where
  "consistent f \<longleftrightarrow> rooms_match f \<and> users_match f \<and> clients_match f"

text \<open>
  What the callers owe: a new client is idle with a fresh channel, and \<open>Register\<close> is not called on an
  active client that listens to a room outside the new list (the WebSocket handler registers a
  client once).
\<close>

definition fresh_client :: "Client \<Rightarrow> bool" where
  "fresh_client cl \<longleftrightarrow> \<not> cl_active cl \<and> cl_roomIDs cl = None \<and> \<not> cl_sendClosed cl \<and>
     (\<forall>ch. cl_Send cl = Some ch \<longrightarrow> \<not> ch_closed ch \<and> chan_ok ch)"

fun op_allowed :: "hub_op \<Rightarrow> flat \<Rightarrow> bool" where
  "op_allowed (OConnect c cl) f \<longleftrightarrow> fresh_client cl"
| "op_allowed (ORegister c rs) f \<longleftrightarrow>
     (case fl_clients f c of None \<Rightarrow> True | Some cl \<Rightarrow> cl_active cl \<longrightarrow> set (RoomIDs cl) \<subseteq> set rs)"
| "op_allowed _ f \<longleftrightarrow> True"

fun allowed :: "hub_op list \<Rightarrow> flat \<Rightarrow> bool" where
  "allowed [] f \<longleftrightarrow> True"
| "allowed (op # ops) f \<longleftrightarrow> op_allowed op f \<and> allowed ops (flat_op op f)"

lemma in_room_updates [simp]:
  "in_room (cl\<lparr>cl_active := a\<rparr>) r = in_room cl r"
  "in_room (cl\<lparr>cl_roomIDs := None\<rparr>) r \<longleftrightarrow> False"
  "in_room (cl\<lparr>cl_roomIDs := Some m\<rparr>) r \<longleftrightarrow> map_get m r \<noteq> None"
  "in_room (cl\<lparr>cl_active := a, cl_roomIDs := None\<rparr>) r \<longleftrightarrow> False"
  "in_room (cl\<lparr>cl_active := a, cl_roomIDs := Some m\<rparr>) r \<longleftrightarrow> map_get m r \<noteq> None"
  "in_room (drop_room r' cl) r \<longleftrightarrow> r \<noteq> r' \<and> in_room cl r"
  "cl_active (drop_room r cl) = cl_active cl" "cl_UserID (drop_room r cl) = cl_UserID cl"
  "cl_Send (drop_room r cl) = cl_Send cl" "cl_sendClosed (drop_room r cl) = cl_sendClosed cl"
  by (auto simp: in_room_def drop_room_def split: option.splits)

lemma closeSend_simps [simp]:
  "cl_active (closeSend cl) = cl_active cl" "in_room (closeSend cl) r = in_room cl r"
  "cl_UserID (closeSend cl) = cl_UserID cl"
  by (auto simp: closeSend_def in_room_def split: option.splits)

lemma closeSend_ok:
  assumes "client_ok cl"
  shows "client_ok (closeSend cl)"
proof (cases "cl_Send cl")
  case (Some ch)
  show ?thesis
  proof (cases "cl_sendClosed cl")
    case False
    with assms Some have "\<not> ch_closed ch" "chan_ok ch" by (auto simp: client_ok_def)
    with gc.shut_law [of ch] Some False assms show ?thesis
      by (simp add: closeSend_def client_ok_def in_room_def)
  qed (use assms Some in \<open>simp add: closeSend_def\<close>)
qed (use assms in \<open>simp add: closeSend_def\<close>)

lemmas match_defs = rooms_match_def users_match_def clients_match_def flat_set_def

lemma client_ok_rooms:
  "client_ok cl \<Longrightarrow> cl_active cl \<Longrightarrow> client_ok (cl\<lparr>cl_roomIDs := m\<rparr>)"
  "client_ok cl \<Longrightarrow> client_ok (cl\<lparr>cl_active := True, cl_roomIDs := m\<rparr>)"
  "client_ok cl \<Longrightarrow> client_ok (cl\<lparr>cl_active := False, cl_roomIDs := None\<rparr>)"
  "client_ok cl \<Longrightarrow> client_ok (drop_room r cl)"
  by (auto simp: client_ok_def)

lemma fresh_client_ok: "fresh_client cl \<Longrightarrow> client_ok cl"
  by (auto simp: fresh_client_def client_ok_def in_room_def)

lemma users_matchD:
  "users_match f \<Longrightarrow> fl_users f u = Some c \<Longrightarrow> fl_clients f c = Some a \<Longrightarrow> cl_UserID a = u \<and> cl_active a"
  by (fastforce simp: users_match_def)

lemma users_match_set:
  assumes "users_match f" "fl_clients f c = Some a" "cl_active a \<longrightarrow> cl_active a'" "cl_UserID a' = cl_UserID a"
  shows "users_match (f\<lparr>fl_clients := (fl_clients f)(c \<mapsto> a')\<rparr>)"
    and "users_match (f\<lparr>fl_clients := (fl_clients f)(c \<mapsto> a'), fl_rooms := R\<rparr>)"
    and "cl_active a' \<Longrightarrow> users_match \<lparr>fl_users = (fl_users f)(cl_UserID a \<mapsto> c), fl_rooms = R,
      fl_clients = (fl_clients f)(c \<mapsto> a')\<rparr>"
  using assms users_matchD [OF assms(1) _ assms(2)] by (auto simp: users_match_def)

lemma flat_join_consistent:
  assumes "consistent f"
  shows "consistent (flat_join c r f)"
proof (cases "\<exists>cl. fl_clients f c = Some cl \<and> cl_active cl \<and> \<not> in_room cl r")
  case False
  then have "flat_join c r f = f" by (auto simp: flat_join_def split: option.splits)
  with assms show ?thesis by simp
next
  case True
  then obtain cl where cl: "fl_clients f c = Some cl" "cl_active cl" "\<not> in_room cl r" by blast
  let ?cl = "cl\<lparr>cl_roomIDs := Some (map_put r () (case cl_roomIDs cl of None \<Rightarrow> [] | Some m \<Rightarrow> m))\<rparr>"
  have "in_room ?cl r' \<longleftrightarrow> r' = r \<or> in_room cl r'" for r'
    by (auto simp: in_room_def split: option.splits)
  then have "rooms_match (flat_join c r f)"
    using assms cl by (auto simp: consistent_def flat_join_def rooms_match_def flat_set_def simp del: in_room_updates)
  with assms cl show ?thesis
    by (auto simp: consistent_def flat_join_def clients_match_def flat_set_def client_ok_rooms intro!: users_match_set)
qed

lemma flat_leave_consistent: "consistent f \<Longrightarrow> consistent (flat_leave c r f)"
  unfolding consistent_def
  by (cases "fl_clients f c") (auto simp: flat_leave_def rooms_match_def clients_match_def flat_set_def client_ok_rooms
      intro!: users_match_set)

lemma flat_unregister_consistent: "consistent f \<Longrightarrow> consistent (flat_op (OUnregister c) f)"
proof (cases "fl_clients f c")
  case (Some cl)
  assume a: "consistent f"
  have ok: "client_ok (closeSend (cl\<lparr>cl_active := False, cl_roomIDs := None\<rparr>))"
    using a Some by (intro closeSend_ok client_ok_rooms) (auto simp: consistent_def clients_match_def)
  show ?thesis
  proof (cases "cl_active cl")
    case True
    have "users_match (flat_op (OUnregister c) f)"
      unfolding users_match_def
    proof (intro allI impI)
      fix u c'
      assume u: "fl_users (flat_op (OUnregister c) f) u = Some c'"
      then have old: "fl_users f u = Some c'" using Some True by (auto split: if_splits)
      with a obtain cl' where cl': "fl_clients f c' = Some cl'" "cl_UserID cl' = u" "cl_active cl'"
        by (auto simp: consistent_def users_match_def)
      have "c' \<noteq> c" using u old cl'(1,2) Some True by (auto split: if_splits)
      with cl' Some True show "\<exists>cl. fl_clients (flat_op (OUnregister c) f) c' = Some cl \<and> cl_UserID cl = u \<and> cl_active cl"
        by simp
    qed
    moreover have "rooms_match (flat_op (OUnregister c) f)"
      using a Some True by (auto simp: consistent_def rooms_match_def)
    moreover have "clients_match (flat_op (OUnregister c) f)"
      using a Some True ok by (auto simp: consistent_def clients_match_def)
    ultimately show ?thesis by (simp add: consistent_def)
  qed (use a Some in simp)
qed simp

lemma flat_op_consistent:
  assumes "consistent f" "op_allowed op f"
  shows "consistent (flat_op op f)"
proof (cases op)
  case (OConnect c cl)
  show ?thesis
  proof (cases "fl_clients f c")
    case None
    have "users_match (flat_op op f)" unfolding users_match_def
    proof (intro allI impI)
      fix u c'
      assume "fl_users (flat_op op f) u = Some c'"
      then obtain cl' where cl': "fl_clients f c' = Some cl'" "cl_UserID cl' = u" "cl_active cl'"
        using assms(1) None OConnect by (auto simp: consistent_def users_match_def flat_set_def)
      with None OConnect show "\<exists>cl. fl_clients (flat_op op f) c' = Some cl \<and> cl_UserID cl = u \<and> cl_active cl"
        by (auto simp: flat_set_def)
    qed
    moreover have "rooms_match (flat_op op f)" using assms None OConnect
      by (auto simp: consistent_def rooms_match_def flat_set_def fresh_client_def)
    moreover have "clients_match (flat_op op f)" using assms None OConnect
      by (auto simp: consistent_def clients_match_def flat_set_def fresh_client_ok)
    ultimately show ?thesis by (simp add: consistent_def)
  qed (use assms OConnect in simp)
next
  case (ORegister c rs)
  show ?thesis
  proof (cases "fl_clients f c")
    case (Some cl)
    have "users_match (flat_op op f)"
      using users_match_set(3) [of f c cl "cl\<lparr>cl_active := True, cl_roomIDs := Some (room_set rs)\<rparr>"] assms Some ORegister
      by (simp add: consistent_def)
    moreover have "rooms_match (flat_op op f)" using assms Some ORegister
      by (auto simp: consistent_def rooms_match_def subset_iff)
    moreover have "clients_match (flat_op op f)" using assms Some ORegister
      by (auto simp: consistent_def clients_match_def client_ok_rooms)
    ultimately show ?thesis by (simp add: consistent_def)
  qed (use assms ORegister in simp)
next
  case (OUpdateRooms c rs)
  with assms show ?thesis
    unfolding consistent_def
    by (cases "fl_clients f c")
      (auto simp: rooms_match_def clients_match_def flat_set_def client_ok_rooms intro!: users_match_set)
next
  case (ODisband r)
  have "rooms_match (flat_op op f)" using assms ODisband
    by (auto simp: consistent_def rooms_match_def split: if_splits)
  moreover have "users_match (flat_op op f)" using assms ODisband
    by (fastforce simp: consistent_def users_match_def)
  moreover have "clients_match (flat_op op f)" using assms ODisband
    by (auto simp: consistent_def clients_match_def client_ok_rooms split: if_splits)
  ultimately show ?thesis by (simp add: consistent_def)
qed (use assms flat_unregister_consistent flat_join_consistent flat_leave_consistent
    in \<open>auto split: option.splits\<close>)

lemma flat_ops_consistent:
  "consistent f \<Longrightarrow> allowed ops f \<Longrightarrow> consistent (fold flat_op ops f)"
  by (induction ops arbitrary: f) (auto simp: flat_op_consistent)

lemma empty_consistent:
  "consistent \<lparr>fl_users = Map.empty, fl_rooms = (\<lambda>_. {}), fl_clients = Map.empty\<rparr>"
  by (simp add: consistent_def match_defs)

text \<open>
  C8: routing is exact. After any allowed sequence of operations the members of a room are exactly
  the active connections that are subscribed to it, a user's entry is an active connection of that
  user, and every send channel is closed exactly when its client says so and never saw a send or a
  close after its close.
\<close>

theorem hub_routing_exact:
  assumes "allowed ops \<lparr>fl_users = Map.empty, fl_rooms = (\<lambda>_. {}), fl_clients = Map.empty\<rparr>"
    and "h = fold run_op ops (NewHubWithShards n t b)"
  shows "(c \<in> members h r \<longleftrightarrow> (\<exists>cl. get_client c h = Some cl \<and> cl_active cl \<and> in_room cl r))
    \<and> (users h u = Some c \<longrightarrow> (\<exists>cl. get_client c h = Some cl \<and> cl_UserID cl = u \<and> cl_active cl))
    \<and> (get_client c h = Some cl \<longrightarrow> client_ok cl)"
proof -
  have "flat_of h = fold flat_op ops \<lparr>fl_users = Map.empty, fl_rooms = (\<lambda>_. {}), fl_clients = Map.empty\<rparr>"
    using run_ops_flat [OF NewHub_shape, of ops n t b] assms(2) by (simp add: NewHub_flat)
  with flat_ops_consistent [OF empty_consistent assms(1)] have "consistent (flat_of h)" by simp
  then show ?thesis by (auto simp: consistent_def match_defs)
qed

text \<open>
  Why \<open>op_allowed\<close> asks for it: registering an active client again with another room list leaves the
  client in the index of the rooms it forgot, and no later \<open>Unregister\<close> removes it.
\<close>

definition reregistered :: Hub where
  "reregistered = fold run_op
     [OConnect 0 (new_client 7 ''c'' [] [] [] 0), ORegister 0 [1], ORegister 0 [2], OUnregister 0]
     (NewHubWithShards 4 [] [])"

lemma Register_twice_leaks:
  "0 \<in> members reregistered 1 \<and> map_option cl_active (get_client 0 reregistered) = Some False"
  by code_simp

section \<open>Counting\<close>

lemma sharded_card:
  assumes "\<And>i. i < length xs \<Longrightarrow> finite (D (xs ! i))"
    and "\<And>i k. i < length xs \<Longrightarrow> k \<in> D (xs ! i) \<Longrightarrow> idx k = i"
  shows "sum_list (map (\<lambda>x. card (D x)) xs) = card (\<Union>i < length xs. D (xs ! i))"
proof -
  have "D (xs ! i) \<inter> D (xs ! j) = {}" if "i < length xs" "j < length xs" "i \<noteq> j" for i j
    using assms(2) that by blast
  then have "card (\<Union>i < length xs. D (xs ! i)) = (\<Sum>i < length xs. card (D (xs ! i)))"
    using assms(1) by (intro card_UN_disjoint) auto
  then show ?thesis by (simp add: sum_list_sum_nth atLeast0LessThan)
qed

lemma shards_union:
  assumes "hub_shape h"
    and "\<And>i s k. shard_ok (length (hub_shards h)) i s \<Longrightarrow> k \<in> D s \<Longrightarrow>
      shard_index (length (hub_shards h)) k = i"
  shows "(\<Union>i < length (hub_shards h). D (hub_shards h ! i)) = {k. k \<in> D (shardFor k h)}"
  using assms hub_shapeD [OF assms(1)] by (fastforce simp: hub_shape_def shardFor_def)

text \<open>
  The statistics count each online user and each non-empty room once, whatever the shards.
\<close>

lemma Stats_counts:
  assumes "hub_shape h"
  shows "Stats h = \<lparr>st_ClientCount = card {u. users h u \<noteq> None}, st_RoomCount = card {r. members h r \<noteq> {}}\<rparr>"
proof -
  let ?n = "length (hub_shards h)"
  have ok: "shard_ok ?n i (hub_shards h ! i)" if "i < ?n" for i
    using assms that by (simp add: hub_shape_def)
  have wf: "map_wf (sh_users s) \<and> map_wf (sh_rooms s)" if "s \<in> set (hub_shards h)" for s
    using that ok by (metis in_set_conv_nth shard_ok_def)
  have "sum_list (map (\<lambda>s. map_len (sh_users s)) (hub_shards h))
      = sum_list (map (\<lambda>s. card (dom (map_get (sh_users s)))) (hub_shards h))"
    using wf by (auto intro!: arg_cong [of _ _ sum_list] simp: gm.len_card)
  also have "\<dots> = card (\<Union>i < ?n. dom (map_get (sh_users (hub_shards h ! i))))"
    using ok by (intro sharded_card [where idx = "shard_index ?n"]) (auto simp: shard_ok_def)
  also have "\<dots> = card {u. u \<in> dom (map_get (sh_users (shardFor u h)))}"
    by (subst shards_union [OF assms, of "\<lambda>s. dom (map_get (sh_users s))"]) (auto simp: shard_ok_def)
  also have "{u. u \<in> dom (map_get (sh_users (shardFor u h)))} = {u. users h u \<noteq> None}"
    by (auto simp: users_def clientByUser_def)
  finally have u: "sum_list (map (\<lambda>s. map_len (sh_users s)) (hub_shards h)) = card {u. users h u \<noteq> None}" .
  have "sum_list (map (\<lambda>s. map_len (sh_rooms s)) (hub_shards h))
      = sum_list (map (\<lambda>s. card (dom (map_get (sh_rooms s)))) (hub_shards h))"
    using wf by (auto intro!: arg_cong [of _ _ sum_list] simp: gm.len_card)
  also have "\<dots> = card (\<Union>i < ?n. dom (map_get (sh_rooms (hub_shards h ! i))))"
    using ok by (intro sharded_card [where idx = "shard_index ?n"]) (auto simp: shard_ok_def)
  also have "\<dots> = card {r. r \<in> dom (map_get (sh_rooms (shardFor r h)))}"
    by (subst shards_union [OF assms, of "\<lambda>s. dom (map_get (sh_rooms s))"]) (auto simp: shard_ok_def)
  also have "{r. r \<in> dom (map_get (sh_rooms (shardFor r h)))} = {r. members h r \<noteq> {}}"
    using shard_ok_at [OF assms]
    by (auto simp: members_alt shard_ok_def dom_map_get_Nil simp del: dom_eq_empty_conv split: option.splits)
  finally show ?thesis using u by (simp add: Stats_def)
qed

section \<open>Witnesses\<close>

definition sample_ops :: "hub_op list" where
  "sample_ops = [OConnect 0 (new_client 7 ''c0'' [] [] [] 0), OConnect 1 (new_client 8 ''c1'' [] [] [] 0),
     ORegister 0 [1, 2], ORegister 1 [2], OJoin 8 3, OLeave 7 1, ODisband 3, OUnregister 1]"

lemma sample_ops_allowed:
  "allowed sample_ops \<lparr>fl_users = Map.empty, fl_rooms = (\<lambda>_. {}), fl_clients = Map.empty\<rparr>"
  by (simp add: sample_ops_def fresh_client_def new_client_def RoomIDs_def flat_set_def)

theorem hub_routing_exact_witness:
  "0 \<in> members (fold run_op sample_ops (NewHubWithShards 3 [] [])) 2 \<and>
   (\<exists>cl. get_client 0 (fold run_op sample_ops (NewHubWithShards 3 [] [])) = Some cl \<and> cl_active cl \<and> in_room cl 2)"
proof -
  have "0 \<in> members (fold run_op sample_ops (NewHubWithShards 3 [] [])) 2" by code_simp
  then show ?thesis using hub_routing_exact [OF sample_ops_allowed refl, of 0 3 "[]" "[]" 2] by blast
qed

lemma Stats_counts_example:
  "let h = fold run_op sample_ops (NewHubWithShards 3 [] [])
   in Stats h = \<lparr>st_ClientCount = card {u. users h u \<noteq> None}, st_RoomCount = card {r. members h r \<noteq> {}}\<rparr>"
  unfolding Let_def by (rule Stats_counts) (use run_ops_flat [OF NewHub_shape] in blast)

end
