(* ===== verification/HubDispatch.thy ===== *)
theory HubDispatch
  imports HubSpec "HOL-Library.Multiset"
begin

text \<open>
  Fan-out, \<open>dispatchMessage\<close> and the shard loop of \<^verbatim>\<open>hub.go\<close>. A message goes to the clients of its room:
  one after the other in a small room, in balanced batches on the goroutine pool in a large one. The
  batches run concurrently, so a dispatch takes the order in which the sends happen, any
  interleaving of the batches (\<open>interleaves\<close>), as an argument; a \<open>TrySend\<close> is atomic under the
  client's send mutex. JSON encoding is the argument \<open>enc\<close>.
\<close>

section \<open>Operations\<close>

definition requestEvict :: "nat \<Rightarrow> Hub \<Rightarrow> Hub" where
  "requestEvict c h =
     (case get_client c h of
        None \<Rightarrow> h
      | Some cl \<Rightarrow>
          upd_shard (cl_UserID cl) (\<lambda>s. s\<lparr>sh_killClient := snd (chan_try_send c (sh_killClient s))\<rparr>) h)"

definition send_one :: "string \<Rightarrow> time \<Rightarrow> nat \<Rightarrow> nat \<times> Hub \<Rightarrow> nat \<times> Hub" where
  "send_one payload at c = (\<lambda>(dispatched, h).
     (case get_client c h of
        None \<Rightarrow> (dispatched, h)
      | Some cl \<Rightarrow>
          (case TrySend payload at cl of
             (True, cl') \<Rightarrow> (Suc dispatched, set_client c cl' h)
           | (False, cl') \<Rightarrow> (dispatched, requestEvict c (set_client c cl' h)))))"

definition taskCount :: "int \<Rightarrow> int \<Rightarrow> int" where
  "taskCount n batchSize = (let k = (n + batchSize - 1) div batchSize in if k < 2 then 2 else k)"

definition balancedBatchSize :: "int \<Rightarrow> int \<Rightarrow> int" where
  "balancedBatchSize n batchSize =
     (n + taskCount n batchSize - 1) div taskCount n batchSize"

text \<open>The slicing loop; a step of 0 does not occur (\<open>balancedBatchSize_pos\<close>).\<close>

function chunks :: "nat \<Rightarrow> 'a list \<Rightarrow> 'a list list" where
  "chunks k xs = (if xs = [] \<or> k = 0 then [] else take k xs # chunks k (drop k xs))"
  by pat_completeness auto
termination by (relation "measure (\<lambda>(k, xs). length xs)") auto

declare chunks.simps [simp del]

definition dispatch_plan :: "Hub \<Rightarrow> nat list \<Rightarrow> nat list list" where
  "dispatch_plan h clients =
     (if int (length clients) < hub_fanoutThreshold h then [clients]
      else chunks (nat (balancedBatchSize (int (length clients)) (hub_fanoutBatchSize h))) clients)"

definition dispatchMessage :: "nat list \<Rightarrow> Message \<Rightarrow> string \<Rightarrow> Hub \<Rightarrow> nat \<times> Hub" where
  "dispatchMessage order msg payload h = fold (send_one payload (msg_CreatedAt msg)) order (0, h)"

inductive interleaves :: "'a list list \<Rightarrow> 'a list \<Rightarrow> bool" where
  finished: "(\<forall>t \<in> set tasks. t = []) \<Longrightarrow> interleaves tasks []"
| pick: "i < length tasks \<Longrightarrow> tasks ! i = x # rest \<Longrightarrow> interleaves (tasks[i := rest]) order \<Longrightarrow>
    interleaves tasks (x # order)"

text \<open>
  One turn of the loop of shard \<open>i\<close>: a message or an eviction is taken from its channel (which one,
  when both are ready, is Go's choice).
\<close>

definition clients_of :: "nat \<Rightarrow> int \<Rightarrow> Hub \<Rightarrow> nat list" where
  "clients_of i r h =
     (case map_get (sh_rooms (hub_shards h ! i)) r of None \<Rightarrow> [] | Some m \<Rightarrow> map_keys m)"

definition shard_forward :: "(Message \<Rightarrow> string option) \<Rightarrow> (nat list \<Rightarrow> nat list) \<Rightarrow> nat \<Rightarrow> Hub \<Rightarrow> Hub" where
  "shard_forward enc sched i h =
     (case chan_recv (sh_forward (hub_shards h ! i)) of
        (Got msg, ch) \<Rightarrow>
          (let h' = h\<lparr>hub_shards := (hub_shards h)[i := (hub_shards h ! i)\<lparr>sh_forward := ch\<rparr>]\<rparr>
           in case enc msg of
                None \<Rightarrow> h'
              | Some payload \<Rightarrow> snd (dispatchMessage (sched (clients_of i (msg_RoomID msg) h')) msg payload h'))
      | _ \<Rightarrow> h)"

definition shard_kill :: "nat \<Rightarrow> Hub \<Rightarrow> Hub" where
  "shard_kill i h =
     (case chan_recv (sh_killClient (hub_shards h ! i)) of
        (Got c, ch) \<Rightarrow>
          Unregister c (h\<lparr>hub_shards := (hub_shards h)[i := (hub_shards h ! i)\<lparr>sh_killClient := ch\<rparr>]\<rparr>)
      | _ \<Rightarrow> h)"

text \<open>What the listeners of \<^verbatim>\<open>StartGlobalListener\<close> and \<^verbatim>\<open>StartRoomEventListener\<close> do with one message.\<close>

definition global_message :: "codec \<Rightarrow> time \<Rightarrow> string \<Rightarrow> Hub \<Rightarrow> Hub" where
  "global_message cd now payload h =
     (case Unmarshal cd now payload of
        Inl _ \<Rightarrow> h
      | Inr envelope \<Rightarrow> Publish (message_of_envelope envelope) h)"

record RoomEvent =
  ev_Type :: string
  ev_RoomID :: int
  ev_UserID :: int

definition room_event :: "(string \<Rightarrow> RoomEvent option) \<Rightarrow> string \<Rightarrow> Hub \<Rightarrow> Hub" where
  "room_event dec payload h =
     (case dec payload of
        None \<Rightarrow> h
      | Some e \<Rightarrow>
          if ev_Type e = ''member_joined'' then JoinRoom (ev_UserID e) (ev_RoomID e) h
          else if ev_Type e = ''member_left'' then LeaveRoom (ev_UserID e) (ev_RoomID e) h
          else if ev_Type e = ''room_disbanded'' then DisbandRoom (ev_RoomID e) h
          else h)"

section \<open>Batches\<close>

lemma concat_chunks: "0 < k \<Longrightarrow> concat (chunks k xs) = xs"
  by (induction k xs rule: chunks.induct) (subst chunks.simps, simp)

lemma chunks_bounds: "ys \<in> set (chunks k xs) \<Longrightarrow> ys \<noteq> [] \<and> length ys \<le> k"
  by (induction k xs rule: chunks.induct) (subst (asm) chunks.simps, auto split: if_splits)

lemma length_chunks: "0 < k \<Longrightarrow> length (chunks k xs) = (length xs + k - 1) div k"
proof (induction k xs rule: chunks.induct)
  case (1 k xs)
  show ?case
  proof (cases "length xs \<le> k")
    case True
    show ?thesis
    proof (cases "xs = []")
      case True
      with 1(2) show ?thesis by (simp add: chunks.simps)
    next
      case False
      with True 1(2) have "length (chunks k xs) = 1"
        by (simp add: chunks.simps [of k xs] chunks.simps [of k "[]"])
      moreover have "length xs + k - 1 = (length xs - 1) + k" using False by (cases xs) auto
      moreover have "(length xs - 1) div k = 0" using True False 1(2) by (cases xs) auto
      moreover have "((length xs - 1) + k) div k = Suc ((length xs - 1) div k)"
        using div_add_self2 [of k "length xs - 1"] 1(2) by linarith
      ultimately show ?thesis by (simp only: One_nat_def)
    qed
  next
    case False
    then have "xs \<noteq> []" by auto
    then have "length (chunks k xs) = Suc (length (chunks k (drop k xs)))"
      using 1(2) by (simp add: chunks.simps [of k xs])
    with 1(1) [OF _ 1(2)] \<open>xs \<noteq> []\<close> 1(2) False
    have "length (chunks k xs) = Suc ((length xs - k + k - 1) div k)" by simp
    moreover have "length xs + k - 1 = (length xs - k + k - 1) + k" using False 1(2) by simp
    moreover have "((length xs - k + k - 1) + k) div k = Suc ((length xs - k + k - 1) div k)"
      using div_add_self2 [of k "length xs - k + k - 1"] 1(2) by linarith
    ultimately show ?thesis by argo
  qed
qed

text \<open>Ceiling division.\<close>

lemma ceil_le: "0 < b \<Longrightarrow> (a + b - 1) div b \<le> c \<longleftrightarrow> a \<le> c * (b :: int)"
proof -
  assume b: "0 < b"
  let ?q = "(a + b - 1) div b"
  have q: "?q * b \<le> a + b - 1" "a + b - 1 < (?q + 1) * b"
    using b div_mult_mod_eq [of "a + b - 1" b] pos_mod_bound [OF b, of "a + b - 1"]
      pos_mod_sign [OF b, of "a + b - 1"] by (simp_all only: distrib_right)
  show ?thesis
  proof
    assume "?q \<le> c"
    then have "(?q + 1) * b \<le> (c + 1) * b" using b by simp
    with q(2) show "a \<le> c * b" by (simp add: distrib_right)
  next
    assume "a \<le> c * b"
    with q(1) b have "?q * b < (c + 1) * b" by (simp add: distrib_right)
    with b show "?q \<le> c" by simp
  qed
qed

lemma taskCount_ge: "2 \<le> taskCount n bs"
  by (simp add: taskCount_def Let_def)

lemma balancedBatchSize_pos: "0 < n \<Longrightarrow> 0 < balancedBatchSize n bs"
  using ceil_le [of "taskCount n bs" n 0] taskCount_ge [of n bs] by (simp add: balancedBatchSize_def not_le [symmetric])

lemma balancedBatchSize_le:
  assumes "0 < bs"
  shows "balancedBatchSize n bs \<le> bs"
proof -
  have "n \<le> taskCount n bs * bs"
    using ceil_le [OF assms, of n "taskCount n bs"] by (auto simp: taskCount_def Let_def)
  then show ?thesis
    using ceil_le [of "taskCount n bs" n bs] taskCount_ge [of n bs]
    by (simp add: balancedBatchSize_def mult.commute)
qed

lemma chunk_count:
  assumes "0 < k" shows "int (length (chunks (nat k) xs)) = (int (length xs) + k - 1) div k"
  using assms by (simp add: length_chunks nat_eq_iff zdiv_int of_nat_diff) 

text \<open>
  The fan-out plan. In a room at or above the threshold the batches are a partition of the
  room's clients in order, none is empty or larger than the configured batch size, there are at least
  two of them (for two or more clients), and no more than the computed task count; for 2000 members
  and batches of 200 that is at most 10.
\<close>

lemma fanout_plan:
  assumes "hub_fanoutThreshold h \<le> int (length clients)" "clients \<noteq> []" "0 < hub_fanoutBatchSize h"
  shows "concat (dispatch_plan h clients) = clients
    \<and> (\<forall>b \<in> set (dispatch_plan h clients). b \<noteq> [] \<and> int (length b) \<le> hub_fanoutBatchSize h)
    \<and> (2 \<le> length clients \<longrightarrow> 2 \<le> length (dispatch_plan h clients))
    \<and> int (length (dispatch_plan h clients)) \<le> taskCount (int (length clients)) (hub_fanoutBatchSize h)
    \<and> (length clients \<le> 2000 \<and> hub_fanoutBatchSize h = 200 \<longrightarrow> length (dispatch_plan h clients) \<le> 10)"
proof -
  let ?n = "int (length clients)" and ?bs = "hub_fanoutBatchSize h"
  let ?k = "balancedBatchSize ?n ?bs" and ?t = "taskCount ?n ?bs"
  have n: "0 < ?n" using assms(2) by simp
  have k: "0 < ?k" "?k \<le> ?bs" using balancedBatchSize_pos [OF n] balancedBatchSize_le [OF assms(3)] by auto
  have plan: "dispatch_plan h clients = chunks (nat ?k) clients" using assms(1) by (simp add: dispatch_plan_def)
  have count: "int (length (dispatch_plan h clients)) = (?n + ?k - 1) div ?k"
    unfolding plan by (rule chunk_count [OF k(1)])
  have "?n \<le> ?k * ?t" using ceil_le [of ?t ?n ?k] taskCount_ge [of ?n ?bs] by (simp add: balancedBatchSize_def)
  then have upper: "(?n + ?k - 1) div ?k \<le> ?t" using ceil_le [OF k(1), of ?n ?t] by (simp add: mult.commute)
  have "?k < ?n" if "2 \<le> ?n"
  proof -
    have "?n \<le> (?n - 1) * ?t"
      using mult_left_mono [OF taskCount_ge [of ?n ?bs], of "?n - 1"] that n by simp
    then have "?k \<le> ?n - 1"
      using ceil_le [of ?t ?n "?n - 1"] taskCount_ge [of ?n ?bs] by (simp add: balancedBatchSize_def)
    then show ?thesis by simp
  qed
  then have two: "2 \<le> (?n + ?k - 1) div ?k" if "2 \<le> ?n"
    using ceil_le [OF k(1), of ?n 1] that by (simp add: not_le [symmetric])
  have ten: "?t \<le> 10" if "length clients \<le> 2000" "?bs = 200"
    using that ceil_le [of 200 ?n 10] by (simp add: taskCount_def Let_def)
  have size: "b \<noteq> [] \<and> int (length b) \<le> ?bs" if "b \<in> set (dispatch_plan h clients)" for b
    using chunks_bounds [of b "nat ?k" clients] that k by (auto simp: plan)
  have "concat (dispatch_plan h clients) = clients" using concat_chunks [of "nat ?k" clients] k by (simp add: plan)
  with size count upper two ten show ?thesis by fastforce
qed

section \<open>Dispatch\<close>

lemma interleaves_mset: "interleaves tasks order \<Longrightarrow> mset order = mset (concat tasks)"
proof (induction rule: interleaves.induct)
  case (finished tasks)
  then have "concat tasks = []" by simp
  then show ?case by simp
next
  case (pick i tasks x rest order)
  have split: "tasks = take i tasks @ (x # rest) # drop (Suc i) tasks"
    using pick(1,2) by (metis id_take_nth_drop)
  have "tasks[i := rest] = take i tasks @ rest # drop (Suc i) tasks"
    using pick(1) by (rule upd_conv_take_nth_drop)
  with pick(4) have "mset order = mset (concat (take i tasks @ rest # drop (Suc i) tasks))" by simp
  moreover have "mset (concat tasks) = mset (concat (take i tasks @ (x # rest) # drop (Suc i) tasks))"
    using split by simp
  ultimately show ?case by simp
qed

lemma requestEvict_frame:
  assumes "hub_shape h"
  shows "hub_shape (requestEvict c h)" "users (requestEvict c h) = users h"
    "members (requestEvict c h) = members h" "get_client c' (requestEvict c h) = get_client c' h"
    "length (hub_shards (requestEvict c h)) = length (hub_shards h)"
    "sh_forward (hub_shards (requestEvict c h) ! i) = sh_forward (hub_shards h ! i)"
    "hub_fanoutThreshold (requestEvict c h) = hub_fanoutThreshold h"
    "hub_fanoutBatchSize (requestEvict c h) = hub_fanoutBatchSize h"
proof -
  have fwd: "sh_forward (hub_shards (upd_shard k (\<lambda>s. s\<lparr>sh_killClient := f s\<rparr>) h) ! i)
    = sh_forward (hub_shards h ! i)" for k f
    by (cases "shard_index (length (hub_shards h)) k = i")
      (auto simp: upd_shard_def Let_def nth_list_update_neq hub_shapeD [OF assms])
  show "hub_shape (requestEvict c h)" "users (requestEvict c h) = users h"
    "members (requestEvict c h) = members h" "get_client c' (requestEvict c h) = get_client c' h"
    "length (hub_shards (requestEvict c h)) = length (hub_shards h)"
    "sh_forward (hub_shards (requestEvict c h) ! i) = sh_forward (hub_shards h ! i)"
    "hub_fanoutThreshold (requestEvict c h) = hub_fanoutThreshold h"
    "hub_fanoutBatchSize (requestEvict c h) = hub_fanoutBatchSize h"
    using assms
    by (auto simp: requestEvict_def fwd users_upd_shard fun_eq_iff members_alt shardFor_upd
        intro!: upd_shard_shape split: option.splits) (auto simp: shard_ok_def)
qed

text \<open>What a dispatch leaves alone.\<close>

definition same_hub :: "Hub \<Rightarrow> Hub \<Rightarrow> bool" where
  "same_hub h h' \<longleftrightarrow> hub_shape h' \<and> users h' = users h \<and> members h' = members h \<and>
     length (hub_shards h') = length (hub_shards h) \<and>
     (\<forall>i. sh_forward (hub_shards h' ! i) = sh_forward (hub_shards h ! i)) \<and>
     hub_fanoutThreshold h' = hub_fanoutThreshold h \<and> hub_fanoutBatchSize h' = hub_fanoutBatchSize h"

lemma same_hub_refl: "hub_shape h \<Longrightarrow> same_hub h h"
  by (simp add: same_hub_def)

lemma same_hub_trans: "same_hub h h' \<Longrightarrow> same_hub h' h'' \<Longrightarrow> same_hub h h''"
  by (simp add: same_hub_def)

lemma same_hub_set_client: "hub_shape h \<Longrightarrow> same_hub h (set_client c cl h)"
  by (simp add: same_hub_def) (simp add: set_client_def)

lemma same_hub_evict: "hub_shape h \<Longrightarrow> same_hub h (requestEvict c h)"
  by (simp add: same_hub_def requestEvict_frame)

definition accepts :: "string \<Rightarrow> time \<Rightarrow> Hub \<Rightarrow> nat \<Rightarrow> bool" where
  "accepts payload at h c = (case get_client c h of None \<Rightarrow> False | Some cl \<Rightarrow> fst (TrySend payload at cl))"

lemma send_one_effect:
  assumes "hub_shape h" "send_one payload at c (n, h) = (n', h')"
  shows "same_hub h h'" "n' = n + (if accepts payload at h c then 1 else 0)"
    "get_client c' h' = (if c' = c then map_option (\<lambda>cl. snd (TrySend payload at cl)) (get_client c' h)
       else get_client c' h)"
proof -
  have "same_hub h h' \<and> n' = n + (if accepts payload at h c then 1 else 0) \<and>
    get_client c' h' = (if c' = c then map_option (\<lambda>cl. snd (TrySend payload at cl)) (get_client c' h)
       else get_client c' h)"
  proof (cases "get_client c h")
    case None
    with assms show ?thesis by (auto simp: send_one_def accepts_def same_hub_refl)
  next
    case (Some cl)
    obtain b cl' where t: "TrySend payload at cl = (b, cl')" by force
    let ?h = "set_client c cl' h"
    have sh: "hub_shape ?h" using assms(1) by simp
    have s1: "same_hub h ?h" using assms(1) by (rule same_hub_set_client)
    have s2: "same_hub ?h (requestEvict c ?h)" using sh by (rule same_hub_evict)
    show ?thesis
      using assms(2) Some t s1 same_hub_trans [OF s1 s2] requestEvict_frame(4) [OF sh, where c = c and c' = c']
      by (cases b) (auto simp: send_one_def accepts_def)
  qed
  then show "same_hub h h'" "n' = n + (if accepts payload at h c then 1 else 0)"
    "get_client c' h' = (if c' = c then map_option (\<lambda>cl. snd (TrySend payload at cl)) (get_client c' h)
       else get_client c' h)" by auto
qed

lemma send_all_effect:
  assumes "hub_shape h" "distinct order" "fold (send_one payload at) order (n, h) = (n', h')"
  shows "same_hub h h' \<and> n' = n + length (filter (accepts payload at h) order) \<and>
    get_client c h' = (if c \<in> set order then map_option (\<lambda>cl. snd (TrySend payload at cl)) (get_client c h)
       else get_client c h)"
  using assms
proof (induction order arbitrary: n h)
  case Nil
  then show ?case by (simp add: same_hub_refl)
next
  case (Cons x order)
  obtain n1 h1 where one: "send_one payload at x (n, h) = (n1, h1)" by force
  note e = send_one_effect [OF Cons.prems(1) one]
  have "hub_shape h1" using e(1) by (simp add: same_hub_def)
  with Cons.IH [of h1 n1] Cons.prems one have ih: "same_hub h1 h'"
    "n' = n1 + length (filter (accepts payload at h1) order)"
    "get_client c h' = (if c \<in> set order then map_option (\<lambda>cl. snd (TrySend payload at cl)) (get_client c h1)
       else get_client c h1)" by auto
  have "filter (accepts payload at h1) order = filter (accepts payload at h) order"
    using Cons.prems(2) e(3) by (intro filter_cong) (auto simp: accepts_def)
  with ih e Cons.prems(2) same_hub_trans [OF e(1) ih(1)] show ?case by auto
qed

lemma room_clients_distinct: "hub_shape h \<Longrightarrow> distinct (room_clients r h)"
  using shard_ok_at [of h r]
  by (auto simp: room_clients_def shard_ok_def gm.keys_law(2) split: option.splits)

lemma dispatch_order:
  assumes "hub_shape h" "interleaves (dispatch_plan h (room_clients r h)) order" "0 < hub_fanoutBatchSize h"
  shows "distinct order" "set order = members h r"
proof -
  have "concat (dispatch_plan h (room_clients r h)) = room_clients r h"
  proof (cases "room_clients r h = [] \<or> int (length (room_clients r h)) < hub_fanoutThreshold h")
    case True
    then show ?thesis by (auto simp: dispatch_plan_def chunks.simps [of _ "[]"])
  next
    case False
    with fanout_plan [of h "room_clients r h"] assms(3) show ?thesis by simp
  qed
  with interleaves_mset [OF assms(2)] have "mset order = mset (room_clients r h)" by simp
  with room_clients_distinct [OF assms(1)] show "distinct order" "set order = members h r"
    by (metis mset_eq_imp_distinct_iff, metis mset_eq_setD members_def)
qed

text \<open>A client's queue, and whether it takes another message.\<close>

definition queue :: "Client \<Rightarrow> OutboundMessage list" where
  "queue cl = (case cl_Send cl of None \<Rightarrow> [] | Some ch \<Rightarrow> ch_buf ch)"

definition can_receive :: "Client \<Rightarrow> bool" where
  "can_receive cl = (case cl_Send cl of None \<Rightarrow> False
     | Some ch \<Rightarrow> \<not> cl_sendClosed cl \<and> length (ch_buf ch) < ch_cap ch)"

lemma TrySend_effect:
  assumes "client_ok cl"
  shows "fst (TrySend p at cl) = can_receive cl"
    "queue (snd (TrySend p at cl)) =
       queue cl @ (if can_receive cl then [\<lparr>om_Payload = p, om_GatewayArrivedAt = at\<rparr>] else [])"
    "client_ok (snd (TrySend p at cl))"
    "snd (TrySend p at cl) = cl\<lparr>cl_Send := cl_Send (snd (TrySend p at cl))\<rparr>"
    "map_option ch_cap (cl_Send (snd (TrySend p at cl))) = map_option ch_cap (cl_Send cl)"
  using assms
  by (auto simp: TrySend_def can_receive_def queue_def client_ok_def chan_try_send_def chan_ok_def
      in_room_def split: option.splits)

text \<open>
  C9: a dispatch reaches every member of the room exactly once and nobody else, whatever the order
  in which the concurrent batches run: a member whose queue has room gets the message at its end, every
  other queue is unchanged, no closed channel is written, and the reported number is the number of
  clients that took it. The membership is not changed.
\<close>

theorem dispatch_exactly_once:
  assumes "hub_shape h" "0 < hub_fanoutBatchSize h"
    and "interleaves (dispatch_plan h (room_clients (msg_RoomID msg) h)) order"
    and "\<forall>c cl. get_client c h = Some cl \<longrightarrow> client_ok cl"
    and "dispatchMessage order msg payload h = (n, h')"
  shows "(\<forall>c cl. get_client c h = Some cl \<longrightarrow>
       (\<exists>cl'. get_client c h' = Some cl' \<and> client_ok cl' \<and> cl' = cl\<lparr>cl_Send := cl_Send cl'\<rparr> \<and>
          queue cl' = queue cl @ (if c \<in> members h (msg_RoomID msg) \<and> can_receive cl
            then [\<lparr>om_Payload = payload, om_GatewayArrivedAt = msg_CreatedAt msg\<rparr>] else [])))
    \<and> users h' = users h \<and> members h' = members h
    \<and> n = card {c \<in> members h (msg_RoomID msg). \<exists>cl. get_client c h = Some cl \<and> can_receive cl}"
proof -
  note ord = dispatch_order [OF assms(1,3,2)]
  note eff = send_all_effect [OF assms(1) ord(1), of payload "msg_CreatedAt msg" 0 n h']
  have run: "fold (send_one payload (msg_CreatedAt msg)) order (0, h) = (n, h')"
    using assms(5) by (simp add: dispatchMessage_def)
  have acc: "accepts payload (msg_CreatedAt msg) h c \<longleftrightarrow> (\<exists>cl. get_client c h = Some cl \<and> can_receive cl)" for c
    using assms(4) TrySend_effect(1) by (auto simp: accepts_def split: option.splits)
  have "n = card (set (filter (accepts payload (msg_CreatedAt msg) h) order))"
  proof -
    have "n = length (filter (accepts payload (msg_CreatedAt msg) h) order)" using eff [OF run] by simp
    also have "\<dots> = card (set (filter (accepts payload (msg_CreatedAt msg) h) order))"
      by (rule distinct_card [OF distinct_filter [OF ord(1)], symmetric])
    finally show ?thesis .
  qed
  also have "set (filter (accepts payload (msg_CreatedAt msg) h) order) =
      {c \<in> members h (msg_RoomID msg). \<exists>cl. get_client c h = Some cl \<and> can_receive cl}"
    using ord(2) acc by auto
  finally have n: "n = card {c \<in> members h (msg_RoomID msg). \<exists>cl. get_client c h = Some cl \<and> can_receive cl}" .
  have "\<exists>cl'. get_client c h' = Some cl' \<and> client_ok cl' \<and> cl' = cl\<lparr>cl_Send := cl_Send cl'\<rparr> \<and>
      queue cl' = queue cl @ (if c \<in> members h (msg_RoomID msg) \<and> can_receive cl
        then [\<lparr>om_Payload = payload, om_GatewayArrivedAt = msg_CreatedAt msg\<rparr>] else [])"
    if c: "get_client c h = Some cl" for c cl
  proof (cases "c \<in> members h (msg_RoomID msg)")
    case True
    have "client_ok cl" using assms(4) c by blast
    note t = TrySend_effect [OF this, of payload "msg_CreatedAt msg"]
    have "get_client c h' = Some (snd (TrySend payload (msg_CreatedAt msg) cl))"
      using eff [OF run, of c] c True ord(2) by simp
    with t(2,3,4) True show ?thesis by auto
  next
    case False
    with eff [OF run, of c] c ord(2) have "get_client c h' = Some cl" by simp
    with False assms(4) c show ?thesis by auto
  qed
  with n eff [OF run] show ?thesis by (auto simp: same_hub_def)
qed

section \<open>The shard loop\<close>

lemma forward_frame:
  assumes "hub_shape h" "shard_index (length (hub_shards h)) r = i"
    and "h1 = h\<lparr>hub_shards := (hub_shards h)[i := (hub_shards h ! i)\<lparr>sh_forward := ch\<rparr>]\<rparr>"
  shows "hub_shape h1" "members h1 = members h" "get_client c h1 = get_client c h"
    "hub_fanoutThreshold h1 = hub_fanoutThreshold h" "hub_fanoutBatchSize h1 = hub_fanoutBatchSize h"
    "length (hub_shards h1) = length (hub_shards h)" "sh_forward (hub_shards h1 ! i) = ch"
    "clients_of i r h1 = room_clients r h"
proof -
  have h1: "h1 = upd_shard r (\<lambda>s. s\<lparr>sh_forward := ch\<rparr>) h"
    using assms(2,3) by (simp add: upd_shard_def Let_def)
  have i: "i < length (hub_shards h)" using hub_shapeD [OF assms(1), of r] assms(2) by simp
  show "hub_shape h1" unfolding h1 by (rule upd_shard_shape [OF assms(1)]) (simp add: shard_ok_def)
  show "members h1 = members h" unfolding h1 by (auto simp: fun_eq_iff members_alt shardFor_upd [OF assms(1)])
  show "get_client c h1 = get_client c h" "hub_fanoutThreshold h1 = hub_fanoutThreshold h"
    "hub_fanoutBatchSize h1 = hub_fanoutBatchSize h" "length (hub_shards h1) = length (hub_shards h)"
    unfolding h1 by simp_all
  show "sh_forward (hub_shards h1 ! i) = ch" "clients_of i r h1 = room_clients r h"
    using i assms(2,3) by (simp_all add: clients_of_def room_clients_def shardFor_def)
qed

lemma shard_forward_effect:
  assumes "hub_shape h" "0 < hub_fanoutBatchSize h" "\<forall>cs. interleaves (dispatch_plan h cs) (sched cs)"
    and "ch_buf (sh_forward (hub_shards h ! i)) = m # ms" "enc m = Some p"
    and "shard_index (length (hub_shards h)) (msg_RoomID m) = i"
    and "h' = shard_forward enc sched i h"
  shows "hub_shape h'" "members h' = members h" "hub_fanoutBatchSize h' = hub_fanoutBatchSize h"
    "hub_fanoutThreshold h' = hub_fanoutThreshold h"
    "length (hub_shards h') = length (hub_shards h)" "ch_buf (sh_forward (hub_shards h' ! i)) = ms"
    "get_client c h' = (if c \<in> members h (msg_RoomID m)
       then map_option (\<lambda>cl. snd (TrySend p (msg_CreatedAt m) cl)) (get_client c h) else get_client c h)"
proof -
  let ?ch = "(sh_forward (hub_shards h ! i))\<lparr>ch_buf := ms\<rparr>"
  define h1 where "h1 = h\<lparr>hub_shards := (hub_shards h)[i := (hub_shards h ! i)\<lparr>sh_forward := ?ch\<rparr>]\<rparr>"
  note f = forward_frame [OF assms(1,6) h1_def]
  define order where "order = sched (room_clients (msg_RoomID m) h)"
  have h': "h' = snd (fold (send_one p (msg_CreatedAt m)) order (0, h1))"
    using assms(4,5,7) f(8)
    by (simp add: shard_forward_def chan_recv_def dispatchMessage_def order_def h1_def Let_def)
  have "interleaves (dispatch_plan h (room_clients (msg_RoomID m) h)) order"
    using assms(3) by (simp add: order_def)
  from dispatch_order [OF assms(1) this assms(2)] have ord: "distinct order" "set order = members h (msg_RoomID m)"
    by auto
  obtain n where run: "fold (send_one p (msg_CreatedAt m)) order (0, h1) = (n, h')"
    using h' by (metis prod.collapse)
  from send_all_effect [OF f(1) ord(1) run]
  show "hub_shape h'" "members h' = members h" "hub_fanoutBatchSize h' = hub_fanoutBatchSize h"
    "hub_fanoutThreshold h' = hub_fanoutThreshold h"
    "length (hub_shards h') = length (hub_shards h)" "ch_buf (sh_forward (hub_shards h' ! i)) = ms"
    "get_client c h' = (if c \<in> members h (msg_RoomID m)
       then map_option (\<lambda>cl. snd (TrySend p (msg_CreatedAt m) cl)) (get_client c h) else get_client c h)"
    using f ord(2) by (auto simp: same_hub_def)
qed

lemma dispatch_plan_cong:
  "hub_fanoutThreshold h' = hub_fanoutThreshold h \<Longrightarrow> hub_fanoutBatchSize h' = hub_fanoutBatchSize h \<Longrightarrow>
     dispatch_plan h' = dispatch_plan h"
  by (auto simp: dispatch_plan_def fun_eq_iff)

definition room_left :: "Client \<Rightarrow> nat" where
  "room_left cl = (case cl_Send cl of None \<Rightarrow> 0
     | Some ch \<Rightarrow> if cl_sendClosed cl then 0 else ch_cap ch - length (ch_buf ch))"

lemma room_left_TrySend:
  assumes "client_ok cl" "Suc n \<le> room_left cl"
  shows "can_receive cl" "n \<le> room_left (snd (TrySend p at cl))"
  using assms
  by (auto simp: room_left_def can_receive_def TrySend_def chan_try_send_def client_ok_def
      split: option.splits if_splits)

text \<open>
  C10: delivery is in order. Let a shard work off the messages waiting in its channel (every message
  can be encoded and belongs to the shard, as \<open>Publish\<close> ensures). The queue of a client with enough
  space then ends with exactly the messages of its rooms, in the order in which they were published,
  for any scheduling of the fan-out tasks.
\<close>

theorem forward_fifo:
  assumes "hub_shape h" "0 < hub_fanoutBatchSize h" "\<forall>cs. interleaves (dispatch_plan h cs) (sched cs)"
    and "ch_buf (sh_forward (hub_shards h ! i)) = ms"
    and "\<forall>m \<in> set ms. enc m \<noteq> None \<and> shard_index (length (hub_shards h)) (msg_RoomID m) = i"
    and "get_client c h = Some cl" "client_ok cl" "length ms \<le> room_left cl"
  shows "\<exists>cl'. get_client c ((shard_forward enc sched i ^^ length ms) h) = Some cl' \<and>
    queue cl' = queue cl @ map (\<lambda>m. \<lparr>om_Payload = the (enc m), om_GatewayArrivedAt = msg_CreatedAt m\<rparr>)
      (filter (\<lambda>m. c \<in> members h (msg_RoomID m)) ms)"
  using assms
proof (induction ms arbitrary: h cl)
  case Nil
  then show ?case by simp
next
  case (Cons m ms)
  define h1 where "h1 = shard_forward enc sched i h"
  obtain p where p: "enc m = Some p" using Cons.prems(5) by auto
  have idx: "shard_index (length (hub_shards h)) (msg_RoomID m) = i" using Cons.prems(5) by simp
  note f = shard_forward_effect [OF Cons.prems(1,2,3,4) p idx h1_def]
  define cl1 where "cl1 = (if c \<in> members h (msg_RoomID m) then snd (TrySend p (msg_CreatedAt m) cl) else cl)"
  have c1: "get_client c h1 = Some cl1" using f(7) [of c] Cons.prems(6) by (simp add: cl1_def)
  have room: "Suc (length ms) \<le> room_left cl" using Cons.prems(8) by simp
  note t = TrySend_effect [OF Cons.prems(7), of p "msg_CreatedAt m"]
  have cl1: "client_ok cl1" "length ms \<le> room_left cl1"
    "queue cl1 = queue cl @ (if c \<in> members h (msg_RoomID m)
       then [\<lparr>om_Payload = p, om_GatewayArrivedAt = msg_CreatedAt m\<rparr>] else [])"
    using Cons.prems(7) room t(2,3) room_left_TrySend [OF Cons.prems(7) room] by (auto simp: cl1_def)
  have "\<forall>cs. interleaves (dispatch_plan h1 cs) (sched cs)"
    using Cons.prems(3) dispatch_plan_cong [OF f(4,3)] by simp
  from Cons.IH [OF f(1) _ this f(6) _ c1 cl1(1,2)] Cons.prems(2,5) f(2,3,5)
  obtain cl' where "get_client c ((shard_forward enc sched i ^^ length ms) h1) = Some cl'"
    "queue cl' = queue cl1 @ map (\<lambda>m. \<lparr>om_Payload = the (enc m), om_GatewayArrivedAt = msg_CreatedAt m\<rparr>)
      (filter (\<lambda>m. c \<in> members h (msg_RoomID m)) ms)" by auto
  with cl1(3) p show ?case by (simp add: h1_def funpow_swap1)
qed

section \<open>Witnesses\<close>

definition sample_hub :: Hub where
  "sample_hub = (fold run_op
     [OConnect 0 (new_client 7 ''c0'' [] [] [] 0), OConnect 1 (new_client 8 ''c1'' [] [] [] 0),
      ORegister 0 [1, 2], ORegister 1 [2]] (NewHubWithShards 2 [] []))
        \<lparr>hub_fanoutThreshold := 2, hub_fanoutBatchSize := 1\<rparr>"

lemma configured [simp]:
  "hub_shape (h\<lparr>hub_fanoutThreshold := t, hub_fanoutBatchSize := b\<rparr>) = hub_shape h"
  "flat_of (h\<lparr>hub_fanoutThreshold := t, hub_fanoutBatchSize := b\<rparr>) = flat_of h"
  by (simp_all add: hub_shape_def flat_of_def users_def clientByUser_def members_def room_clients_def
      shardFor_def get_client_def fun_eq_iff)

definition sample_message :: "int \<Rightarrow> Message" where
  "sample_message r = \<lparr>msg_ID = 1, msg_RoomSeq = 1, msg_RoomID = r, msg_SenderID = 7, msg_ClientMsgID = ''a'',
     msg_Type = 1, msg_Content = ''hi'', msg_CreatedAt = 5, msg_DeletedAt = 0\<rparr>"

lemma sample_hub_shape: "hub_shape sample_hub"
  unfolding sample_hub_def configured using run_ops_flat [OF NewHub_shape] by blast

lemma sample_hub_params: "hub_fanoutThreshold sample_hub = 2" "hub_fanoutBatchSize sample_hub = 1"
    "room_clients 2 sample_hub = [0, 1]"
  by code_simp+

lemma sample_plan: "dispatch_plan sample_hub (room_clients 2 sample_hub) = [[0], [1]]"
  by code_simp

lemma fanout_plan_example:
  "concat (dispatch_plan sample_hub [0, 1]) = [0, 1] \<and> 2 \<le> length (dispatch_plan sample_hub [0, 1])"
  using fanout_plan [of sample_hub "[0, 1]"] sample_hub_params by simp

lemma sample_order: "interleaves [[0], [1]] [1, 0 :: nat]"
  by (rule interleaves.pick [of 1 _ _ "[]"], simp, simp, rule interleaves.pick [of 0 _ _ "[]"])
    (auto intro: interleaves.finished)

lemma sample_clients_ok: "\<forall>c cl. get_client c sample_hub = Some cl \<longrightarrow> client_ok cl"
proof -
  have "allowed [OConnect 0 (new_client 7 ''c0'' [] [] [] 0), OConnect 1 (new_client 8 ''c1'' [] [] [] 0),
      ORegister 0 [1, 2], ORegister 1 [2]] \<lparr>fl_users = Map.empty, fl_rooms = (\<lambda>_. {}), fl_clients = Map.empty\<rparr>"
    by (simp add: fresh_client_def new_client_def RoomIDs_def flat_set_def)
  from flat_ops_consistent [OF empty_consistent this] run_ops_flat [OF NewHub_shape]
  have "consistent (flat_of sample_hub)" by (simp add: sample_hub_def NewHub_flat del: fold.simps)
  then show ?thesis by (simp add: consistent_def clients_match_def)
qed

theorem dispatch_exactly_once_witness:
  "\<exists>n h'. dispatchMessage [1, 0] (sample_message 2) ''p'' sample_hub = (n, h') \<and>
     n = card {c \<in> members sample_hub 2. \<exists>cl. get_client c sample_hub = Some cl \<and> can_receive cl} \<and>
     members h' = members sample_hub"
proof -
  obtain n h' where d: "dispatchMessage [1, 0] (sample_message 2) ''p'' sample_hub = (n, h')" by force
  have "interleaves (dispatch_plan sample_hub (room_clients (msg_RoomID (sample_message 2)) sample_hub)) [1, 0]"
    using sample_order sample_plan by (simp add: sample_message_def)
  from dispatch_exactly_once [OF sample_hub_shape _ this sample_clients_ok d] sample_hub_params d
  show ?thesis by (simp add: sample_message_def)
qed

text \<open>Running the batches one after the other is one of the interleavings.\<close>

lemma interleaves_tail: "interleaves tasks order \<Longrightarrow> interleaves (xs # tasks) (xs @ order)"
proof (induction xs)
  case Nil
  from Nil show ?case
  proof (induction rule: interleaves.induct)
    case (finished tasks)
    then show ?case by (simp add: interleaves.finished)
  next
    case (pick i tasks x rest order)
    then show ?case by (auto intro: interleaves.pick [of "Suc i"])
  qed
next
  case (Cons x xs)
  then show ?case by (auto intro: interleaves.pick [of 0])
qed

lemma interleaves_concat: "interleaves tasks (concat tasks)"
  by (induction tasks) (auto intro: interleaves.finished interleaves_tail)

lemma Publish_frame:
  assumes "hub_shape h"
  shows "hub_shape (Publish m h)" "members (Publish m h) = members h"
    "get_client c (Publish m h) = get_client c h" "hub_fanoutBatchSize (Publish m h) = hub_fanoutBatchSize h"
    "length (hub_shards (Publish m h)) = length (hub_shards h)"
    "sh_forward (shardFor (msg_RoomID m) (Publish m h)) = snd (chan_try_send m (sh_forward (shardFor (msg_RoomID m) h)))"
  using assms
  by (auto simp: Publish_def fun_eq_iff members_alt shardFor_upd intro!: upd_shard_shape) (auto simp: shard_ok_def)

definition sample_published :: Hub where
  "sample_published = Publish (sample_message 2) sample_hub"

lemma sample_published_facts:
  "ch_buf (sh_forward (hub_shards sample_published ! 0)) = [sample_message 2]"
  "get_client 0 sample_published \<noteq> None"
  "1 \<le> room_left (the (get_client 0 sample_published))"
  by code_simp+

theorem forward_fifo_witness:
  "\<exists>cl'. get_client 0 ((shard_forward (\<lambda>_. Some ''p'') (\<lambda>cs. concat (dispatch_plan sample_published cs)) 0
       ^^ length [sample_message 2]) sample_published) = Some cl' \<and>
     queue cl' = queue (the (get_client 0 sample_published)) @
       map (\<lambda>m. \<lparr>om_Payload = the (Some ''p''), om_GatewayArrivedAt = msg_CreatedAt m\<rparr>)
         (filter (\<lambda>m. 0 \<in> members sample_published (msg_RoomID m)) [sample_message 2])"
proof (rule forward_fifo)
  note f = Publish_frame [OF sample_hub_shape, where m = "sample_message 2"]
  show "hub_shape sample_published" using f(1) by (simp add: sample_published_def)
  show "0 < hub_fanoutBatchSize sample_published"
    using f(4) sample_hub_params by (simp add: sample_published_def)
  show "\<forall>cs. interleaves (dispatch_plan sample_published cs) (concat (dispatch_plan sample_published cs))"
    by (simp add: interleaves_concat)
  show "ch_buf (sh_forward (hub_shards sample_published ! 0)) = [sample_message 2]"
    by (rule sample_published_facts)
  have "length (hub_shards sample_hub) = 2" by code_simp
  then show "\<forall>m \<in> set [sample_message 2]. Some ''p'' \<noteq> None \<and>
      shard_index (length (hub_shards sample_published)) (msg_RoomID m) = 0"
    using f(5) by (simp add: sample_published_def sample_message_def shard_index_def to_uint64_def)
  show c: "get_client 0 sample_published = Some (the (get_client 0 sample_published))"
    using sample_published_facts(2) by auto
  show "client_ok (the (get_client 0 sample_published))"
    using c f(3) [where c = 0] sample_clients_ok by (simp add: sample_published_def)
  show "length [sample_message 2] \<le> room_left (the (get_client 0 sample_published))"
    using sample_published_facts(3) by simp
qed

end
