(* ===== verification/HubRaces.thy ===== *)
theory HubRaces
  imports HubSpec
begin

text \<open>
  The hub under concurrency. \<open>JoinRoom\<close>, \<open>LeaveRoom\<close> and \<open>DisbandRoom\<close> are not one critical section:
  the first two look the client up and then lock it, the last one empties the room under the shard
  lock and then visits the clients it found. \<open>race_step\<close> interleaves these sections with each other
  and with the operations that run under one client lock; a state is the hub and the sections still
  to come.
\<close>

datatype pending = PJoin nat int | PLeave nat int | PDisband int "nat list"

type_synonym race = "Hub \<times> pending list"

fun one_section :: "hub_op \<Rightarrow> bool" where
  "one_section (OJoin u r) = False"
| "one_section (OLeave u r) = False"
| "one_section (ODisband r) = False"
| "one_section op = True"

inductive race_step :: "race \<Rightarrow> race \<Rightarrow> bool" where
  whole: "one_section op \<Longrightarrow> op_allowed op (flat_of h) \<Longrightarrow> race_step (h, P) (run_op op h, P)"
| join_lookup: "clientByUser u h = Some c \<Longrightarrow> race_step (h, P) (h, PJoin c r # P)"
| join_apply: "race_step (h, P @ PJoin c r # Q) (join_client c r h, P @ Q)"
| leave_lookup: "clientByUser u h = Some c \<Longrightarrow> race_step (h, P) (h, PLeave c r # P)"
| leave_apply: "race_step (h, P @ PLeave c r # Q) (leave_client c r h, P @ Q)"
| disband_begin: "disband_shard r h = (cs, h') \<Longrightarrow> race_step (h, P) (h', PDisband r cs # P)"
| disband_next: "race_step (h, P @ PDisband r (c # cs) # Q) (disband_client r c h, P @ PDisband r cs # Q)"
| disband_end: "race_step (h, P @ PDisband r [] # Q) (h, P @ Q)"

definition race_start :: "int \<Rightarrow> string \<Rightarrow> string \<Rightarrow> race" where
  "race_start n t b = (NewHubWithShards n t b, [])"

definition reachable :: "race \<Rightarrow> race \<Rightarrow> bool" where
  "reachable = race_step\<^sup>*\<^sup>*"

section \<open>What survives every interleaving\<close>

definition to_disband :: "pending list \<Rightarrow> int \<Rightarrow> nat \<Rightarrow> bool" where
  "to_disband P r c \<longleftrightarrow> (\<exists>cs. PDisband r cs \<in> set P \<and> c \<in> set cs)"

text \<open>A subscribed client is indexed, unless a disband of that room has still to visit it.\<close>

definition subscribed_indexed :: "flat \<Rightarrow> pending list \<Rightarrow> bool" where
  "subscribed_indexed f P \<longleftrightarrow> (\<forall>c cl r. fl_clients f c = Some cl \<longrightarrow> cl_active cl \<longrightarrow> in_room cl r \<longrightarrow>
     c \<in> fl_rooms f r \<or> to_disband P r c)"

definition race_inv :: "race \<Rightarrow> bool" where
  "race_inv s \<longleftrightarrow> hub_shape (fst s) \<and> users_match (flat_of (fst s)) \<and> clients_match (flat_of (fst s)) \<and>
     subscribed_indexed (flat_of (fst s)) (snd s)"

lemma to_disband_simps [simp]:
  "to_disband (P @ Q) r c \<longleftrightarrow> to_disband P r c \<or> to_disband Q r c"
  "to_disband (PJoin c' r' # P) r c \<longleftrightarrow> to_disband P r c"
  "to_disband (PLeave c' r' # P) r c \<longleftrightarrow> to_disband P r c"
  "to_disband (PDisband r' cs # P) r c \<longleftrightarrow> r = r' \<and> c \<in> set cs \<or> to_disband P r c"
  by (auto simp: to_disband_def)

lemma in_room_map_put:
  "in_room (cl\<lparr>cl_roomIDs := Some (map_put r () (case cl_roomIDs cl of None \<Rightarrow> [] | Some m \<Rightarrow> m))\<rparr>) r' \<longleftrightarrow>
     r' = r \<or> in_room cl r'"
  by (auto simp: in_room_def split: option.splits)

lemma flat_op_weak:
  assumes "users_match f" "clients_match f" "one_section op" "op_allowed op f"
  shows "users_match (flat_op op f)" "clients_match (flat_op op f)"
proof -
  let ?g = "f\<lparr>fl_rooms := (\<lambda>r. {c. \<exists>cl. fl_clients f c = Some cl \<and> cl_active cl \<and> in_room cl r})\<rparr>"
  have "consistent ?g" using assms(1,2) by (auto simp: consistent_def rooms_match_def users_match_def clients_match_def)
  moreover have "op_allowed op ?g" using assms(4) by (cases op) auto
  ultimately have "consistent (flat_op op ?g)" by (rule flat_op_consistent)
  moreover have "fl_users (flat_op op ?g) = fl_users (flat_op op f)"
    "fl_clients (flat_op op ?g) = fl_clients (flat_op op f)"
    using assms(3) by (cases op; auto simp: flat_set_def split: option.splits)+
  ultimately show "users_match (flat_op op f)" "clients_match (flat_op op f)"
    by (simp_all add: consistent_def users_match_def clients_match_def)
qed

lemma flat_op_indexed:
  assumes "subscribed_indexed f P" "one_section op" "op_allowed op f"
  shows "subscribed_indexed (flat_op op f) P"
  using assms unfolding subscribed_indexed_def
  by (cases op) (auto simp: flat_set_def fresh_client_def in_room_def split: option.splits if_splits)

lemma flat_join_weak:
  assumes "users_match f" "clients_match f" "subscribed_indexed f P"
  shows "users_match (flat_join c r f)" "clients_match (flat_join c r f)" "subscribed_indexed (flat_join c r f) P"
proof -
  have "users_match (flat_join c r f) \<and> clients_match (flat_join c r f) \<and> subscribed_indexed (flat_join c r f) P"
  proof (cases "\<exists>cl. fl_clients f c = Some cl \<and> cl_active cl \<and> \<not> in_room cl r")
    case False
    then have "flat_join c r f = f" by (auto simp: flat_join_def split: option.splits)
    with assms show ?thesis by simp
  next
    case True
    then obtain cl where cl: "fl_clients f c = Some cl" "cl_active cl" "\<not> in_room cl r" by blast
    have "subscribed_indexed (flat_join c r f) P"
      using assms(3) cl
      by (auto simp: subscribed_indexed_def flat_join_def flat_set_def in_room_map_put simp del: in_room_updates)
    with assms cl show ?thesis
      by (auto simp: flat_join_def clients_match_def flat_set_def client_ok_rooms intro!: users_match_set)
  qed
  then show "users_match (flat_join c r f)" "clients_match (flat_join c r f)"
    "subscribed_indexed (flat_join c r f) P" by auto
qed

lemma flat_leave_weak:
  assumes "users_match f" "clients_match f" "subscribed_indexed f P"
  shows "users_match (flat_leave c r f)" "clients_match (flat_leave c r f)" "subscribed_indexed (flat_leave c r f) P"
  using assms
  by (cases "fl_clients f c";
      force simp: flat_leave_def clients_match_def flat_set_def client_ok_rooms subscribed_indexed_def
        intro!: users_match_set)+

lemma disband_client_flat:
  assumes "hub_shape h"
  shows "hub_shape (disband_client r c h) \<and> flat_of (disband_client r c h) =
    (flat_of h)\<lparr>fl_clients := (fl_clients (flat_of h))(c := map_option (drop_room r) (get_client c h))\<rparr>"
  using assms by (auto simp: disband_client_def fun_eq_iff intro!: flat_eqI split: option.splits)

lemma race_step_inv:
  assumes "race_step s s'" "race_inv s"
  shows "race_inv s'"
  using assms
proof (induction rule: race_step.induct)
  case (whole op h P)
  then show ?case
    using run_op_flat [of h op] flat_op_weak [of "flat_of h" op] flat_op_indexed [of "flat_of h" P op]
    by (simp add: race_inv_def)
next
  case (join_lookup u h c P r)
  then show ?case by (simp add: race_inv_def subscribed_indexed_def)
next
  case (join_apply h P c r Q)
  then show ?case
    using join_client_flat [of h c r] flat_join_weak [of "flat_of h" "P @ Q" c r]
    by (simp add: race_inv_def subscribed_indexed_def)
next
  case (leave_lookup u h c P r)
  then show ?case by (simp add: race_inv_def subscribed_indexed_def)
next
  case (leave_apply h P c r Q)
  then show ?case
    using leave_client_flat [of h c r] flat_leave_weak [of "flat_of h" "P @ Q" c r]
    by (simp add: race_inv_def subscribed_indexed_def)
next
  case (disband_begin r h cs h' P)
  then have h: "hub_shape h" by (simp add: race_inv_def)
  note d = disband_shard_law [OF h, where r = r, unfolded disband_begin(1) fst_conv snd_conv]
  have "flat_of h' = (flat_of h)\<lparr>fl_rooms := (members h)(r := {})\<rparr>"
    using d by (auto simp: flat_of_def)
  with d disband_begin(2) show ?case
    by (auto simp: race_inv_def users_match_def clients_match_def subscribed_indexed_def)
next
  case (disband_next h P r c cs Q)
  then have h: "hub_shape h" by (simp add: race_inv_def)
  note d = disband_client_flat [OF h, of r c]
  have "users_match (flat_of (disband_client r c h))"
    using disband_next d by (fastforce simp: race_inv_def users_match_def)
  moreover have "clients_match (flat_of (disband_client r c h))"
    using disband_next d by (auto simp: race_inv_def clients_match_def client_ok_rooms)
  moreover have "subscribed_indexed (flat_of (disband_client r c h)) (P @ PDisband r cs # Q)"
    using disband_next d by (fastforce simp: race_inv_def subscribed_indexed_def)
  ultimately show ?case using d by (simp add: race_inv_def)
next
  case (disband_end h P r Q)
  then show ?case by (simp add: race_inv_def subscribed_indexed_def)
qed

lemma race_start_inv: "race_inv (race_start n t b)"
  using NewHub_shape [of n t b] NewHub_flat [of n t b] by (simp add: race_inv_def race_start_def match_defs subscribed_indexed_def)

lemma reachable_inv: "reachable (race_start n t b) s \<Longrightarrow> race_inv s"
  unfolding reachable_def by (induction rule: rtranclp_induct) (auto intro: race_start_inv race_step_inv)


section \<open>A leak\<close>

text \<open>
  The other direction fails. A client that leaves and joins again between the two phases of a disband
  ends in the index without the subscription, so its \<open>Unregister\<close> does not remove it: the room keeps
  a dead connection for good.
\<close>

definition race_client :: Hub where
  "race_client = fold run_op [OConnect 0 (new_client 7 ''c'' [] [] [] 0), ORegister 0 [5]] (NewHubWithShards 2 [] [])"

definition race_leak :: Hub where
  "race_leak = Unregister 0 (disband_client 5 0 (join_client 0 5 (leave_client 0 5 (snd (disband_shard 5 race_client)))))"

lemma reachable_step: "reachable s t \<Longrightarrow> race_step t u \<Longrightarrow> reachable s u"
  unfolding reachable_def by (rule rtranclp.rtrancl_into_rtrancl)

lemma race_client_reachable: "reachable (race_start 2 [] []) (race_client, [])"
proof -
  let ?h0 = "NewHubWithShards 2 [] []"
  let ?h1 = "run_op (OConnect 0 (new_client 7 ''c'' [] [] [] 0)) ?h0"
  have "reachable (race_start 2 [] []) (?h0, [])" by (simp add: reachable_def race_start_def)
  moreover have "race_step (?h0, []) (?h1, [])"
    by (rule race_step.whole) (simp_all add: fresh_client_def new_client_def)
  ultimately have "reachable (race_start 2 [] []) (?h1, [])" by (rule reachable_step)
  moreover have "race_step (?h1, []) (race_client, [])"
  proof -
    have "op_allowed (ORegister 0 [5]) (flat_of ?h1)"
      by (simp add: new_client_def split: option.splits) (simp add: get_client_def NewHubWithShards_def Let_def)
    from race_step.whole [OF _ this, of "[]"] show ?thesis by (simp add: race_client_def)
  qed
  ultimately show ?thesis by (rule reachable_step)
qed

lemma race_leak_reachable: "reachable (race_start 2 [] []) (race_leak, [])"
proof -
  let ?h3 = "snd (disband_shard 5 race_client)"
  let ?h4 = "leave_client 0 5 ?h3"
  let ?h5 = "join_client 0 5 ?h4"
  have "race_step (race_client, []) (?h3, [PDisband 5 [0]])"
  proof -
    have "disband_shard 5 race_client = ([0], ?h3)" by (rule prod_eqI) (simp_all, code_simp)
    from race_step.disband_begin [OF this] show ?thesis .
  qed
  moreover have "race_step (?h3, [PDisband 5 [0]]) (?h3, [PLeave 0 5, PDisband 5 [0]])"
    by (rule race_step.leave_lookup [of 7]) code_simp
  moreover have "race_step (?h3, [PLeave 0 5, PDisband 5 [0]]) (?h4, [PDisband 5 [0]])"
    using race_step.leave_apply [of ?h3 "[]" 0 5 "[PDisband 5 [0]]"] by simp
  moreover have "race_step (?h4, [PDisband 5 [0]]) (?h4, [PJoin 0 5, PDisband 5 [0]])"
    by (rule race_step.join_lookup [of 7]) code_simp
  moreover have "race_step (?h4, [PJoin 0 5, PDisband 5 [0]]) (?h5, [PDisband 5 [0]])"
    using race_step.join_apply [of ?h4 "[]" 0 5 "[PDisband 5 [0]]"] by simp
  moreover have "race_step (?h5, [PDisband 5 [0]]) (disband_client 5 0 ?h5, [PDisband 5 []])"
    using race_step.disband_next [of ?h5 "[]" 5 0 "[]" "[]"] by simp
  moreover have "race_step (disband_client 5 0 ?h5, [PDisband 5 []]) (disband_client 5 0 ?h5, [])"
    using race_step.disband_end [of "disband_client 5 0 ?h5" "[]" 5 "[]"] by simp
  moreover have "race_step (disband_client 5 0 ?h5, []) (race_leak, [])"
    using race_step.whole [of "OUnregister 0" "disband_client 5 0 ?h5" "[]"] by (simp add: race_leak_def)
  ultimately show ?thesis using race_client_reachable reachable_step by meson
qed

text \<open>
  C12: a reachable state of the hub, with no operation under way, in which the only connection is
  closed and unregistered but is still listed as a member of the room.
\<close>

theorem disband_race_leaks_member:
  "\<exists>h. reachable (race_start 2 [] []) (h, []) \<and> 0 \<in> members h 5 \<and>
     map_option cl_active (get_client 0 h) = Some False \<and> map_option cl_sendClosed (get_client 0 h) = Some True"
proof -
  have "0 \<in> members race_leak 5" "map_option cl_active (get_client 0 race_leak) = Some False"
    "map_option cl_sendClosed (get_client 0 race_leak) = Some True" by code_simp+
  with race_leak_reachable show ?thesis by blast
qed


end
