(* ===== verification/WritePump.thy ===== *)
theory WritePump
  imports Hub
begin

text \<open>
  The writer of a connection, \<open>WritePump\<close> of \<^verbatim>\<open>client.go\<close>: it takes messages from the client's channel,
  gathers them for at most a window of time, and writes them as one text frame with newlines between
  the payloads. The goroutine is a state machine; an event is one ready case of its \<^verbatim>\<open>select\<close> together
  with the result of the frame write that the case may make. Presence renewals on a ping are
  counted; metrics are left out.
\<close>

section \<open>The state machine\<close>

datatype frame = TextFrame string | CloseFrame | PingFrame

record pump =
  wp_batch :: "OutboundMessage list"
  wp_batchBytes :: int
  wp_timer :: bool
  wp_frames :: "frame list"
  wp_renewals :: nat
  wp_lastWrite :: time
  wp_stopped :: bool

datatype pump_event =
    Message OutboundMessage bool
  | SendClosed bool
  | FlushTick bool
  | PingTick bool

definition heartbeatEnabled :: "string option \<Rightarrow> (string \<Rightarrow> bool option) \<Rightarrow> bool" where
  "heartbeatEnabled raw parse_bool =
     (case raw of
        None \<Rightarrow> True
      | Some s \<Rightarrow> if s = [] then True else (case parse_bool s of None \<Rightarrow> True | Some b \<Rightarrow> b))"

definition writeBatchMaxMessages :: nat where
  "writeBatchMaxMessages = 64"

definition writeBatchMaxBytes :: int where
  "writeBatchMaxBytes = 64 * 1024"

definition newline :: char where
  "newline = CHR 0x0A"

definition pump_init :: pump where
  "pump_init = \<lparr>wp_batch = [], wp_batchBytes = 0, wp_timer = False, wp_frames = [], wp_renewals = 0,
     wp_lastWrite = 0, wp_stopped = False\<rparr>"

text \<open>\<open>flush\<close> returns whether it succeeded; a failed write leaves the batch as it was.\<close>

definition flush :: "time \<Rightarrow> bool \<Rightarrow> pump \<Rightarrow> bool \<times> pump" where
  "flush now ok w =
     (if wp_batch w = [] then (True, w)
      else if \<not> ok then (False, w)
      else (True, w\<lparr>wp_frames := wp_frames w @ [TextFrame (join_with newline (map om_Payload (wp_batch w)))],
                    wp_batch := [], wp_batchBytes := 0, wp_lastWrite := now\<rparr>))"

definition flush_or_stop :: "time \<Rightarrow> bool \<Rightarrow> pump \<Rightarrow> pump" where
  "flush_or_stop now ok w =
     (case flush now ok w of (True, w') \<Rightarrow> w' | (False, w') \<Rightarrow> w'\<lparr>wp_stopped := True\<rparr>)"

definition pump_step :: "time \<Rightarrow> pump_event \<Rightarrow> pump \<Rightarrow> pump" where
  "pump_step now e w =
     (if wp_stopped w then w
      else case e of
        SendClosed ok \<Rightarrow>
          (case flush now ok (w\<lparr>wp_timer := False\<rparr>) of
             (False, w') \<Rightarrow> w'\<lparr>wp_stopped := True\<rparr>
           | (True, w') \<Rightarrow> w'\<lparr>wp_frames := wp_frames w' @ [CloseFrame], wp_stopped := True\<rparr>)
      | Message m ok \<Rightarrow>
          (let w1 = w\<lparr>wp_batch := wp_batch w @ [m], wp_batchBytes := wp_batchBytes w + int (length (om_Payload m))\<rparr>;
               w2 = (if length (wp_batch w1) = 1 then w1\<lparr>wp_timer := True\<rparr> else w1)
           in if writeBatchMaxMessages \<le> length (wp_batch w2) \<or> writeBatchMaxBytes \<le> wp_batchBytes w2
              then flush_or_stop now ok (w2\<lparr>wp_timer := False\<rparr>)
              else w2)
      | FlushTick ok \<Rightarrow>
          if wp_timer w then flush_or_stop now ok (w\<lparr>wp_timer := False\<rparr>) else w
      | PingTick ok \<Rightarrow>
          if ok then w\<lparr>wp_frames := wp_frames w @ [PingFrame], wp_renewals := Suc (wp_renewals w)\<rparr>
          else w\<lparr>wp_stopped := True\<rparr>)"

fun pump_run :: "(time \<times> pump_event) list \<Rightarrow> pump \<Rightarrow> pump" where
  "pump_run [] w = w"
| "pump_run ((now, e) # es) w = pump_run es (pump_step now e w)"

text \<open>The messages that the pump takes from the channel: those that arrive while it runs.\<close>

fun taken :: "(time \<times> pump_event) list \<Rightarrow> pump \<Rightarrow> OutboundMessage list" where
  "taken [] w = []"
| "taken ((now, e) # es) w =
     (case e of Message m ok \<Rightarrow> if wp_stopped w then [] else [m] | _ \<Rightarrow> []) @ taken es (pump_step now e w)"

section \<open>Invariant\<close>

definition payload_bytes :: "OutboundMessage list \<Rightarrow> int" where
  "payload_bytes ms = sum_list (map (\<lambda>m. int (length (om_Payload m))) ms)"

text \<open>While it runs, the timer is armed exactly when a batch is open, and a batch is below its limits.\<close>

definition pump_ok :: "pump \<Rightarrow> bool" where
  "pump_ok w \<longleftrightarrow> wp_batchBytes w = payload_bytes (wp_batch w) \<and>
     (\<not> wp_stopped w \<longrightarrow> (wp_timer w \<longleftrightarrow> wp_batch w \<noteq> []) \<and>
        length (wp_batch w) < writeBatchMaxMessages \<and> wp_batchBytes w < writeBatchMaxBytes)"

text \<open>The text frames, as the list of batches they were made of.\<close>

definition frame_of :: "OutboundMessage list \<Rightarrow> frame" where
  "frame_of ms = TextFrame (join_with newline (map om_Payload ms))"

definition is_text :: "frame \<Rightarrow> bool" where
  "is_text f = (case f of TextFrame _ \<Rightarrow> True | _ \<Rightarrow> False)"

definition writes :: "pump \<Rightarrow> OutboundMessage list list \<Rightarrow> bool" where
  "writes w bs \<longleftrightarrow> filter is_text (wp_frames w) = map frame_of bs \<and>
     (\<forall>b \<in> set bs. b \<noteq> [] \<and> length b \<le> writeBatchMaxMessages \<and> payload_bytes (butlast b) < writeBatchMaxBytes)"

lemma payload_bytes_simps [simp]:
  "payload_bytes [] = 0" "payload_bytes (ms @ ns) = payload_bytes ms + payload_bytes ns"
  "payload_bytes [m] = int (length (om_Payload m))" "0 \<le> payload_bytes ms"
  by (simp_all add: payload_bytes_def) (induction ms, simp_all)

lemma is_text_simps [simp]: "is_text (frame_of b)" "\<not> is_text PingFrame" "\<not> is_text CloseFrame"
  by (simp_all add: is_text_def frame_of_def)

lemma flush_cases:
  obtains (empty) "wp_batch w = []" "flush now ok w = (True, w)"
  | (failed) "wp_batch w \<noteq> []" "flush now ok w = (False, w)"
  | (written) w' where "wp_batch w \<noteq> []" "flush now ok w = (True, w')"
      "w' = w\<lparr>wp_frames := wp_frames w @ [frame_of (wp_batch w)], wp_batch := [], wp_batchBytes := 0, wp_lastWrite := now\<rparr>"
  by (cases ok) (auto simp: flush_def frame_of_def)

lemma flush_or_stop_ok:
  assumes "\<not> wp_stopped w" "\<not> wp_timer w" "wp_batch w \<noteq> []" "wp_batchBytes w = payload_bytes (wp_batch w)"
    and "writes w bs" "length (wp_batch w) \<le> writeBatchMaxMessages"
    "payload_bytes (butlast (wp_batch w)) < writeBatchMaxBytes"
  shows "\<exists>bs'. writes (flush_or_stop now ok w) bs' \<and>
      concat bs' @ wp_batch (flush_or_stop now ok w) = concat bs @ wp_batch w \<and>
      pump_ok (flush_or_stop now ok w)"
proof (cases rule: flush_cases [of w now ok])
  case empty
  with assms show ?thesis by simp
next
  case failed
  with assms show ?thesis
    by (intro exI [of _ bs]) (simp add: flush_or_stop_def pump_ok_def writes_def)
next
  case (written w')
  with assms show ?thesis
    by (intro exI [of _ "bs @ [wp_batch w]"])
      (auto simp: flush_or_stop_def pump_ok_def writes_def writeBatchMaxMessages_def writeBatchMaxBytes_def)
qed

text \<open>The state once a message was appended to the batch.\<close>

definition opened :: "OutboundMessage \<Rightarrow> pump \<Rightarrow> pump" where
  "opened m w = w\<lparr>wp_batch := wp_batch w @ [m], wp_batchBytes := wp_batchBytes w + int (length (om_Payload m)),
     wp_timer := (wp_timer w \<or> wp_batch w = [])\<rparr>"

lemma pump_step_Message:
  "\<not> wp_stopped w \<Longrightarrow> pump_step now (Message m ok) w =
     (if writeBatchMaxMessages \<le> length (wp_batch (opened m w)) \<or> writeBatchMaxBytes \<le> wp_batchBytes (opened m w)
      then flush_or_stop now ok ((opened m w)\<lparr>wp_timer := False\<rparr>) else opened m w)"
  by (simp add: pump_step_def Let_def opened_def)

lemma pump_step_ok:
  assumes "pump_ok w" "writes w bs"
  shows "\<exists>bs'. writes (pump_step now e w) bs' \<and> pump_ok (pump_step now e w) \<and>
    concat bs' @ wp_batch (pump_step now e w) =
      concat bs @ wp_batch w @ (case e of Message m ok \<Rightarrow> if wp_stopped w then [] else [m] | _ \<Rightarrow> [])"
proof (cases "wp_stopped w")
  case True
  with assms show ?thesis by (intro exI [of _ bs]) (auto simp: pump_step_def split: pump_event.splits)
next
  case False
  note ok = assms(1) [unfolded pump_ok_def]
  show ?thesis
  proof (cases e)
    case (Message m b)
    let ?w = "opened m w"
    have w: "wp_batch ?w = wp_batch w @ [m]" "wp_batchBytes ?w = payload_bytes (wp_batch w @ [m])"
      "wp_frames ?w = wp_frames w" "\<not> wp_stopped ?w" "wp_timer ?w"
      using ok False by (auto simp: opened_def)
    show ?thesis
    proof (cases "writeBatchMaxMessages \<le> length (wp_batch ?w) \<or> writeBatchMaxBytes \<le> wp_batchBytes ?w")
      case True
      have "\<exists>bs'. writes (flush_or_stop now b (?w\<lparr>wp_timer := False\<rparr>)) bs' \<and>
          concat bs' @ wp_batch (flush_or_stop now b (?w\<lparr>wp_timer := False\<rparr>)) =
            concat bs @ wp_batch (?w\<lparr>wp_timer := False\<rparr>) \<and>
          pump_ok (flush_or_stop now b (?w\<lparr>wp_timer := False\<rparr>))"
        by (rule flush_or_stop_ok) (use ok False assms(2) w in \<open>simp_all add: writes_def\<close>)
      with True False Message w(1) show ?thesis by (auto simp: pump_step_Message)
    next
      case below: False
      then have "pump_step now e w = ?w" using False Message by (simp add: pump_step_Message)
      moreover have "pump_ok ?w" using below w by (simp add: pump_ok_def)
      moreover have "writes ?w bs" using assms(2) w by (simp add: writes_def)
      ultimately show ?thesis using False Message w(1) by (intro exI [of _ bs]) simp
    qed
  next
    case (SendClosed b)
    have "payload_bytes (butlast (wp_batch w)) \<le> payload_bytes (wp_batch w)"
      by (cases "wp_batch w" rule: rev_cases) auto
    then show ?thesis
    proof (cases rule: flush_cases [of "w\<lparr>wp_timer := False\<rparr>" now b])
      case empty
      with False SendClosed ok assms(2) show ?thesis
        by (intro exI [of _ bs]) (simp add: pump_step_def pump_ok_def writes_def)
    next
      case failed
      with False SendClosed ok assms(2) show ?thesis
        by (intro exI [of _ bs]) (simp add: pump_step_def pump_ok_def writes_def)
    next
      case (written w')
      with False SendClosed ok assms(2) \<open>payload_bytes (butlast (wp_batch w)) \<le> payload_bytes (wp_batch w)\<close>
      show ?thesis
        by (intro exI [of _ "bs @ [wp_batch w]"]) (auto simp: pump_step_def pump_ok_def writes_def)
    qed
  next
    case (FlushTick b)
    show ?thesis
    proof (cases "wp_timer w")
      case True
      have "payload_bytes (butlast (wp_batch w)) \<le> payload_bytes (wp_batch w)"
        by (cases "wp_batch w" rule: rev_cases) auto
      then have "\<exists>bs'. writes (flush_or_stop now b (w\<lparr>wp_timer := False\<rparr>)) bs' \<and>
          concat bs' @ wp_batch (flush_or_stop now b (w\<lparr>wp_timer := False\<rparr>)) =
            concat bs @ wp_batch (w\<lparr>wp_timer := False\<rparr>) \<and>
          pump_ok (flush_or_stop now b (w\<lparr>wp_timer := False\<rparr>))"
        by (intro flush_or_stop_ok) (use ok False True assms(2) in \<open>auto simp: writes_def\<close>)
      with True False FlushTick show ?thesis by (auto simp: pump_step_def)
    next
      case idle: False
      with False FlushTick assms show ?thesis by (auto simp: pump_step_def intro: exI [of _ bs])
    qed
  next
    case (PingTick b)
    with False assms show ?thesis
      by (intro exI [of _ bs]) (auto simp: pump_step_def pump_ok_def writes_def)
  qed
qed

section \<open>Delivery\<close>

lemma pump_run_ok:
  assumes "pump_ok w" "writes w bs"
  shows "\<exists>bs'. writes (pump_run es w) bs' \<and> pump_ok (pump_run es w) \<and>
    concat bs' @ wp_batch (pump_run es w) = concat bs @ wp_batch w @ taken es w"
  using assms
proof (induction es arbitrary: w bs)
  case Nil
  then show ?case by auto
next
  case (Cons x es)
  obtain now e where x: "x = (now, e)" by force
  from pump_step_ok [OF Cons.prems, of now e] obtain bs1 where b1: "writes (pump_step now e w) bs1"
    "pump_ok (pump_step now e w)" "concat bs1 @ wp_batch (pump_step now e w) =
      concat bs @ wp_batch w @ (case e of Message m ok \<Rightarrow> if wp_stopped w then [] else [m] | _ \<Rightarrow> [])" by blast
  from Cons.IH [OF b1(2,1)] obtain bs2 where b2: "writes (pump_run es (pump_step now e w)) bs2"
    "pump_ok (pump_run es (pump_step now e w))"
    "concat bs2 @ wp_batch (pump_run es (pump_step now e w)) =
      concat bs1 @ wp_batch (pump_step now e w) @ taken es (pump_step now e w)" by blast
  from b2(3) b1(3) have "concat bs2 @ wp_batch (pump_run es (pump_step now e w)) =
      concat bs @ wp_batch w @ taken (x # es) w" by (simp add: x)
  with b2(1,2) show ?case by (auto simp: x)
qed

lemma pump_init_ok: "pump_ok pump_init" "writes pump_init []"
  by (simp_all add: pump_ok_def writes_def pump_init_def writeBatchMaxMessages_def writeBatchMaxBytes_def)

text \<open>
  C13: the writer neither loses, repeats nor reorders. At every moment, whatever events and write
  results occur, the text frames on the wire are the newline-joined payloads of consecutive batches,
  each of 1 to 64 messages and closed as soon as it reached 64 KiB; those batches followed by the open batch
  are exactly the messages taken from the channel. While the writer runs, an open batch always has
  its flush timer armed, so it is never forgotten.
\<close>

theorem WritePump_stream:
  "\<exists>bs. filter is_text (wp_frames (pump_run es pump_init)) = map frame_of bs \<and>
     concat bs @ wp_batch (pump_run es pump_init) = taken es pump_init \<and>
     (\<forall>b \<in> set bs. b \<noteq> [] \<and> length b \<le> writeBatchMaxMessages \<and> payload_bytes (butlast b) < writeBatchMaxBytes) \<and>
     (wp_stopped (pump_run es pump_init) \<or> (wp_timer (pump_run es pump_init) \<longleftrightarrow> wp_batch (pump_run es pump_init) \<noteq> []))"
proof -
  obtain bs where "writes (pump_run es pump_init) bs" "pump_ok (pump_run es pump_init)"
    "concat bs @ wp_batch (pump_run es pump_init) = taken es pump_init"
    using pump_run_ok [OF pump_init_ok, of es] by (auto simp: pump_init_def)
  then show ?thesis unfolding writes_def pump_ok_def by blast
qed

text \<open>
  Closing the channel loses nothing. When the hub closes the channel of a running writer and the
  last write succeeds, every message taken so far is on the wire and the close frame follows as the
  last frame.
\<close>

lemma WritePump_close_flushes:
  assumes "\<not> wp_stopped (pump_run es pump_init)"
    and "w = pump_step now (SendClosed True) (pump_run es pump_init)"
  shows "\<exists>bs. filter is_text (wp_frames w) = map frame_of bs \<and> concat bs = taken es pump_init \<and>
    wp_stopped w \<and> last (wp_frames w) = CloseFrame"
proof -
  obtain bs where bs: "writes (pump_run es pump_init) bs"
    "concat bs @ wp_batch (pump_run es pump_init) = taken es pump_init"
    using pump_run_ok [OF pump_init_ok, of es] by (auto simp: pump_init_def)
  show ?thesis
  proof (cases "wp_batch (pump_run es pump_init) = []")
    case True
    with bs assms show ?thesis by (intro exI [of _ bs]) (simp add: pump_step_def flush_def writes_def)
  next
    case False
    with bs assms show ?thesis
      by (intro exI [of _ "bs @ [wp_batch (pump_run es pump_init)]"])
        (simp add: pump_step_def flush_def writes_def flip: frame_of_def)
  qed
qed

text \<open>
  A client that splits the text frames at newlines gets the payloads back, one by one and in
  order; encoded messages hold no raw newline, since JSON escapes it.
\<close>

lemma frame_roundtrip:
  assumes "ms \<noteq> []" and "\<forall>m \<in> set ms. newline \<notin> set (om_Payload m)"
    and "frame_of ms = TextFrame s"
  shows "Split newline s = map om_Payload ms"
  using Split_join [of "map om_Payload ms" newline] assms by (simp add: frame_of_def)

section \<open>Witnesses\<close>

definition sample_out :: "string \<Rightarrow> OutboundMessage" where
  "sample_out s = \<lparr>om_Payload = s, om_GatewayArrivedAt = 0\<rparr>"

lemma WritePump_close_flushes_example:
  "\<exists>bs. filter is_text (wp_frames (pump_step 3 (SendClosed True)
       (pump_run [(1, Message (sample_out ''a'') True), (2, Message (sample_out ''b'') True)] pump_init))) = map frame_of bs \<and>
     concat bs = taken [(1, Message (sample_out ''a'') True), (2, Message (sample_out ''b'') True)] pump_init \<and>
     wp_stopped (pump_step 3 (SendClosed True)
       (pump_run [(1, Message (sample_out ''a'') True), (2, Message (sample_out ''b'') True)] pump_init)) \<and>
     last (wp_frames (pump_step 3 (SendClosed True)
       (pump_run [(1, Message (sample_out ''a'') True), (2, Message (sample_out ''b'') True)] pump_init))) = CloseFrame"
  by (rule WritePump_close_flushes [OF _ refl])
    (simp add: pump_init_def pump_step_Message opened_def sample_out_def writeBatchMaxMessages_def writeBatchMaxBytes_def)

theorem WritePump_stream_witness:
  "\<exists>bs. filter is_text (wp_frames (pump_run [(1, Message (sample_out ''a'') True), (2, Message (sample_out ''b'') True)] pump_init)) = map frame_of bs \<and>
     concat bs @ wp_batch (pump_run [(1, Message (sample_out ''a'') True), (2, Message (sample_out ''b'') True)] pump_init) =
       [sample_out ''a'', sample_out ''b'']"
proof -
  let ?es = "[(1, Message (sample_out ''a'') True), (2, Message (sample_out ''b'') True)]"
  have "taken ?es pump_init = [sample_out ''a'', sample_out ''b'']"
    by (simp add: pump_init_def pump_step_Message opened_def sample_out_def writeBatchMaxMessages_def writeBatchMaxBytes_def)
  with WritePump_stream [of ?es] show ?thesis by metis
qed

lemma frame_roundtrip_example:
  "Split newline (join_with newline [''a'', ''b'']) = map om_Payload [sample_out ''a'', sample_out ''b'']"
  by (rule frame_roundtrip) (simp_all add: sample_out_def frame_of_def newline_def)

end
