(* ===== verification/Producer.thy ===== *)
theory Producer
  imports Pipeline Hub
begin

text \<open>
  The gateway's Kafka producer, \<^verbatim>\<open>services/messages/producer/producer-kafka.go\<close>, and the reader of a
  connection that feeds it, \<open>ReadPump\<close> of \<^verbatim>\<open>client.go\<close>.

  The callers of \<open>HandleIncomingMessageAt\<close>, the goroutine \<open>run\<close> and \<open>Close\<close> share a queue. The state
  machine \<open>prod_step\<close> has one event per atomic action: a caller's non-blocking send to the queue
  (under the read lock that \<open>Close\<close> excludes), the close, and each ready case of a \<^verbatim>\<open>select\<close> of the
  loop; \<open>None\<close> means that the action is not possible in the state. \<open>pr_accepted\<close> and \<open>pr_written\<close> keep
  the history.
\<close>

section \<open>Options and requests\<close>

record ProducerOptions =
  po_MaxMessages :: int
  po_MaxBytes :: int
  po_MaxWait :: int
  po_QueueCapacity :: int
  po_WriteTimeout :: int

definition normalizedOptions :: "ProducerOptions \<Rightarrow> ProducerOptions" where
  "normalizedOptions o' =
     \<lparr>po_MaxMessages = (if po_MaxMessages o' \<le> 0 then 1000 else po_MaxMessages o'),
      po_MaxBytes = (if po_MaxBytes o' \<le> 0 then 1048576 else po_MaxBytes o'),
      po_MaxWait = (if po_MaxWait o' \<le> 0 then 5000000 else po_MaxWait o'),
      po_QueueCapacity = (if po_QueueCapacity o' \<le> 0 then 20000 else po_QueueCapacity o'),
      po_WriteTimeout = (if po_WriteTimeout o' \<le> 0 then 10000000000 else po_WriteTimeout o')\<rparr>"

datatype prod_error = InvalidRoomID | MarshalError | OverBatchBytes | ProducerClosed | ProducerQueueFull
  | ContextDone | WriteFailed

text \<open>\<open>HandleIncomingMessageAt\<close> up to the queue: the record to write, or the error it returns.\<close>

definition prepare_message ::
    "codec \<Rightarrow> time \<Rightarrow> ProducerOptions \<Rightarrow> string \<Rightarrow> int \<Rightarrow> string \<Rightarrow> string \<Rightarrow> time \<Rightarrow> prod_error + kafka_msg" where
  "prepare_message cd now opts roomID senderID content clientMsgID arrivedAt =
     (case ParseInt roomID of
        (_, Some _) \<Rightarrow> Inl InvalidRoomID
      | (roomIDInt, None) \<Rightarrow>
          (let at = (if IsZero arrivedAt then now else arrivedAt)
           in case Marshal cd \<lparr>env_MessageID = 0, env_RoomSeq = 0, env_RoomID = roomIDInt, env_SenderID = senderID,
                 env_ClientMsgID = clientMsgID, env_Type = 1, env_Content = content, env_CreatedAt = at\<rparr> of
                Inl _ \<Rightarrow> Inl MarshalError
              | Inr payload \<Rightarrow>
                  (let m = \<lparr>km_Offset = 0, km_Key = roomID, km_Value = payload\<rparr>
                   in if km_size m > po_MaxBytes opts then Inl OverBatchBytes else Inr m)))"

section \<open>The state machine\<close>

datatype loop_phase = Top | Gather "kafka_msg list" | Write "kafka_msg list" | Done

record producer =
  pr_opts :: ProducerOptions
  pr_queue :: "kafka_msg list"
  pr_closed :: bool
  pr_phase :: loop_phase
  pr_pending :: "kafka_msg option"
  pr_stopping :: bool
  pr_accepted :: "kafka_msg list"
  pr_written :: "(kafka_msg list \<times> bool) list"

definition newMessageClient :: "ProducerOptions \<Rightarrow> producer" where
  "newMessageClient opts =
     \<lparr>pr_opts = normalizedOptions opts, pr_queue = [], pr_closed = False, pr_phase = Top,
      pr_pending = None, pr_stopping = False, pr_accepted = [], pr_written = []\<rparr>"

text \<open>
  The select of \<open>HandleIncomingMessageAt\<close>: the queue, the context (\<open>cancelled\<close> says that its branch is
  taken), the default.
\<close>

definition enqueue :: "bool \<Rightarrow> kafka_msg \<Rightarrow> producer \<Rightarrow> prod_error option \<times> producer" where
  "enqueue cancelled m p =
     (if pr_closed p then (Some ProducerClosed, p)
      else if cancelled then (Some ContextDone, p)
      else if int (length (pr_queue p)) < po_QueueCapacity (pr_opts p)
      then (None, p\<lparr>pr_queue := pr_queue p @ [m], pr_accepted := pr_accepted p @ [m]\<rparr>)
      else (Some ProducerQueueFull, p))"

datatype prod_event =
    Enqueue bool kafka_msg
  | CloseCall
  | TakeFirst
  | SeeStop
  | TakeNext
  | StopCollecting
  | WriteBatch bool

definition collect_more :: "ProducerOptions \<Rightarrow> kafka_msg list \<Rightarrow> bool" where
  "collect_more opts batch \<longleftrightarrow>
     int (length batch) < po_MaxMessages opts \<and> batch_size batch < po_MaxBytes opts"

text \<open>
  \<open>TakeFirst\<close>: the top of the loop gets its first request, or returns when stopping with an empty queue.
  \<open>SeeStop\<close>: the closed stop channel is read, in either select. \<open>TakeNext\<close>: the collect loop takes a
  request (it becomes pending when it does not fit). \<open>StopCollecting\<close>: the collect loop ends because
  a limit is reached, the timer fired, or the queue is empty while stopping.
\<close>

fun prod_step :: "prod_event \<Rightarrow> producer \<Rightarrow> producer option" where
  "prod_step (Enqueue cancelled m) p = Some (snd (enqueue cancelled m p))"
| "prod_step CloseCall p = Some (p\<lparr>pr_closed := True\<rparr>)"
| "prod_step TakeFirst p =
     (if pr_phase p \<noteq> Top then None
      else case pr_pending p of
        Some m \<Rightarrow> Some (p\<lparr>pr_phase := Gather [m], pr_pending := None\<rparr>)
      | None \<Rightarrow>
          (case pr_queue p of
             m # q \<Rightarrow> Some (p\<lparr>pr_phase := Gather [m], pr_queue := q\<rparr>)
           | [] \<Rightarrow> if pr_stopping p then Some (p\<lparr>pr_phase := Done\<rparr>) else None))"
| "prod_step SeeStop p =
     (if pr_stopping p \<or> \<not> pr_closed p then None
      else case pr_phase p of
        Top \<Rightarrow> if pr_pending p = None then Some (p\<lparr>pr_stopping := True\<rparr>) else None
      | Gather b \<Rightarrow> if collect_more (pr_opts p) b then Some (p\<lparr>pr_stopping := True\<rparr>) else None
      | _ \<Rightarrow> None)"
| "prod_step TakeNext p =
     (case pr_phase p of
        Gather b \<Rightarrow>
          if \<not> collect_more (pr_opts p) b then None
          else (case pr_queue p of
             [] \<Rightarrow> None
           | m # q \<Rightarrow>
               if batch_size b + km_size m > po_MaxBytes (pr_opts p)
               then Some (p\<lparr>pr_pending := Some m, pr_queue := q, pr_phase := Write b\<rparr>)
               else Some (p\<lparr>pr_queue := q, pr_phase := Gather (b @ [m])\<rparr>))
      | _ \<Rightarrow> None)"
| "prod_step StopCollecting p =
     (case pr_phase p of
        Gather b \<Rightarrow>
          if \<not> collect_more (pr_opts p) b \<or> \<not> pr_stopping p \<or> pr_queue p = []
          then Some (p\<lparr>pr_phase := Write b\<rparr>) else None
      | _ \<Rightarrow> None)"
| "prod_step (WriteBatch ok) p =
     (case pr_phase p of
        Write b \<Rightarrow> Some (p\<lparr>pr_phase := Top, pr_written := pr_written p @ [(b, ok)]\<rparr>)
      | _ \<Rightarrow> None)"

fun prod_run :: "prod_event list \<Rightarrow> producer \<Rightarrow> producer option" where
  "prod_run [] p = Some p"
| "prod_run (e # es) p = (case prod_step e p of None \<Rightarrow> None | Some p' \<Rightarrow> prod_run es p')"

text \<open>What a caller is told: the position of its record among the accepted ones decides its batch.\<close>

definition results :: "producer \<Rightarrow> (kafka_msg \<times> bool) list" where
  "results p = concat (map (\<lambda>(b, ok). map (\<lambda>m. (m, ok)) b) (pr_written p))"

section \<open>Invariant\<close>

fun in_hand :: "loop_phase \<Rightarrow> kafka_msg list" where
  "in_hand (Gather b) = b"
| "in_hand (Write b) = b"
| "in_hand _ = []"

definition pending_list :: "producer \<Rightarrow> kafka_msg list" where
  "pending_list p = (case pr_pending p of None \<Rightarrow> [] | Some m \<Rightarrow> [m])"

definition batch_fits :: "ProducerOptions \<Rightarrow> kafka_msg list \<Rightarrow> bool" where
  "batch_fits opts b \<longleftrightarrow> b \<noteq> [] \<and> int (length b) \<le> po_MaxMessages opts \<and> batch_size b \<le> po_MaxBytes opts"

definition phase_ok :: "producer \<Rightarrow> bool" where
  "phase_ok p = (case pr_phase p of
       Top \<Rightarrow> True
     | Gather b \<Rightarrow> batch_fits (pr_opts p) b \<and> pr_pending p = None
     | Write b \<Rightarrow> batch_fits (pr_opts p) b
     | Done \<Rightarrow> pr_stopping p \<and> pr_queue p = [] \<and> pr_pending p = None)"

definition prod_inv :: "producer \<Rightarrow> bool" where
  "prod_inv p \<longleftrightarrow>
     pr_accepted p = map fst (results p) @ in_hand (pr_phase p) @ pending_list p @ pr_queue p \<and>
     phase_ok p \<and> (pr_stopping p \<longrightarrow> pr_closed p) \<and> 1 \<le> po_MaxMessages (pr_opts p) \<and>
     int (length (pr_queue p)) \<le> po_QueueCapacity (pr_opts p) \<and>
     (\<forall>m \<in> set (pending_list p @ pr_queue p). km_size m \<le> po_MaxBytes (pr_opts p)) \<and>
     list_all (batch_fits (pr_opts p)) (map fst (pr_written p))"

fun event_ok :: "ProducerOptions \<Rightarrow> prod_event \<Rightarrow> bool" where
  "event_ok opts (Enqueue cancelled m) \<longleftrightarrow> km_size m \<le> po_MaxBytes opts"
| "event_ok opts _ \<longleftrightarrow> True"

lemma map_fst_results: "map fst (results p) = concat (map fst (pr_written p))"
  by (simp add: results_def map_concat comp_def case_prod_unfold)

lemma results_cong [simp]:
  "results (p\<lparr>pr_phase := x\<rparr>) = results p" "results (p\<lparr>pr_queue := q\<rparr>) = results p"
  by (simp_all add: results_def)

lemma prod_step_opts: "prod_step e p = Some p' \<Longrightarrow> pr_opts p' = pr_opts p"
  by (cases e) (auto simp: enqueue_def split: if_splits option.splits list.splits loop_phase.splits)

lemma prod_step_inv:
  assumes "prod_inv p" "event_ok (pr_opts p) e" "prod_step e p = Some p'"
  shows "prod_inv p'"
proof (cases e)
  case (Enqueue cancelled m)
  with assms show ?thesis
    by (auto simp: enqueue_def prod_inv_def map_fst_results phase_ok_def pending_list_def
        split: if_splits loop_phase.splits)
next
  case CloseCall
  with assms show ?thesis
    by (auto simp: prod_inv_def map_fst_results phase_ok_def pending_list_def split: loop_phase.splits)
next
  case TakeFirst
  with assms show ?thesis
    by (auto simp: prod_inv_def map_fst_results phase_ok_def pending_list_def batch_fits_def
        split: if_splits option.splits list.splits)
next
  case SeeStop
  with assms show ?thesis
    by (auto simp: prod_inv_def map_fst_results phase_ok_def pending_list_def
        split: if_splits loop_phase.splits)
next
  case TakeNext
  with assms show ?thesis
    by (auto simp: prod_inv_def map_fst_results phase_ok_def pending_list_def batch_fits_def collect_more_def
        split: if_splits loop_phase.splits list.splits)
next
  case StopCollecting
  with assms show ?thesis
    by (auto simp: prod_inv_def map_fst_results phase_ok_def pending_list_def
        split: if_splits loop_phase.splits)
next
  case (WriteBatch ok)
  with assms show ?thesis
    by (auto simp: prod_inv_def map_fst_results phase_ok_def pending_list_def split: loop_phase.splits)
qed

lemma prod_run_inv:
  "prod_inv p \<Longrightarrow> \<forall>e \<in> set es. event_ok (pr_opts p) e \<Longrightarrow> prod_run es p = Some p' \<Longrightarrow>
     prod_inv p' \<and> pr_opts p' = pr_opts p"
proof (induction es arbitrary: p)
  case (Cons e es)
  then obtain p1 where p1: "prod_step e p = Some p1" "prod_run es p1 = Some p'"
    by (auto split: option.splits)
  with Cons.prems prod_step_inv [of p e p1] prod_step_opts [OF p1(1)] Cons.IH [of p1] show ?case by auto
qed simp

lemma newMessageClient_inv: "prod_inv (newMessageClient opts)"
  by (simp add: prod_inv_def newMessageClient_def normalizedOptions_def phase_ok_def pending_list_def results_def)

section \<open>Accounting and shutdown\<close>

text \<open>
  C14: exactly once and in order. In every run of the producer, the accepted requests are, in the order
  of their acceptance, those that got their result, the batch in hand, the request held back for the
  next batch, and the queue: none is lost or duplicated. Every batch handed to Kafka respects the
  limits, and the queue its capacity.
\<close>

theorem producer_accounting:
  assumes "prod_run es (newMessageClient opts) = Some p"
    and "\<forall>e \<in> set es. event_ok (normalizedOptions opts) e"
  shows "pr_accepted p = map fst (results p) @ in_hand (pr_phase p) @ pending_list p @ pr_queue p
    \<and> list_all (batch_fits (normalizedOptions opts)) (map fst (pr_written p))
    \<and> int (length (pr_queue p)) \<le> po_QueueCapacity (normalizedOptions opts)"
proof -
  have "pr_opts (newMessageClient opts) = normalizedOptions opts" by (simp add: newMessageClient_def)
  with prod_run_inv [OF newMessageClient_inv, of es opts p] assms have "prod_inv p" "pr_opts p = normalizedOptions opts"
    by auto
  then show ?thesis by (simp add: prod_inv_def)
qed

definition loop_event :: "prod_event \<Rightarrow> bool" where
  "loop_event e = (case e of Enqueue _ _ \<Rightarrow> False | CloseCall \<Rightarrow> False | _ \<Rightarrow> True)"

definition phase_weight :: "loop_phase \<Rightarrow> nat" where
  "phase_weight ph = (case ph of Done \<Rightarrow> 0 | Top \<Rightarrow> 1 | Write _ \<Rightarrow> 2 | Gather _ \<Rightarrow> 3)"

text \<open>A bound on the number of turns that the loop still takes once nothing is added to the queue.\<close>

definition turns_left :: "producer \<Rightarrow> nat" where
  "turns_left p = 4 * length (pr_queue p) + (if pr_pending p = None then 0 else 3)
     + phase_weight (pr_phase p) + (if pr_stopping p then 0 else 1)"

lemma phase_GatherD:
  "phase_ok p \<Longrightarrow> pr_phase p = Gather b \<Longrightarrow> batch_fits (pr_opts p) b \<and> pr_pending p = None"
  by (simp add: phase_ok_def)

lemma loop_event_decreases:
  assumes "loop_event e" "prod_step e p = Some p'" "phase_ok p"
  shows "turns_left p' < turns_left p"
proof (cases e)
  case TakeFirst
  with assms(2) show ?thesis
    by (auto simp: turns_left_def phase_weight_def split: if_splits option.splits list.splits)
next
  case SeeStop
  with assms(2) show ?thesis
    by (auto simp: turns_left_def split: if_splits loop_phase.splits)
next
  case TakeNext
  with assms(2) obtain b m q where b: "pr_phase p = Gather b" "pr_queue p = m # q"
    by (auto split: loop_phase.splits if_splits list.splits)
  with phase_GatherD [OF assms(3) b(1)] TakeNext assms(2) show ?thesis
    by (auto simp: turns_left_def phase_weight_def split: if_splits)
next
  case StopCollecting
  with assms(2) show ?thesis
    by (auto simp: turns_left_def phase_weight_def split: if_splits loop_phase.splits)
next
  case (WriteBatch ok)
  with assms(2) show ?thesis
    by (auto simp: turns_left_def phase_weight_def split: loop_phase.splits)
qed (use assms(1) in \<open>simp_all add: loop_event_def\<close>)

lemma loop_event_enabled:
  assumes "pr_closed p" "pr_phase p \<noteq> Done"
  shows "\<exists>e. loop_event e \<and> prod_step e p \<noteq> None"
proof (cases "pr_phase p")
  case Top
  show ?thesis
  proof (cases "pr_pending p = None \<and> pr_queue p = [] \<and> \<not> pr_stopping p")
    case True
    with Top assms show ?thesis by (intro exI [of _ SeeStop]) (simp add: loop_event_def)
  next
    case False
    with Top show ?thesis
      by (intro exI [of _ TakeFirst]) (auto simp: loop_event_def split: option.splits list.splits)
  qed
next
  case (Gather b)
  show ?thesis
  proof (cases "\<not> collect_more (pr_opts p) b \<or> \<not> pr_stopping p \<or> pr_queue p = []")
    case True
    with Gather show ?thesis by (intro exI [of _ StopCollecting]) (simp add: loop_event_def)
  next
    case False
    with Gather show ?thesis
      by (intro exI [of _ TakeNext]) (auto simp: loop_event_def split: list.splits)
  qed
next
  case (Write b)
  then show ?thesis by (intro exI [of _ "WriteBatch True"]) (simp add: loop_event_def)
qed (use assms in simp)

lemma loop_event_ok: "loop_event e \<Longrightarrow> event_ok opts e"
  by (cases e) (auto simp: loop_event_def)

lemma loop_run_bounded:
  "prod_inv p \<Longrightarrow> list_all loop_event es \<Longrightarrow> prod_run es p = Some p' \<Longrightarrow> turns_left p' + length es \<le> turns_left p"
proof (induction es arbitrary: p)
  case (Cons e es)
  then obtain p1 where p1: "prod_step e p = Some p1" "prod_run es p1 = Some p'"
    by (auto split: option.splits)
  have "turns_left p1 < turns_left p"
    using Cons.prems p1 by (intro loop_event_decreases [of e]) (simp_all add: prod_inv_def)
  moreover have "prod_inv p1" using prod_step_inv [OF Cons.prems(1) loop_event_ok p1(1)] Cons.prems(2) by simp
  ultimately show ?case using Cons.IH [OF _ _ p1(2)] Cons.prems(2) by simp
qed simp

lemma loop_run_closed: "prod_run es p = Some p' \<Longrightarrow> pr_closed p \<Longrightarrow> pr_closed p'"
proof (induction es arbitrary: p)
  case (Cons e es)
  then obtain p1 where p1: "prod_step e p = Some p1" "prod_run es p1 = Some p'"
    by (auto split: option.splits)
  have "pr_closed p1" using p1(1) Cons.prems(2)
    by (cases e) (auto simp: enqueue_def split: if_splits option.splits list.splits loop_phase.splits)
  with Cons.IH [OF p1(2)] show ?case .
qed simp

text \<open>
  C15: shutdown drains. After \<open>Close\<close> the loop takes a bounded number of turns, and it can only come to
  rest by returning; then every request that was ever accepted has got its result, in order. So
  \<open>Close\<close> returns and no caller waits forever.
\<close>

theorem producer_shutdown:
  assumes "prod_run es (newMessageClient opts) = Some p" "\<forall>e \<in> set es. event_ok (normalizedOptions opts) e"
    and "pr_closed p" "list_all loop_event fs" "prod_run fs p = Some p'"
  shows "length fs \<le> turns_left p
    \<and> ((\<forall>e. loop_event e \<longrightarrow> prod_step e p' = None) \<longrightarrow>
        pr_phase p' = Done \<and> map fst (results p') = pr_accepted p')"
proof -
  have opts: "pr_opts (newMessageClient opts) = normalizedOptions opts" by (simp add: newMessageClient_def)
  with prod_run_inv [OF newMessageClient_inv, of es opts p] assms(1,2) have inv: "prod_inv p"
    by auto
  from loop_run_bounded [OF inv assms(4,5)] have len: "length fs \<le> turns_left p" by simp
  have inv': "prod_inv p'"
    using prod_run_inv [OF inv _ assms(5)] assms(4) loop_event_ok by (auto simp: list_all_iff)
  have "pr_closed p'" using loop_run_closed [OF assms(5,3)] .
  with loop_event_enabled [of p'] have "(\<forall>e. loop_event e \<longrightarrow> prod_step e p' = None) \<Longrightarrow> pr_phase p' = Done"
    by metis
  moreover have "pr_phase p' = Done \<Longrightarrow> map fst (results p') = pr_accepted p'"
    using inv' by (auto simp: prod_inv_def phase_ok_def pending_list_def)
  ultimately show ?thesis using len by blast
qed

section \<open>From a WebSocket frame to the topic\<close>

record client_frame =
  fr_RoomID :: int
  fr_Content :: string
  fr_ClientMsgID :: string

text \<open>
  One turn of \<open>ReadPump\<close>: \<open>dec\<close> is the JSON decoder for the anonymous struct. The result is the client
  with its read time, and what \<open>HandleIncomingMessageAt\<close> made of the frame (\<open>None\<close>: the frame is skipped).
\<close>

definition read_frame ::
    "(string \<Rightarrow> client_frame option) \<Rightarrow> codec \<Rightarrow> ProducerOptions \<Rightarrow> time \<Rightarrow> string \<Rightarrow> Client \<Rightarrow>
     (prod_error + kafka_msg) option \<times> Client" where
  "read_frame dec cd opts now raw cl =
     (case dec raw of
        None \<Rightarrow> (None, SetLastRead now cl)
      | Some fr \<Rightarrow>
          if fr_ClientMsgID fr = [] then (None, SetLastRead now cl)
          else (Some (prepare_message cd now opts (FormatInt (fr_RoomID fr)) (cl_UserID cl) (fr_Content fr)
                  (fr_ClientMsgID fr) now), SetLastRead now cl))"

lemma prepare_message_Inr:
  assumes "prepare_message cd now opts roomID senderID content clientMsgID at = Inr m"
  shows "\<exists>r. ParseInt roomID = (r, None) \<and> km_Key m = roomID \<and> km_size m \<le> po_MaxBytes opts \<and>
    Marshal cd \<lparr>env_MessageID = 0, env_RoomSeq = 0, env_RoomID = r, env_SenderID = senderID,
      env_ClientMsgID = clientMsgID, env_Type = 1, env_Content = content,
      env_CreatedAt = (if IsZero at then now else at)\<rparr> = Inr (km_Value m)"
  using assms
  by (auto simp: prepare_message_def Let_def split: prod.splits option.splits sum.splits if_splits)

text \<open>
  What enters the topic is what the authenticated user typed. When \<open>ReadPump\<close> hands a frame to Kafka,
  the record is keyed by the decimal room id (so one room is one partition key), fits a batch, and
  decodes to the frame's room, content and client message id with the connection's own user as the
  sender and the arrival time of the frame.
\<close>

lemma read_frame_record:
  assumes "pb_laws cd" "dec raw = Some fr" "read_frame dec cd opts now raw cl = (Some (Inr m), cl')"
    and "int64_range (fr_RoomID fr)" "fr_RoomID fr \<noteq> 0" "0 < now" "now < 2 ^ 63"
  shows "km_Key m = FormatInt (fr_RoomID fr) \<and> km_size m \<le> po_MaxBytes opts \<and> fr_ClientMsgID fr \<noteq> [] \<and>
    Unmarshal cd now' (km_Value m) = Inr
      \<lparr>env_MessageID = 0, env_RoomSeq = 0, env_RoomID = fr_RoomID fr, env_SenderID = cl_UserID cl,
       env_ClientMsgID = fr_ClientMsgID fr, env_Type = 1, env_Content = fr_Content fr, env_CreatedAt = now\<rparr>"
proof -
  let ?e = "\<lparr>env_MessageID = 0, env_RoomSeq = 0, env_RoomID = fr_RoomID fr, env_SenderID = cl_UserID cl,
       env_ClientMsgID = fr_ClientMsgID fr, env_Type = 1, env_Content = fr_Content fr, env_CreatedAt = now\<rparr>"
  have p: "fr_ClientMsgID fr \<noteq> []" "prepare_message cd now opts (FormatInt (fr_RoomID fr)) (cl_UserID cl)
      (fr_Content fr) (fr_ClientMsgID fr) now = Inr m"
    using assms(2,3) by (auto simp: read_frame_def split: if_splits)
  have "\<not> IsZero now" using assms(6) by (simp add: IsZero_def zero_time_def)
  with prepare_message_Inr [OF p(2)] ParseInt_FormatInt [OF assms(4)]
  have m: "km_Key m = FormatInt (fr_RoomID fr)" "km_size m \<le> po_MaxBytes opts" "Marshal cd ?e = Inr (km_Value m)"
    by auto
  have "Unmarshal cd now' (km_Value m) = Inr (wire_normal now' ?e)"
    by (rule Unmarshal_Marshal [OF assms(1) m(3)]) (simp_all add: assms(5) int8_range_1)
  moreover have "wire_normal now' ?e = ?e" by (rule wire_normal_id) (use assms(6,7) in simp_all)
  ultimately show ?thesis using m p(1) by simp
qed

text \<open>
  The reader does not look at room membership. The outcome of a frame is the same whatever rooms the
  connection is subscribed to; nothing on this path stops a user from writing to a room that he or she
  is not a member of.
\<close>

lemma read_frame_ignores_membership:
  "fst (read_frame dec cd opts now raw (cl\<lparr>cl_roomIDs := rooms\<rparr>)) = fst (read_frame dec cd opts now raw cl)"
  by (simp add: read_frame_def split: option.splits)

section \<open>Witnesses\<close>

definition sample_record :: kafka_msg where
  "sample_record = \<lparr>km_Offset = 0, km_Key = ''7'', km_Value = ''a''\<rparr>"

definition sample_options :: ProducerOptions where
  "sample_options = \<lparr>po_MaxMessages = 2, po_MaxBytes = 3, po_MaxWait = 0, po_QueueCapacity = 2, po_WriteTimeout = 0\<rparr>"

definition sample_events :: "prod_event list" where
  "sample_events = [Enqueue False sample_record, TakeFirst, Enqueue False sample_record, TakeNext, CloseCall,
     Enqueue False sample_record]"

definition sample_drain :: "prod_event list" where
  "sample_drain = [WriteBatch True, TakeFirst, SeeStop, StopCollecting, WriteBatch False, TakeFirst]"

lemma sample_producer_runs:
  "\<exists>p. prod_run sample_events (newMessageClient sample_options) = Some p \<and> pr_closed p"
  "\<exists>p p'. prod_run sample_events (newMessageClient sample_options) = Some p \<and> prod_run sample_drain p = Some p'"
  by (simp_all add: sample_events_def sample_drain_def newMessageClient_def sample_options_def normalizedOptions_def
      enqueue_def sample_record_def collect_more_def km_size_def)

lemma sample_events_ok: "\<forall>e \<in> set sample_events. event_ok (normalizedOptions sample_options) e"
  by (simp add: sample_events_def sample_record_def sample_options_def normalizedOptions_def km_size_def)

theorem producer_accounting_witness:
  "\<exists>p. prod_run sample_events (newMessageClient sample_options) = Some p \<and>
     pr_accepted p = map fst (results p) @ in_hand (pr_phase p) @ pending_list p @ pr_queue p"
proof -
  obtain p where p: "prod_run sample_events (newMessageClient sample_options) = Some p"
    using sample_producer_runs(1) by blast
  from producer_accounting [OF p sample_events_ok] p show ?thesis by blast
qed

theorem producer_shutdown_witness:
  "\<exists>p. prod_run sample_events (newMessageClient sample_options) = Some p \<and> length sample_drain \<le> turns_left p"
proof -
  obtain p p' where p: "prod_run sample_events (newMessageClient sample_options) = Some p" "pr_closed p"
    "prod_run sample_drain p = Some p'"
    using sample_producer_runs by fastforce
  have "list_all loop_event sample_drain" by (simp add: sample_drain_def loop_event_def)
  from producer_shutdown [OF p(1) sample_events_ok p(2) this p(3)] p(1) show ?thesis by blast
qed

definition sample_client :: Client where
  "sample_client = \<lparr>cl_UserID = 1, cl_Conn = Some True, cl_Send = Some (make_chan 512), cl_username = [], cl_ConnID = ''c'',
     cl_RemoteIP = [], cl_UserAgent = [], cl_ClientVersion = [], cl_ConnectedAt = 0, cl_active = True, cl_roomIDs = None,
     cl_sendClosed = False, cl_lastReadAt = 0, cl_lastWriteAt = 0\<rparr>"

definition sample_frame :: client_frame where
  "sample_frame = \<lparr>fr_RoomID = 7, fr_Content = ''hi'', fr_ClientMsgID = ''a''\<rparr>"

lemma FormatInt_7: "FormatInt 7 = ''7''"
  by code_simp

lemma ParseInt_7: "ParseInt ''7'' = (7, None)"
  using ParseInt_FormatInt [of 7] by (simp add: FormatInt_7 int64_range_def)

lemma sample_read:
  "read_frame (\<lambda>_. Some sample_frame) run_codec sample_options 5 ''x'' sample_client =
     (Some (Inr sample_record), SetLastRead 5 sample_client)"
  by (simp add: read_frame_def prepare_message_def sample_frame_def FormatInt_7 ParseInt_7 Let_def IsZero_def
      zero_time_def Marshal_def run_codec_def table_codec_def to_chat_message_def sample_msg_def sample_client_def
      sample_record_def sample_options_def km_size_def UnixNano_def wrap64_def)

lemma read_frame_record_example:
  "Unmarshal run_codec 9 (km_Value sample_record) = Inr
     \<lparr>env_MessageID = 0, env_RoomSeq = 0, env_RoomID = fr_RoomID sample_frame, env_SenderID = cl_UserID sample_client,
      env_ClientMsgID = fr_ClientMsgID sample_frame, env_Type = 1, env_Content = fr_Content sample_frame, env_CreatedAt = 5\<rparr>"
  using read_frame_record [OF run_codec_laws refl sample_read, of 9]
  by (simp add: sample_frame_def int64_range_def)

end
