(* ===== verification/LoginProtector.thy ===== *)
theory LoginProtector
  imports GoStrings GoChan
begin

text \<open>
  Login protection, \<^verbatim>\<open>services/auth/security/login_protector.go\<close>: fixed-window counters per address and
  per address and user name with a periodic clean-up, and a bound on concurrent password checks. The
  clock reading of a call is an argument; so is \<open>lower\<close>, the Unicode lower-casing of \<^verbatim>\<open>strings.ToLower\<close>.

  \<open>AllowRef\<close> is the reference: the same counters without clean-up. \<open>cleanup_transparent\<close> shows that
  the clean-up cannot be observed while the clock does not run backwards, \<open>login_rate_bound\<close> bounds
  the attempts that get through.
\<close>

section \<open>State and operations\<close>

record ProtectorConfig =
  cf_DisableRateLimit :: bool
  cf_IPLimit :: int
  cf_IPWindow :: int
  cf_PairLimit :: int
  cf_PairWindow :: int
  cf_BcryptConcurrent :: int

record windowEntry =
  we_windowStart :: time
  we_count :: int

record LoginProtector =
  lp_ips :: "(string, windowEntry) gomap"
  lp_pairs :: "(string, windowEntry) gomap"
  lp_slots :: "unit chan"
  lp_config :: ProtectorConfig
  lp_nextGC :: time

datatype login_error = IPRateLimited | PairRateLimited | BcryptBusy | LoginContextDone

definition DefaultConfig :: "int \<Rightarrow> ProtectorConfig" where
  "DefaultConfig cpus =
     \<lparr>cf_DisableRateLimit = False, cf_IPLimit = 200, cf_IPWindow = 60000000000, cf_PairLimit = 5,
      cf_PairWindow = 60000000000, cf_BcryptConcurrent = max 1 (cpus * 2)\<rparr>"

text \<open>\<open>None\<close>: the constructor panics.\<close>

definition NewLoginProtector :: "ProtectorConfig \<Rightarrow> LoginProtector option" where
  "NewLoginProtector cf =
     (if cf_IPLimit cf \<le> 0 \<or> cf_IPWindow cf \<le> 0 \<or> cf_PairLimit cf \<le> 0 \<or> cf_PairWindow cf \<le> 0
         \<or> cf_BcryptConcurrent cf \<le> 0
      then None
      else Some \<lparr>lp_ips = [], lp_pairs = [], lp_slots = make_chan (nat (cf_BcryptConcurrent cf)),
                 lp_config = cf, lp_nextGC = zero_time\<rparr>)"

definition normalizeUsername :: "(string \<Rightarrow> string) \<Rightarrow> string \<Rightarrow> string" where
  "normalizeUsername lower username = lower (TrimSpace username)"

definition no_entry :: windowEntry where
  "no_entry = \<lparr>we_windowStart = zero_time, we_count = 0\<rparr>"

definition entry_of :: "(string, windowEntry) gomap \<Rightarrow> string \<Rightarrow> windowEntry" where
  "entry_of m k = (case map_get m k of None \<Rightarrow> no_entry | Some e \<Rightarrow> e)"

definition incrementWindow :: "windowEntry \<Rightarrow> time \<Rightarrow> int \<Rightarrow> windowEntry" where
  "incrementWindow state now window =
     (let s = (if IsZero (we_windowStart state) \<or> now - we_windowStart state \<ge> window
               then \<lparr>we_windowStart = now, we_count = 0\<rparr> else state)
      in s\<lparr>we_count := we_count s + 1\<rparr>)"

definition drop_expired :: "time \<Rightarrow> int \<Rightarrow> (string, windowEntry) gomap \<Rightarrow> (string, windowEntry) gomap" where
  "drop_expired now window m = filter (\<lambda>(k, e). \<not> now - we_windowStart e \<ge> window) m"

definition cleanupLocked :: "time \<Rightarrow> LoginProtector \<Rightarrow> LoginProtector" where
  "cleanupLocked now p =
     p\<lparr>lp_ips := drop_expired now (cf_IPWindow (lp_config p)) (lp_ips p),
       lp_pairs := drop_expired now (cf_PairWindow (lp_config p)) (lp_pairs p)\<rparr>"

definition pair_key :: "string \<Rightarrow> string \<Rightarrow> string" where
  "pair_key ip username = ip @ CHR 0x00 # username"

text \<open>The counting part of \<open>Allow\<close>, after the clean-up.\<close>

definition count_attempt :: "string \<Rightarrow> string \<Rightarrow> time \<Rightarrow> LoginProtector \<Rightarrow> login_error option \<times> LoginProtector" where
  "count_attempt ip username now p =
     (let ipState = incrementWindow (entry_of (lp_ips p) ip) now (cf_IPWindow (lp_config p));
          p1 = p\<lparr>lp_ips := map_put ip ipState (lp_ips p)\<rparr>
      in if we_count ipState > cf_IPLimit (lp_config p) then (Some IPRateLimited, p1)
         else
           (let pairKey = pair_key ip username;
                pairState = incrementWindow (entry_of (lp_pairs p1) pairKey) now (cf_PairWindow (lp_config p));
                p2 = p1\<lparr>lp_pairs := map_put pairKey pairState (lp_pairs p1)\<rparr>
            in if we_count pairState > cf_PairLimit (lp_config p) then (Some PairRateLimited, p2)
               else (None, p2)))"

definition Allow ::
    "(string \<Rightarrow> string) \<Rightarrow> string \<Rightarrow> string \<Rightarrow> time \<Rightarrow> LoginProtector \<Rightarrow> login_error option \<times> LoginProtector" where
  "Allow lower ip username now p =
     (if cf_DisableRateLimit (lp_config p) then (None, p)
      else
        (let u = normalizeUsername lower username;
             p0 = (if IsZero (lp_nextGC p) \<or> \<not> now < lp_nextGC p
                   then (cleanupLocked now p)\<lparr>lp_nextGC := now + min (cf_IPWindow (lp_config p)) (cf_PairWindow (lp_config p))\<rparr>
                   else p)
         in count_attempt ip u now p0))"

text \<open>
  \<open>Compare\<close>: the attempt to get a slot, and the goroutine's release of it. \<open>cancelled\<close>: the
  context's branch of the select is taken.
\<close>

definition compare_start :: "bool \<Rightarrow> LoginProtector \<Rightarrow> login_error option \<times> LoginProtector" where
  "compare_start cancelled p =
     (if cancelled then (Some LoginContextDone, p)
      else case chan_try_send () (lp_slots p) of
        (True, ch) \<Rightarrow> (None, p\<lparr>lp_slots := ch\<rparr>)
      | (False, ch) \<Rightarrow> (Some BcryptBusy, p\<lparr>lp_slots := ch\<rparr>))"

definition compare_finish :: "LoginProtector \<Rightarrow> LoginProtector" where
  "compare_finish p = p\<lparr>lp_slots := snd (chan_recv (lp_slots p))\<rparr>"

definition ActiveBcrypt :: "LoginProtector \<Rightarrow> nat" where
  "ActiveBcrypt p = length (ch_buf (lp_slots p))"

section \<open>The reference without clean-up\<close>

definition AllowRef ::
    "(string \<Rightarrow> string) \<Rightarrow> string \<Rightarrow> string \<Rightarrow> time \<Rightarrow> LoginProtector \<Rightarrow> login_error option \<times> LoginProtector" where
  "AllowRef lower ip username now p =
     (if cf_DisableRateLimit (lp_config p) then (None, p)
      else count_attempt ip (normalizeUsername lower username) now p)"

record attempt_call =
  ac_ip :: string
  ac_user :: string
  ac_now :: time

fun run_calls ::
    "(attempt_call \<Rightarrow> LoginProtector \<Rightarrow> login_error option \<times> LoginProtector) \<Rightarrow> attempt_call list \<Rightarrow>
     LoginProtector \<Rightarrow> login_error option list" where
  "run_calls f [] p = []"
| "run_calls f (c # cs) p = (case f c p of (r, p') \<Rightarrow> r # run_calls f cs p')"

abbreviation allow_call :: "(string \<Rightarrow> string) \<Rightarrow> attempt_call \<Rightarrow> LoginProtector \<Rightarrow> login_error option \<times> LoginProtector" where
  "allow_call lower c \<equiv> Allow lower (ac_ip c) (ac_user c) (ac_now c)"

abbreviation ref_call :: "(string \<Rightarrow> string) \<Rightarrow> attempt_call \<Rightarrow> LoginProtector \<Rightarrow> login_error option \<times> LoginProtector" where
  "ref_call lower c \<equiv> AllowRef lower (ac_ip c) (ac_user c) (ac_now c)"

text \<open>
  Two counter maps that look the same to every call from \<open>now\<close> on: an entry may be missing on the
  left when its window is over.
\<close>

definition same_counters :: "time \<Rightarrow> int \<Rightarrow> (string, windowEntry) gomap \<Rightarrow> (string, windowEntry) gomap \<Rightarrow> bool" where
  "same_counters now window m m' \<longleftrightarrow> map_wf m \<and>
     (\<forall>k. map_get m k = map_get m' k \<or>
       map_get m k = None \<and> (\<exists>e. map_get m' k = Some e \<and> now - we_windowStart e \<ge> window))"

definition same_protector :: "time \<Rightarrow> LoginProtector \<Rightarrow> LoginProtector \<Rightarrow> bool" where
  "same_protector now p q \<longleftrightarrow> lp_config p = lp_config q \<and>
     same_counters now (cf_IPWindow (lp_config p)) (lp_ips p) (lp_ips q) \<and>
     same_counters now (cf_PairWindow (lp_config p)) (lp_pairs p) (lp_pairs q)"

lemma same_counters_later: "same_counters now w m m' \<Longrightarrow> now \<le> now' \<Longrightarrow> same_counters now' w m m'"
  unfolding same_counters_def by force

lemma map_get_drop_expired:
  assumes "map_wf m"
  shows "map_wf (drop_expired now w m)"
    and "map_get (drop_expired now w m) k =
      (case map_get m k of None \<Rightarrow> None | Some e \<Rightarrow> if now - we_windowStart e \<ge> w then None else Some e)"
proof -
  show wf: "map_wf (drop_expired now w m)"
    using assms by (simp add: drop_expired_def map_wf_def distinct_map_filter)
  show "map_get (drop_expired now w m) k =
      (case map_get m k of None \<Rightarrow> None | Some e \<Rightarrow> if now - we_windowStart e \<ge> w then None else Some e)"
  proof (cases "map_get (drop_expired now w m) k")
    case None
    then have "\<forall>e. (k, e) \<in> set m \<longrightarrow> now - we_windowStart e \<ge> w"
      using in_set_map_get [OF wf, of k] by (auto simp: drop_expired_def)
    with None assms show ?thesis by (auto simp: in_set_map_get split: option.splits)
  next
    case (Some e)
    then have "(k, e) \<in> set m" "\<not> now - we_windowStart e \<ge> w"
      using in_set_map_get [OF wf, of k e] by (auto simp: drop_expired_def)
    with Some assms show ?thesis by (simp add: in_set_map_get)
  qed
qed

lemma same_counters_drop:
  "same_counters now w m m' \<Longrightarrow> same_counters now w (drop_expired now w m) m'"
  unfolding same_counters_def
  by (auto simp: map_get_drop_expired split: option.splits) (metis option.distinct(1) option.inject)+

lemma same_counters_increment:
  assumes "same_counters now w m m'"
  shows "incrementWindow (entry_of m k) now w = incrementWindow (entry_of m' k) now w"
proof -
  from assms consider "map_get m k = map_get m' k"
    | e where "map_get m k = None" "map_get m' k = Some e" "now - we_windowStart e \<ge> w"
    unfolding same_counters_def by blast
  then show ?thesis
    by cases (auto simp: entry_of_def incrementWindow_def Let_def no_entry_def IsZero_def)
qed

lemma same_counters_put:
  "same_counters now w m m' \<Longrightarrow> same_counters now w (map_put k e m) (map_put k e m')"
  by (auto simp: same_counters_def)

lemma count_attempt_same:
  assumes "same_protector now p q"
  shows "fst (count_attempt ip u now p) = fst (count_attempt ip u now q)"
    "same_protector now (snd (count_attempt ip u now p)) (snd (count_attempt ip u now q))"
  using assms
  by (auto simp: same_protector_def count_attempt_def Let_def same_counters_increment intro: same_counters_put)

lemma Allow_same:
  assumes "same_protector now p q"
  shows "fst (Allow lower ip u now p) = fst (AllowRef lower ip u now q)"
    "same_protector now (snd (Allow lower ip u now p)) (snd (AllowRef lower ip u now q))"
proof -
  define p0 where "p0 = (if IsZero (lp_nextGC p) \<or> \<not> now < lp_nextGC p
    then (cleanupLocked now p)\<lparr>lp_nextGC := now + min (cf_IPWindow (lp_config p)) (cf_PairWindow (lp_config p))\<rparr>
    else p)"
  have "same_protector now p0 q"
    using assms by (auto simp: p0_def same_protector_def cleanupLocked_def intro: same_counters_drop)
  note step = count_attempt_same [OF this, of ip "normalizeUsername lower u"]
  have cfg: "lp_config p = lp_config q" using assms by (simp add: same_protector_def)
  have allow: "Allow lower ip u now p = (if cf_DisableRateLimit (lp_config q) then (None, p)
      else count_attempt ip (normalizeUsername lower u) now p0)"
    by (simp only: Allow_def Let_def p0_def cfg)
  show "fst (Allow lower ip u now p) = fst (AllowRef lower ip u now q)"
    "same_protector now (snd (Allow lower ip u now p)) (snd (AllowRef lower ip u now q))"
    unfolding allow AllowRef_def using step assms by simp_all
qed

lemma same_protector_later: "same_protector now p q \<Longrightarrow> now \<le> now' \<Longrightarrow> same_protector now' p q"
  by (auto simp: same_protector_def intro: same_counters_later)

lemma run_calls_same:
  "same_protector now p q \<Longrightarrow> sorted (now # map ac_now cs) \<Longrightarrow>
     run_calls (allow_call lower) cs p = run_calls (ref_call lower) cs q"
proof (induction cs arbitrary: now p q)
  case (Cons c cs)
  have "same_protector (ac_now c) p q" using Cons.prems by (auto intro: same_protector_later)
  from Allow_same [OF this] Cons.IH [of "ac_now c"] Cons.prems(2) show ?case
    by (simp add: case_prod_unfold)
qed simp

lemma cleanup_same:
  assumes "NewLoginProtector cf = Some p" "sorted (map ac_now cs)"
  shows "run_calls (allow_call lower) cs p = run_calls (ref_call lower) cs p"
proof (cases cs)
  case (Cons c cs')
  have "same_protector (ac_now c) p p"
    using assms(1) by (auto simp: NewLoginProtector_def same_protector_def same_counters_def map_wf_def split: if_splits)
  with run_calls_same [of "ac_now c" p p cs lower] assms(2) Cons show ?thesis by auto
qed simp

text \<open>
  The clean-up is only housekeeping. For every sequence of attempts on a clock that does not run
  backwards, the protector with its periodic deletion of old entries gives exactly the answers of
  the protector that never deletes anything.
\<close>

lemma cleanup_transparent:
  assumes "NewLoginProtector cf = Some p" "sorted (map ac_now cs)"
  shows "run_calls (\<lambda>c. Allow lower (ac_ip c) (ac_user c) (ac_now c)) cs p
    = run_calls (\<lambda>c. AllowRef lower (ac_ip c) (ac_user c) (ac_now c)) cs p"
  using assms by (rule cleanup_same)

section \<open>How many attempts get through\<close>

text \<open>One counter on its own: the times at which it lets an attempt pass.\<close>

fun passed :: "int \<Rightarrow> int \<Rightarrow> windowEntry \<Rightarrow> time list \<Rightarrow> time list" where
  "passed limit window e [] = []"
| "passed limit window e (t # ts) =
     (let e' = incrementWindow e t window
      in (if we_count e' > limit then [] else [t]) @ passed limit window e' ts)"

lemma incrementWindow_cases:
  obtains (reset) "incrementWindow e t w = \<lparr>we_windowStart = t, we_count = 1\<rparr>"
      "IsZero (we_windowStart e) \<or> we_windowStart e + w \<le> t"
  | (same) "incrementWindow e t w = e\<lparr>we_count := we_count e + 1\<rparr>" "t < we_windowStart e + w"
  by (cases "IsZero (we_windowStart e) \<or> t - we_windowStart e \<ge> w") (auto simp: incrementWindow_def Let_def)

lemma incrementWindow_start:
  assumes "\<not> IsZero t" "0 \<le> we_count e" "we_windowStart e \<le> t"
  shows "1 \<le> we_count (incrementWindow e t w)" "we_windowStart (incrementWindow e t w) \<le> t"
    "\<not> IsZero (we_windowStart (incrementWindow e t w))"
  using assms by (auto simp: incrementWindow_def Let_def)

lemma passed_subset: "x \<in> set (passed limit w e ts) \<Longrightarrow> x \<in> set ts"
  by (induction ts arbitrary: e) (auto simp: Let_def split: if_splits)

lemma passed_one_window:
  assumes "sorted (t0 # ts)" "we_windowStart e \<le> t0" "\<not> IsZero (we_windowStart e)" "0 \<le> we_count e"
    and "hi \<le> we_windowStart e + w" "0 < limit"
  shows "length (filter (\<lambda>t. t < hi) (passed limit w e ts)) \<le> nat (limit - we_count e)"
  using assms
proof (induction ts arbitrary: e t0)
  case (Cons t ts)
  show ?case
  proof (cases rule: incrementWindow_cases [of e t w])
    case reset
    then have late: "hi \<le> t" using Cons.prems(3,5) by auto
    have "\<forall>x \<in> set (passed l w e' ts). t \<le> x" for l e'
      using Cons.prems(1) passed_subset by fastforce
    then have "filter (\<lambda>x. x < hi) (passed limit w (incrementWindow e t w) ts) = []"
      using late by (fastforce simp: filter_empty_conv)
    with late show ?thesis by (simp add: Let_def)
  next
    case same
    have "length (filter (\<lambda>x. x < hi) (passed limit w (incrementWindow e t w) ts))
        \<le> nat (limit - we_count (incrementWindow e t w))"
      using Cons.prems same by (intro Cons.IH [of t]) auto
    with same show ?thesis by (auto simp: Let_def)
  qed
qed simp

lemma passed_two_windows:
  assumes "sorted (t0 # ts)" "we_windowStart e \<le> t0" "\<not> IsZero (we_windowStart e)" "0 \<le> we_count e"
    and "hi \<le> we_windowStart e + 2 * w" "0 < limit" "\<forall>t \<in> set ts. \<not> IsZero t" "0 < w"
  shows "length (filter (\<lambda>t. t < hi) (passed limit w e ts)) \<le> nat (limit - we_count e) + nat limit"
  using assms
proof (induction ts arbitrary: e t0)
  case (Cons t ts)
  show ?case
  proof (cases rule: incrementWindow_cases [of e t w])
    case reset
    have "length (filter (\<lambda>x. x < hi) (passed limit w (incrementWindow e t w) ts))
        \<le> nat (limit - we_count (incrementWindow e t w))"
      using Cons.prems reset by (intro passed_one_window [of t]) auto
    with reset Cons.prems(6) show ?thesis by (auto simp: Let_def)
  next
    case same
    have "length (filter (\<lambda>x. x < hi) (passed limit w (incrementWindow e t w) ts))
        \<le> nat (limit - we_count (incrementWindow e t w)) + nat limit"
      using Cons.prems same by (intro Cons.IH [of t]) auto
    with same show ?thesis by (auto simp: Let_def)
  qed
qed simp

lemma passed_interval:
  assumes "sorted ts" "\<forall>t \<in> set ts. \<not> IsZero t" "0 < w" "0 < limit" "0 \<le> we_count e"
    and "\<forall>t \<in> set ts. we_windowStart e \<le> t"
  shows "length (filter (\<lambda>t. lo \<le> t \<and> t < lo + w) (passed limit w e ts)) \<le> 2 * nat limit"
  using assms
proof (induction ts arbitrary: e)
  case (Cons t ts)
  let ?e = "incrementWindow e t w"
  have e: "0 \<le> we_count ?e" "we_windowStart ?e \<le> t" "\<not> IsZero (we_windowStart ?e)" "1 \<le> we_count ?e"
    using incrementWindow_start [of t e w] Cons.prems by auto
  show ?case
  proof (cases "lo \<le> t")
    case False
    have "\<forall>t' \<in> set ts. we_windowStart ?e \<le> t'" using Cons.prems(1) e(2) by fastforce
    with False Cons.IH [of ?e] Cons.prems e(1) show ?thesis by (simp add: Let_def)
  next
    case True
    have "t < we_windowStart ?e + w" using Cons.prems(3)
      by (cases rule: incrementWindow_cases [of e t w]) auto
    have "length (filter (\<lambda>x. x < min (lo + w) (we_windowStart ?e + 2 * w)) (passed limit w ?e ts))
        \<le> nat (limit - we_count ?e) + nat limit"
      using Cons.prems e by (intro passed_two_windows [of t]) auto
    moreover have "filter (\<lambda>x. lo \<le> x \<and> x < lo + w) (passed limit w ?e ts)
        = filter (\<lambda>x. x < min (lo + w) (we_windowStart ?e + 2 * w)) (passed limit w ?e ts)"
    proof (rule filter_cong [OF refl])
      fix x assume "x \<in> set (passed limit w ?e ts)"
      then have "x \<in> set ts" by (rule passed_subset)
      then have "t \<le> x" using Cons.prems(1) by simp
      then show "(lo \<le> x \<and> x < lo + w) = (x < min (lo + w) (we_windowStart ?e + 2 * w))"
        using True \<open>t < we_windowStart ?e + w\<close> by auto
    qed
    ultimately show ?thesis using e(4) Cons.prems(4) by (auto simp: Let_def)
  qed
qed simp

definition call_key :: "(string \<Rightarrow> string) \<Rightarrow> attempt_call \<Rightarrow> string" where
  "call_key lower c = pair_key (ac_ip c) (normalizeUsername lower (ac_user c))"

text \<open>The times of the attempts of one address and user that are let through in a run.\<close>

definition allowed_times :: "(string \<Rightarrow> string) \<Rightarrow> string \<Rightarrow> attempt_call list \<Rightarrow> LoginProtector \<Rightarrow> time list" where
  "allowed_times lower K cs p =
     map (\<lambda>(c, r). ac_now c)
       (filter (\<lambda>(c, r). r = None \<and> call_key lower c = K) (zip cs (run_calls (allow_call lower) cs p)))"

text \<open>The attempts that reach the pair counter in the reference run.\<close>

fun counted :: "(string \<Rightarrow> string) \<Rightarrow> string \<Rightarrow> attempt_call list \<Rightarrow> LoginProtector \<Rightarrow> time list" where
  "counted lower K [] p = []"
| "counted lower K (c # cs) p =
     (case ref_call lower c p of (r, p') \<Rightarrow>
        (if call_key lower c = K \<and> r \<noteq> Some IPRateLimited then [ac_now c] else []) @ counted lower K cs p')"

lemma set_counted: "t \<in> set (counted lower K cs p) \<Longrightarrow> t \<in> set (map ac_now cs)"
  by (induction cs arbitrary: p) (auto split: prod.splits if_splits)

lemma sorted_counted: "sorted (map ac_now cs) \<Longrightarrow> sorted (counted lower K cs p)"
proof (induction cs arbitrary: p)
  case (Cons c cs)
  obtain r p' where r: "ref_call lower c p = (r, p')" by force
  have "\<forall>t \<in> set (counted lower K cs p'). ac_now c \<le> t"
    using Cons.prems set_counted by fastforce
  with Cons r show ?case by auto
qed simp

lemma AllowRef_pair:
  assumes "\<not> cf_DisableRateLimit (lp_config p)" "ref_call lower c p = (r, p')"
  shows "lp_config p' = lp_config p"
    and "entry_of (lp_pairs p') K = (if call_key lower c = K \<and> r \<noteq> Some IPRateLimited
      then incrementWindow (entry_of (lp_pairs p) K) (ac_now c) (cf_PairWindow (lp_config p)) else entry_of (lp_pairs p) K)"
    and "call_key lower c = K \<Longrightarrow> r \<noteq> Some IPRateLimited \<Longrightarrow> r = None \<longleftrightarrow>
      \<not> we_count (incrementWindow (entry_of (lp_pairs p) K) (ac_now c) (cf_PairWindow (lp_config p))) > cf_PairLimit (lp_config p)"
  using assms
  by (auto simp: AllowRef_def count_attempt_def Let_def call_key_def entry_of_def split: if_splits)

lemma allowed_is_passed:
  assumes "\<not> cf_DisableRateLimit (lp_config p)"
  shows "map (\<lambda>(c, r). ac_now c)
      (filter (\<lambda>(c, r). r = None \<and> call_key lower c = K) (zip cs (run_calls (ref_call lower) cs p)))
    = passed (cf_PairLimit (lp_config p)) (cf_PairWindow (lp_config p)) (entry_of (lp_pairs p) K) (counted lower K cs p)"
  using assms
proof (induction cs arbitrary: p)
  case (Cons c cs)
  obtain r p' where r: "ref_call lower c p = (r, p')" by force
  note a = AllowRef_pair(2,3) [OF Cons.prems r, where K = K]
  from Cons.IH [of p'] AllowRef_pair(1) [OF Cons.prems r] Cons.prems a r show ?case
    by (cases "call_key lower c = K \<and> r \<noteq> Some IPRateLimited") (auto simp: Let_def)
qed simp

text \<open>
  C22: the limit bites. On a clock that does not run backwards, any time span of one window lets at most
  twice the configured number of attempts of one address and user name through, however the
  attempts are spread and whatever other addresses do (a fixed window allows one burst before and one
  after its end).
\<close>

theorem login_rate_bound:
  assumes "NewLoginProtector cf = Some p" "\<not> cf_DisableRateLimit cf" "sorted (map ac_now cs)"
    and "\<forall>c \<in> set cs. zero_time < ac_now c"
  shows "length (filter (\<lambda>t. lo \<le> t \<and> t < lo + cf_PairWindow cf) (allowed_times lower K cs p))
    \<le> 2 * nat (cf_PairLimit cf)"
proof -
  have p: "lp_config p = cf" "entry_of (lp_pairs p) K = no_entry" "0 < cf_PairWindow cf" "0 < cf_PairLimit cf"
    using assms(1) by (auto simp: NewLoginProtector_def entry_of_def split: if_splits)
  have "allowed_times lower K cs p =
      passed (cf_PairLimit cf) (cf_PairWindow cf) no_entry (counted lower K cs p)"
    using cleanup_same [OF assms(1,3), of lower] allowed_is_passed [of p lower K cs] p assms(2)
    by (simp add: allowed_times_def)
  moreover have "length (filter (\<lambda>t. lo \<le> t \<and> t < lo + cf_PairWindow cf)
      (passed (cf_PairLimit cf) (cf_PairWindow cf) no_entry (counted lower K cs p))) \<le> 2 * nat (cf_PairLimit cf)"
    using p(3,4) assms(3,4) set_counted [of _ lower K cs p]
    by (intro passed_interval sorted_counted) (fastforce simp: no_entry_def IsZero_def)+
  ultimately show ?thesis by simp
qed

datatype compare_event = Start bool | Finish

fun compare_run :: "compare_event list \<Rightarrow> LoginProtector \<Rightarrow> LoginProtector" where
  "compare_run [] p = p"
| "compare_run (Start cancelled # es) p = compare_run es (snd (compare_start cancelled p))"
| "compare_run (Finish # es) p = compare_run es (compare_finish p)"

lemma compare_run_bound:
  "chan_ok (lp_slots p) \<Longrightarrow> \<not> ch_closed (lp_slots p) \<Longrightarrow>
     chan_ok (lp_slots (compare_run es p)) \<and> ch_cap (lp_slots (compare_run es p)) = ch_cap (lp_slots p)"
proof (induction es p rule: compare_run.induct)
  case (2 cancelled es p)
  have "chan_ok (lp_slots (snd (compare_start cancelled p)))" "\<not> ch_closed (lp_slots (snd (compare_start cancelled p)))"
    "ch_cap (lp_slots (snd (compare_start cancelled p))) = ch_cap (lp_slots p)"
    using 2(2,3) by (auto simp: compare_start_def chan_try_send_def chan_ok_def)
  with 2 show ?case by simp
next
  case (3 es p)
  have "chan_ok (lp_slots (compare_finish p))" "\<not> ch_closed (lp_slots (compare_finish p))"
    "ch_cap (lp_slots (compare_finish p)) = ch_cap (lp_slots p)"
    using 3(2,3) by (auto simp: compare_finish_def chan_recv_def chan_ok_def split: list.splits)
  with 3 show ?case by simp
qed simp

text \<open>
  At most the configured number of password comparisons runs at any time, whatever the order of
  starts, refusals, cancellations and finishes.
\<close>

lemma bcrypt_bound:
  assumes "NewLoginProtector cf = Some p"
  shows "int (ActiveBcrypt (compare_run es p)) \<le> cf_BcryptConcurrent cf"
  using compare_run_bound [of p es] assms
  by (auto simp: NewLoginProtector_def ActiveBcrypt_def chan_ok_def split: if_splits)

section \<open>Witnesses\<close>

definition sample_config :: ProtectorConfig where
  "sample_config = \<lparr>cf_DisableRateLimit = False, cf_IPLimit = 9, cf_IPWindow = 10, cf_PairLimit = 1, cf_PairWindow = 10,
     cf_BcryptConcurrent = 2\<rparr>"

definition sample_protector :: LoginProtector where
  "sample_protector = \<lparr>lp_ips = [], lp_pairs = [], lp_slots = make_chan 2, lp_config = sample_config, lp_nextGC = zero_time\<rparr>"

definition sample_attempts :: "attempt_call list" where
  "sample_attempts = map (\<lambda>t. \<lparr>ac_ip = ''i'', ac_user = ''u'', ac_now = t\<rparr>) [1, 2, 12]"

lemma sample_protector_new: "NewLoginProtector sample_config = Some sample_protector"
  by (simp add: NewLoginProtector_def sample_config_def sample_protector_def)

lemma cleanup_transparent_example:
  "run_calls (\<lambda>c. Allow id (ac_ip c) (ac_user c) (ac_now c)) sample_attempts sample_protector
    = run_calls (\<lambda>c. AllowRef id (ac_ip c) (ac_user c) (ac_now c)) sample_attempts sample_protector"
  by (rule cleanup_transparent [OF sample_protector_new]) (simp add: sample_attempts_def)

theorem login_rate_bound_witness:
  "length (filter (\<lambda>t. 1 \<le> t \<and> t < 1 + cf_PairWindow sample_config)
     (allowed_times id (pair_key ''i'' ''u'') sample_attempts sample_protector)) \<le> 2 * nat (cf_PairLimit sample_config)"
  by (rule login_rate_bound [OF sample_protector_new])
    (simp_all add: sample_attempts_def sample_config_def zero_time_def)

lemma bcrypt_bound_example:
  "int (ActiveBcrypt (compare_run [Start False, Start False, Start False, Finish] sample_protector)) \<le> cf_BcryptConcurrent sample_config"
  by (rule bcrypt_bound [OF sample_protector_new])

end
