(* ===== verification/Store.thy ===== *)
theory Store
  imports GoStrings
begin

text \<open>
  The relational store of users, rooms and memberships: the row types of \<^verbatim>\<open>services/users/models\<close> and
  \<^verbatim>\<open>services/rooms/models\<close> and the repositories over them, \<^verbatim>\<open>services/users/repository\<close> and
  \<^verbatim>\<open>services/rooms/repository\<close>.

  A table is the list of its rows in primary-key order; a query is what its SQL says, with GORM's soft
  deletion (a row is live when \<^verbatim>\<open>deleted_at\<close> is 0, and queries through the model see live rows only).
  A call can fail for reasons of the database; the flag \<open>fault\<close> of an operation stands for that. The
  clock of a deletion mark is the argument \<open>now\<close>, in milliseconds.
\<close>

section \<open>Rows\<close>

record User =
  us_ID :: int
  us_Username :: string
  us_Password :: string
  us_Avatar :: string
  us_Role :: int
  us_IsBot :: bool
  us_Status :: int
  us_LastLoginAt :: "time option"
  us_LastActiveAt :: "time option"
  us_CreatedAt :: time
  us_DeletedAt :: int

record Room =
  ro_ID :: int
  ro_Type :: int
  ro_Name :: string
  ro_CreatorID :: int
  ro_AgentEnabled :: bool
  ro_ModerationEnabled :: bool
  ro_Status :: int
  ro_LastActiveAt :: time
  ro_BotUserID :: int
  ro_CreatedAt :: time
  ro_DeletedAt :: int

record RoomMember =
  mb_ID :: int
  mb_RoomID :: int
  mb_UserID :: int
  mb_Role :: int
  mb_DeletedAt :: int

record DB =
  db_users :: "User list"
  db_rooms :: "Room list"
  db_members :: "RoomMember list"
  db_nextUser :: int
  db_nextRoom :: int
  db_nextMember :: int

datatype db_error = RecordNotFound | DuplicateKey | DBFailure

definition live_users :: "DB \<Rightarrow> User list" where
  "live_users db = filter (\<lambda>u. us_DeletedAt u = 0) (db_users db)"

definition live_rooms :: "DB \<Rightarrow> Room list" where
  "live_rooms db = filter (\<lambda>r. ro_DeletedAt r = 0) (db_rooms db)"

definition live_members :: "DB \<Rightarrow> RoomMember list" where
  "live_members db = filter (\<lambda>m. mb_DeletedAt m = 0) (db_members db)"

section \<open>Users\<close>

text \<open>The unique index on user name and deletion mark refuses a second live user of that name.\<close>

definition CreateUser :: "bool \<Rightarrow> User \<Rightarrow> DB \<Rightarrow> (db_error + int) \<times> DB" where
  "CreateUser fault u db =
     (if fault then (Inl DBFailure, db)
      else if \<exists>v \<in> set (db_users db). us_Username v = us_Username u \<and> us_DeletedAt v = us_DeletedAt u
      then (Inl DuplicateKey, db)
      else (Inr (db_nextUser db),
            db\<lparr>db_users := db_users db @ [u\<lparr>us_ID := db_nextUser db\<rparr>], db_nextUser := db_nextUser db + 1\<rparr>))"

definition GetByUsername :: "bool \<Rightarrow> string \<Rightarrow> DB \<Rightarrow> db_error + User" where
  "GetByUsername fault name db =
     (if fault then Inl DBFailure
      else case find (\<lambda>u. us_Username u = name) (live_users db) of
        None \<Rightarrow> Inl RecordNotFound | Some u \<Rightarrow> Inr u)"

definition GetByID :: "bool \<Rightarrow> int \<Rightarrow> DB \<Rightarrow> db_error + User" where
  "GetByID fault i db =
     (if fault then Inl DBFailure
      else case find (\<lambda>u. us_ID u = i) (live_users db) of
        None \<Rightarrow> Inl RecordNotFound | Some u \<Rightarrow> Inr u)"

definition SoftDeleteUser :: "bool \<Rightarrow> int \<Rightarrow> int \<Rightarrow> DB \<Rightarrow> db_error option \<times> DB" where
  "SoftDeleteUser fault now i db =
     (if fault then (Some DBFailure, db)
      else (None, db\<lparr>db_users := map (\<lambda>u. if us_ID u = i \<and> us_DeletedAt u = 0 then u\<lparr>us_DeletedAt := now\<rparr> else u)
                       (db_users db)\<rparr>))"

section \<open>Rooms\<close>

definition GetRoomByID :: "bool \<Rightarrow> int \<Rightarrow> DB \<Rightarrow> db_error + Room" where
  "GetRoomByID fault roomID db =
     (if fault then Inl DBFailure
      else case find (\<lambda>r. ro_ID r = roomID) (live_rooms db) of
        None \<Rightarrow> Inl RecordNotFound | Some r \<Rightarrow> Inr r)"

definition GetRoomByExactName :: "bool \<Rightarrow> string \<Rightarrow> DB \<Rightarrow> db_error + Room" where
  "GetRoomByExactName fault name db =
     (if fault then Inl DBFailure
      else case find (\<lambda>r. ro_Name r = name) (live_rooms db) of
        None \<Rightarrow> Inl RecordNotFound | Some r \<Rightarrow> Inr r)"

definition SoftDeleteRoom :: "bool \<Rightarrow> int \<Rightarrow> int \<Rightarrow> DB \<Rightarrow> db_error option \<times> DB" where
  "SoftDeleteRoom fault now roomID db =
     (if fault then (Some DBFailure, db)
      else (None, db\<lparr>db_rooms := map (\<lambda>r. if ro_ID r = roomID \<and> ro_DeletedAt r = 0 then r\<lparr>ro_DeletedAt := now\<rparr> else r)
                       (db_rooms db)\<rparr>))"

text \<open>The transaction: when either insert fails nothing is kept.\<close>

definition CreateRoomWithCreator :: "bool \<Rightarrow> bool \<Rightarrow> Room \<Rightarrow> int \<Rightarrow> DB \<Rightarrow> (db_error + Room) \<times> DB" where
  "CreateRoomWithCreator fault1 fault2 room creatorID db =
     (if fault1 \<or> fault2 then (Inl DBFailure, db)
      else
        (let room' = room\<lparr>ro_ID := db_nextRoom db\<rparr>;
             m = \<lparr>mb_ID = db_nextMember db, mb_RoomID = db_nextRoom db, mb_UserID = creatorID, mb_Role = 2, mb_DeletedAt = 0\<rparr>
         in (Inr room',
             db\<lparr>db_rooms := db_rooms db @ [room'], db_nextRoom := db_nextRoom db + 1,
                db_members := db_members db @ [m], db_nextMember := db_nextMember db + 1\<rparr>)))"

record JoinedRoom =
  jr_ID :: int
  jr_Name :: string
  jr_AgentEnabled :: bool
  jr_CreatorID :: int
  jr_CreatedAt :: time
  jr_MemberRole :: int

text \<open>The inner joins of rooms with memberships.\<close>

definition GetJoinedRoomsWithRole :: "bool \<Rightarrow> int \<Rightarrow> DB \<Rightarrow> db_error + JoinedRoom list" where
  "GetJoinedRoomsWithRole fault userID db =
     (if fault then Inl DBFailure
      else Inr (concat (map (\<lambda>r. map (\<lambda>m. \<lparr>jr_ID = ro_ID r, jr_Name = ro_Name r, jr_AgentEnabled = ro_AgentEnabled r,
                                         jr_CreatorID = ro_CreatorID r, jr_CreatedAt = ro_CreatedAt r, jr_MemberRole = mb_Role m\<rparr>)
                 (filter (\<lambda>m. mb_RoomID m = ro_ID r \<and> mb_UserID m = userID) (live_members db))) (live_rooms db))))"

definition GetJoinedRooms :: "bool \<Rightarrow> int \<Rightarrow> DB \<Rightarrow> db_error + Room list" where
  "GetJoinedRooms fault userID db =
     (if fault then Inl DBFailure
      else Inr (concat (map (\<lambda>r. map (\<lambda>m. r)
                 (filter (\<lambda>m. mb_RoomID m = ro_ID r \<and> mb_UserID m = userID) (live_members db))) (live_rooms db))))"

text \<open>\<open>like\<close> is the collation's test for the pattern \<^verbatim>\<open>%keyword%\<close>; the order is by activity, then id.\<close>

definition room_order :: "Room \<Rightarrow> int \<times> int" where
  "room_order r = (- ro_LastActiveAt r, - ro_ID r)"

definition room_before :: "Room \<Rightarrow> Room \<Rightarrow> bool" where
  "room_before a b \<longleftrightarrow> fst (room_order a) < fst (room_order b) \<or>
     fst (room_order a) = fst (room_order b) \<and> snd (room_order a) \<le> snd (room_order b)"

fun insert_room :: "Room \<Rightarrow> Room list \<Rightarrow> Room list" where
  "insert_room x [] = [x]"
| "insert_room x (y # ys) = (if room_before x y then x # y # ys else y # insert_room x ys)"

definition sort_rooms :: "Room list \<Rightarrow> Room list" where
  "sort_rooms rs = foldr insert_room rs []"

definition repo_SearchRooms ::
    "(string \<Rightarrow> string \<Rightarrow> bool) \<Rightarrow> bool \<Rightarrow> string \<Rightarrow> int \<Rightarrow> int \<Rightarrow> DB \<Rightarrow> db_error + Room list \<times> int" where
  "repo_SearchRooms like fault keyword offset limit db =
     (if fault then Inl DBFailure
      else
        (let kw = TrimSpace keyword;
             q = filter (\<lambda>r. ro_Type r = 2 \<and> ro_Status r = 0 \<and> (kw \<noteq> [] \<longrightarrow> like kw (ro_Name r))) (live_rooms db)
         in Inr (take (nat limit) (drop (nat offset) (sort_rooms q)), int (length q))))"

section \<open>Memberships\<close>

definition is_row :: "int \<Rightarrow> int \<Rightarrow> RoomMember \<Rightarrow> bool" where
  "is_row roomID userID m \<longleftrightarrow> mb_RoomID m = roomID \<and> mb_UserID m = userID"

text \<open>An insert that meets the unique index of a live membership does nothing.\<close>

definition AddMember :: "bool \<Rightarrow> int \<Rightarrow> int \<Rightarrow> int \<Rightarrow> DB \<Rightarrow> db_error option \<times> DB" where
  "AddMember fault roomID userID role db =
     (if fault then (Some DBFailure, db)
      else if \<exists>m \<in> set (live_members db). is_row roomID userID m then (None, db)
      else (None, db\<lparr>db_members := db_members db @ [\<lparr>mb_ID = db_nextMember db, mb_RoomID = roomID, mb_UserID = userID,
                        mb_Role = role, mb_DeletedAt = 0\<rparr>],
                     db_nextMember := db_nextMember db + 1\<rparr>))"

text \<open>
  A deletion marks the live row; the unique index refuses it when the same membership was already
  deleted in the same millisecond.
\<close>

definition repo_RemoveMember :: "bool \<Rightarrow> int \<Rightarrow> int \<Rightarrow> int \<Rightarrow> DB \<Rightarrow> db_error option \<times> DB" where
  "repo_RemoveMember fault now roomID userID db =
     (if fault then (Some DBFailure, db)
      else if \<not> (\<exists>m \<in> set (live_members db). is_row roomID userID m) then (Some RecordNotFound, db)
      else if \<exists>m \<in> set (db_members db). is_row roomID userID m \<and> mb_DeletedAt m = now then (Some DuplicateKey, db)
      else (None, db\<lparr>db_members := map (\<lambda>m. if is_row roomID userID m \<and> mb_DeletedAt m = 0 then m\<lparr>mb_DeletedAt := now\<rparr> else m)
                       (db_members db)\<rparr>))"

definition GetUserRoomIDs :: "bool \<Rightarrow> int \<Rightarrow> DB \<Rightarrow> db_error + int list" where
  "GetUserRoomIDs fault userID db =
     (if fault then Inl DBFailure
      else Inr (map mb_RoomID (filter (\<lambda>m. mb_UserID m = userID) (live_members db))))"

definition CheckIsMember :: "bool \<Rightarrow> int \<Rightarrow> int \<Rightarrow> DB \<Rightarrow> db_error + bool" where
  "CheckIsMember fault roomID userID db =
     (if fault then Inl DBFailure else Inr (\<exists>m \<in> set (live_members db). is_row roomID userID m))"

definition GetMemberRole :: "bool \<Rightarrow> int \<Rightarrow> int \<Rightarrow> DB \<Rightarrow> db_error + int option" where
  "GetMemberRole fault roomID userID db =
     (if fault then Inl DBFailure
      else Inr (map_option mb_Role (find (is_row roomID userID) (live_members db))))"

definition GetRoomMembers :: "bool \<Rightarrow> bool \<Rightarrow> int \<Rightarrow> DB \<Rightarrow> db_error + User list" where
  "GetRoomMembers fault1 fault2 roomID db =
     (if fault1 then Inl DBFailure
      else
        (let userIDs = map mb_UserID (filter (\<lambda>m. mb_RoomID m = roomID) (live_members db))
         in if userIDs = [] then Inr []
            else if fault2 then Inl DBFailure
            else Inr (filter (\<lambda>u. us_ID u \<in> set userIDs) (live_users db))))"

record RoomMemberWithRole =
  rw_ID :: int
  rw_Username :: string
  rw_Avatar :: string
  rw_MemberRole :: int

definition GetRoomMembersWithRoles :: "bool \<Rightarrow> int \<Rightarrow> DB \<Rightarrow> db_error + RoomMemberWithRole list" where
  "GetRoomMembersWithRoles fault roomID db =
     (if fault then Inl DBFailure
      else Inr (concat (map (\<lambda>m. map (\<lambda>u. \<lparr>rw_ID = us_ID u, rw_Username = us_Username u, rw_Avatar = us_Avatar u,
                                        rw_MemberRole = mb_Role m\<rparr>)
                  (filter (\<lambda>u. us_ID u = mb_UserID m) (live_users db)))
                (filter (\<lambda>m. mb_RoomID m = roomID) (live_members db)))))"

section \<open>Invariant\<close>

text \<open>\<open>member\<close> and \<open>room_live\<close> are what the services ask of the tables.\<close>

definition member :: "DB \<Rightarrow> int \<Rightarrow> int \<Rightarrow> bool" where
  "member db roomID userID \<longleftrightarrow> (\<exists>m \<in> set (live_members db). is_row roomID userID m)"

definition room_live :: "DB \<Rightarrow> int \<Rightarrow> bool" where
  "room_live db roomID \<longleftrightarrow> (\<exists>r \<in> set (live_rooms db). ro_ID r = roomID)"

text \<open>Primary keys and the two unique indexes.\<close>

definition db_inv :: "DB \<Rightarrow> bool" where
  "db_inv db \<longleftrightarrow> distinct (map ro_ID (db_rooms db)) \<and> (\<forall>r \<in> set (db_rooms db). ro_ID r < db_nextRoom db) \<and>
     distinct (map us_ID (db_users db)) \<and> (\<forall>u \<in> set (db_users db). us_ID u < db_nextUser db) \<and>
     distinct (map (\<lambda>m. (mb_RoomID m, mb_UserID m, mb_DeletedAt m)) (db_members db)) \<and>
     distinct (map (\<lambda>u. (us_Username u, us_DeletedAt u)) (db_users db)) \<and>
     (\<forall>m \<in> set (db_members db). mb_RoomID m < db_nextRoom db)"

lemma set_live [simp]:
  "set (live_rooms db) = {r \<in> set (db_rooms db). ro_DeletedAt r = 0}"
  "set (live_members db) = {m \<in> set (db_members db). mb_DeletedAt m = 0}"
  "set (live_users db) = {u \<in> set (db_users db). us_DeletedAt u = 0}"
  by (auto simp: live_rooms_def live_members_def live_users_def)

lemma bex_map: "(\<exists>x \<in> set (map g xs). P x) \<longleftrightarrow> (\<exists>x \<in> set xs. P (g x))"
  by simp

lemma member_alt: "member db r u \<longleftrightarrow> (\<exists>m \<in> set (db_members db). mb_DeletedAt m = 0 \<and> is_row r u m)"
  by (auto simp: member_def)

lemma room_live_alt: "room_live db r \<longleftrightarrow> (\<exists>x \<in> set (db_rooms db). ro_DeletedAt x = 0 \<and> ro_ID x = r)"
  by (auto simp: room_live_def)

lemma GetRoomByID_Inr:
  "GetRoomByID f roomID db = Inr r \<Longrightarrow> r \<in> set (db_rooms db) \<and> ro_ID r = roomID \<and> ro_DeletedAt r = 0 \<and> \<not> f"
  by (auto simp: GetRoomByID_def live_rooms_def find_Some_iff dest!: nth_mem split: if_splits option.splits)

lemma GetRoomByID_Inr_live: "GetRoomByID f roomID db = Inr r \<Longrightarrow> room_live db roomID"
  using GetRoomByID_Inr [of f roomID db r] by (auto simp: room_live_def)

lemma GetMemberRole_iff: "GetMemberRole False roomID userID db = Inr None \<longleftrightarrow> \<not> member db roomID userID"
  by (auto simp: GetMemberRole_def member_def find_None_iff)

lemma GetUserRoomIDs_member:
  "GetUserRoomIDs False userID db = Inr rs \<Longrightarrow> r \<in> set rs \<longleftrightarrow> member db r userID"
  by (auto simp: GetUserRoomIDs_def member_def is_row_def)

lemma AddMember_member:
  "AddMember f r u role db = (None, db') \<Longrightarrow> member db' r' u' \<longleftrightarrow> (r' = r \<and> u' = u) \<or> member db r' u'"
  by (auto simp: AddMember_def member_def is_row_def split: if_splits)

lemma AddMember_rooms:
  "AddMember f r u role db = (e, db') \<Longrightarrow> room_live db' r' = room_live db r' \<and> db_nextRoom db' = db_nextRoom db"
  by (auto simp: AddMember_def room_live_def split: if_splits)

lemma repo_RemoveMember_member:
  assumes "repo_RemoveMember f now r u db = (None, db')" "now \<noteq> 0"
  shows "member db' r' u' \<longleftrightarrow> (r' \<noteq> r \<or> u' \<noteq> u) \<and> member db r' u'"
proof -
  let ?g = "\<lambda>m. if is_row r u m \<and> mb_DeletedAt m = 0 then m\<lparr>mb_DeletedAt := now\<rparr> else m"
  have ms: "db_members db' = map ?g (db_members db)"
    using assms(1) by (auto simp: repo_RemoveMember_def split: if_splits)
  have g: "mb_DeletedAt (?g m) = 0 \<and> is_row r' u' (?g m) \<longleftrightarrow>
      (r' \<noteq> r \<or> u' \<noteq> u) \<and> mb_DeletedAt m = 0 \<and> is_row r' u' m" for m
    using assms(2) by (auto simp: is_row_def)
  show ?thesis unfolding member_alt ms bex_map g by blast
qed

lemma repo_RemoveMember_rooms:
  "repo_RemoveMember f now r u db = (e, db') \<Longrightarrow> room_live db' r' = room_live db r' \<and> db_nextRoom db' = db_nextRoom db"
  by (auto simp: repo_RemoveMember_def room_live_def split: if_splits)

lemma repo_failure_unchanged:
  "AddMember f r u role db = (Some e, db') \<Longrightarrow> db' = db"
  "repo_RemoveMember f now r u db = (Some e, db') \<Longrightarrow> db' = db"
  "SoftDeleteRoom f now r db = (Some e, db') \<Longrightarrow> db' = db"
  "CreateRoomWithCreator f1 f2 room c db = (Inl e, db') \<Longrightarrow> db' = db"
  by (auto simp: AddMember_def repo_RemoveMember_def SoftDeleteRoom_def CreateRoomWithCreator_def Let_def
      split: if_splits)

lemma SoftDeleteRoom_live:
  assumes "SoftDeleteRoom f now r db = (None, db')" "now \<noteq> 0"
  shows "room_live db' r' \<longleftrightarrow> r' \<noteq> r \<and> room_live db r'" "member db' = member db"
proof -
  let ?g = "\<lambda>x. if ro_ID x = r \<and> ro_DeletedAt x = 0 then x\<lparr>ro_DeletedAt := now\<rparr> else x"
  have db': "db' = db\<lparr>db_rooms := map ?g (db_rooms db)\<rparr>"
    using assms(1) by (auto simp: SoftDeleteRoom_def split: if_splits)
  have g: "ro_DeletedAt (?g x) = 0 \<and> ro_ID (?g x) = r' \<longleftrightarrow> r' \<noteq> r \<and> ro_DeletedAt x = 0 \<and> ro_ID x = r'" for x
    using assms(2) by auto
  have ms: "db_rooms db' = map ?g (db_rooms db)" by (simp add: db')
  show "room_live db' r' \<longleftrightarrow> r' \<noteq> r \<and> room_live db r'" unfolding room_live_alt ms bex_map g by blast
  show "member db' = member db" by (simp add: member_def fun_eq_iff db')
qed

lemma CreateRoomWithCreator_live:
  assumes "CreateRoomWithCreator f1 f2 room c db = (Inr room', db')" "ro_DeletedAt room = 0"
  shows "ro_ID room' = db_nextRoom db"
    "room_live db' r' \<longleftrightarrow> r' = ro_ID room' \<or> room_live db r'"
    "member db' r' u' \<longleftrightarrow> (r' = ro_ID room' \<and> u' = c) \<or> member db r' u'"
  using assms by (auto simp: CreateRoomWithCreator_def Let_def room_live_def member_def is_row_def split: if_splits)

section \<open>The repositories keep the keys\<close>

lemma AddMember_inv:
  assumes "db_inv db" "AddMember f r u role db = (e, db')" "r < db_nextRoom db"
  shows "db_inv db'"
  using assms by (force simp: AddMember_def db_inv_def is_row_def image_iff split: if_splits)

lemma distinct_map_update:
  assumes "distinct (map f xs)" "\<And>x. x \<in> set xs \<Longrightarrow> P x \<Longrightarrow> f (g x) \<notin> f ` set xs"
    and "\<And>x y. x \<in> set xs \<Longrightarrow> y \<in> set xs \<Longrightarrow> P x \<Longrightarrow> P y \<Longrightarrow> f (g x) = f (g y) \<Longrightarrow> f x = f y"
  shows "distinct (map f (map (\<lambda>x. if P x then g x else x) xs))"
  using assms
proof (induction xs)
  case (Cons a xs)
  have ih: "distinct (map f (map (\<lambda>x. if P x then g x else x) xs))"
    using Cons.prems by (intro Cons.IH) (auto simp: image_iff)
  have "f (if P a then g a else a) \<notin> (\<lambda>x. f (if P x then g x else x)) ` set xs"
  proof
    assume "f (if P a then g a else a) \<in> (\<lambda>x. f (if P x then g x else x)) ` set xs"
    then obtain x where x: "x \<in> set xs" "f (if P a then g a else a) = f (if P x then g x else x)" by auto
    have ne: "f a \<noteq> f x" using Cons.prems(1) x(1) by auto
    show False
      using x ne Cons.prems(2) [of a] Cons.prems(2) [of x] Cons.prems(3) [of a x]
      by (cases "P a"; cases "P x") (auto simp: image_iff)
  qed
  with ih show ?case by (simp add: comp_def)
qed simp

lemma repo_RemoveMember_inv:
  assumes "db_inv db" "repo_RemoveMember f now r u db = (e, db')"
  shows "db_inv db'"
proof (cases e)
  case (Some x)
  with repo_failure_unchanged(2) [of f now r u db x db'] assms show ?thesis by simp
next
  case None
  let ?g = "\<lambda>m. if is_row r u m \<and> mb_DeletedAt m = 0 then m\<lparr>mb_DeletedAt := now\<rparr> else m"
  let ?k = "\<lambda>m. (mb_RoomID m, mb_UserID m, mb_DeletedAt m)"
  have db': "db' = db\<lparr>db_members := map ?g (db_members db)\<rparr>"
    and free: "\<not> (\<exists>m \<in> set (db_members db). is_row r u m \<and> mb_DeletedAt m = now)"
    using assms(2) None by (auto simp: repo_RemoveMember_def split: if_splits)
  have "distinct (map ?k (map ?g (db_members db)))"
  proof (rule distinct_map_update)
    show "distinct (map ?k (db_members db))" using assms(1) by (simp add: db_inv_def)
  next
    fix x
    assume "x \<in> set (db_members db)" "is_row r u x \<and> mb_DeletedAt x = 0"
    with free show "?k (x\<lparr>mb_DeletedAt := now\<rparr>) \<notin> ?k ` set (db_members db)"
      by (force simp: is_row_def)
  next
    fix x y
    assume "is_row r u x \<and> mb_DeletedAt x = 0" "is_row r u y \<and> mb_DeletedAt y = 0"
    then show "?k x = ?k y" by (simp add: is_row_def)
  qed
  with assms(1) show ?thesis by (auto simp: db' db_inv_def)
qed

lemma SoftDeleteRoom_inv:
  assumes "db_inv db" "SoftDeleteRoom f now r db = (e, db')"
  shows "db_inv db'"
proof (cases f)
  case True
  with assms show ?thesis by (simp add: SoftDeleteRoom_def)
next
  case False
  let ?g = "\<lambda>x. if ro_ID x = r \<and> ro_DeletedAt x = 0 then x\<lparr>ro_DeletedAt := now\<rparr> else x"
  have db': "db' = db\<lparr>db_rooms := map ?g (db_rooms db)\<rparr>"
    using assms(2) False by (simp add: SoftDeleteRoom_def)
  have "ro_ID (?g x) = ro_ID x" for x by simp
  then have "map ro_ID (map ?g (db_rooms db)) = map ro_ID (db_rooms db)" by simp
  with assms(1) show ?thesis by (auto simp: db' db_inv_def simp del: map_map)
qed

lemma CreateRoomWithCreator_inv:
  assumes "db_inv db" "CreateRoomWithCreator f1 f2 room c db = (res, db')"
  shows "db_inv db'"
  using assms by (force simp: CreateRoomWithCreator_def Let_def db_inv_def image_iff split: if_splits)

lemma CreateUser_inv:
  assumes "db_inv db" "CreateUser f u db = (res, db')"
  shows "db_inv db'"
  using assms by (force simp: CreateUser_def db_inv_def image_iff split: if_splits)

end
