(* ===== verification/Rooms.thy ===== *)
theory Rooms
  imports Store HubSpec
begin

text \<open>
  The room service: \<^verbatim>\<open>services/rooms/application/service.go\<close>, its HTTP module \<^verbatim>\<open>api/module.go\<close> and the
  notifications it sends to the connection layer (\<^verbatim>\<open>events/redis_notifier.go\<close>).

  An operation returns its error or result, the new database and the notifications, in order; the
  notifier is configured. \<open>fault n\<close> says that the n-th call to the database fails; \<open>now\<close> is the clock in
  nanoseconds, deletion marks are in milliseconds. The invariant \<open>in_step\<close> relates the database to the
  hub: for every live room the connection of an online user is subscribed exactly if the user is a member.
\<close>

section \<open>Notifications\<close>

datatype notification = NJoin int int | NLeave int int | NDisband int

definition notify :: "notification \<Rightarrow> Hub \<Rightarrow> Hub" where
  "notify n h = (case n of NJoin u r \<Rightarrow> JoinRoom u r h | NLeave u r \<Rightarrow> LeaveRoom u r h | NDisband r \<Rightarrow> DisbandRoom r h)"

section \<open>The service\<close>

datatype room_error =
    ErrRoomNotFound
  | ErrNotRoomMember
  | ErrTargetNotMember
  | ErrPermissionDenied
  | ErrCannotRemoveOwner
  | ErrInvalidRoomName
  | ErrStore db_error

definition svc_CreateRoom ::
    "(nat \<Rightarrow> bool) \<Rightarrow> time \<Rightarrow> string \<Rightarrow> int \<Rightarrow> DB \<Rightarrow> (room_error + Room) \<times> DB \<times> notification list" where
  "svc_CreateRoom fault now name creatorID db =
     (let nm = TrimSpace name
      in if nm = [] then (Inl ErrInvalidRoomName, db, [])
         else
           (let room = \<lparr>ro_ID = 0, ro_Type = 2, ro_Name = nm, ro_CreatorID = creatorID, ro_AgentEnabled = False,
                        ro_ModerationEnabled = True, ro_Status = 0, ro_LastActiveAt = now, ro_BotUserID = 0,
                        ro_CreatedAt = now, ro_DeletedAt = 0\<rparr>
            in case CreateRoomWithCreator (fault 0) (fault 1) room creatorID db of
                 (Inl e, db') \<Rightarrow> (Inl (ErrStore e), db', [])
               | (Inr room', db') \<Rightarrow> (Inr room', db', [NJoin creatorID (ro_ID room')])))"

definition room_lookup :: "db_error \<Rightarrow> room_error" where
  "room_lookup e = (if e = RecordNotFound then ErrRoomNotFound else ErrStore e)"

definition svc_JoinRoom :: "(nat \<Rightarrow> bool) \<Rightarrow> int \<Rightarrow> int \<Rightarrow> DB \<Rightarrow> room_error option \<times> DB \<times> notification list" where
  "svc_JoinRoom fault roomID userID db =
     (case GetRoomByID (fault 0) roomID db of
        Inl e \<Rightarrow> (Some (room_lookup e), db, [])
      | Inr _ \<Rightarrow>
          (case AddMember (fault 1) roomID userID 1 db of
             (Some e, db') \<Rightarrow> (Some (ErrStore e), db', [])
           | (None, db') \<Rightarrow> (None, db', [NJoin userID roomID])))"

definition svc_RemoveMember ::
    "(nat \<Rightarrow> bool) \<Rightarrow> time \<Rightarrow> int \<Rightarrow> int \<Rightarrow> int \<Rightarrow> int \<Rightarrow> DB \<Rightarrow> room_error option \<times> DB \<times> notification list" where
  "svc_RemoveMember fault now roomID operatorID targetUserID globalRole db =
     (case GetRoomByID (fault 0) roomID db of
        Inl e \<Rightarrow> (Some (room_lookup e), db, [])
      | Inr room \<Rightarrow>
          (let quick = (globalRole = 1 \<or> operatorID = targetUserID \<or> ro_CreatorID room = operatorID);
               checked = (if quick then Inr True
                          else case GetMemberRole (fault 1) roomID operatorID db of
                            Inl e \<Rightarrow> Inl e
                          | Inr role \<Rightarrow> Inr (case role of None \<Rightarrow> False | Some r \<Rightarrow> r \<ge> 2))
           in case checked of
                Inl e \<Rightarrow> (Some (ErrStore e), db, [])
              | Inr canRemove \<Rightarrow>
                  if \<not> canRemove then (Some ErrPermissionDenied, db, [])
                  else if targetUserID = ro_CreatorID room \<and> operatorID \<noteq> targetUserID \<and> globalRole \<noteq> 1
                  then (Some ErrCannotRemoveOwner, db, [])
                  else
                    (case repo_RemoveMember (fault 2) (UnixMilli now) roomID targetUserID db of
                       (Some e, db') \<Rightarrow> (Some (if e = RecordNotFound then ErrTargetNotMember else ErrStore e), db', [])
                     | (None, db') \<Rightarrow> (None, db', [NLeave targetUserID roomID]))))"

definition svc_RoomMembers ::
    "(nat \<Rightarrow> bool) \<Rightarrow> int \<Rightarrow> int \<Rightarrow> DB \<Rightarrow> room_error + RoomMemberWithRole list \<times> int" where
  "svc_RoomMembers fault roomID requesterID db =
     (case CheckIsMember (fault 0) roomID requesterID db of
        Inl e \<Rightarrow> Inl (ErrStore e)
      | Inr isMember \<Rightarrow>
          if \<not> isMember then Inl ErrNotRoomMember
          else case GetRoomByID (fault 1) roomID db of
            Inl e \<Rightarrow> Inl (ErrStore e)
          | Inr room \<Rightarrow>
              (case GetRoomMembersWithRoles (fault 2) roomID db of
                 Inl e \<Rightarrow> Inl (ErrStore e)
               | Inr ms \<Rightarrow> Inr (ms, ro_CreatorID room)))"

definition svc_JoinedRooms :: "(nat \<Rightarrow> bool) \<Rightarrow> int \<Rightarrow> DB \<Rightarrow> room_error + JoinedRoom list" where
  "svc_JoinedRooms fault userID db =
     (case GetJoinedRoomsWithRole (fault 0) userID db of Inl e \<Rightarrow> Inl (ErrStore e) | Inr rs \<Rightarrow> Inr rs)"

definition clamp_page :: "int \<Rightarrow> int \<Rightarrow> int \<times> int" where
  "clamp_page offset limit =
     (let o1 = (if offset < 0 then 0 else offset);
          l1 = (if limit < 1 then 20 else limit);
          l2 = (if l1 > 100 then 100 else l1)
      in (o1, l2))"

definition svc_SearchRooms ::
    "(string \<Rightarrow> string \<Rightarrow> bool) \<Rightarrow> (nat \<Rightarrow> bool) \<Rightarrow> string \<Rightarrow> int \<Rightarrow> int \<Rightarrow> DB \<Rightarrow> room_error + Room list \<times> int" where
  "svc_SearchRooms like fault keyword offset limit db =
     (case clamp_page offset limit of (o', l') \<Rightarrow>
        (case repo_SearchRooms like (fault 0) keyword o' l' db of Inl e \<Rightarrow> Inl (ErrStore e) | Inr r \<Rightarrow> Inr r))"

definition svc_DisbandRoom ::
    "(nat \<Rightarrow> bool) \<Rightarrow> time \<Rightarrow> int \<Rightarrow> int \<Rightarrow> DB \<Rightarrow> room_error option \<times> DB \<times> notification list" where
  "svc_DisbandRoom fault now roomID operatorID db =
     (case GetRoomByID (fault 0) roomID db of
        Inl e \<Rightarrow> (Some (room_lookup e), db, [])
      | Inr room \<Rightarrow>
          (case GetMemberRole (fault 1) roomID operatorID db of
             Inl e \<Rightarrow> (Some (ErrStore e), db, [])
           | Inr None \<Rightarrow> (Some ErrNotRoomMember, db, [])
           | Inr (Some role) \<Rightarrow>
               if ro_CreatorID room \<noteq> operatorID \<and> role \<noteq> 3 then (Some ErrPermissionDenied, db, [])
               else
                 (case SoftDeleteRoom (fault 2) (UnixMilli now) roomID db of
                    (Some e, db') \<Rightarrow> (Some (ErrStore e), db', [])
                  | (None, db') \<Rightarrow> (None, db', [NDisband roomID]))))"

section \<open>HTTP\<close>

definition pathID :: "string \<Rightarrow> int option" where
  "pathID s = (case ParseInt s of (v, None) \<Rightarrow> if v \<le> 0 then None else Some v | (_, Some _) \<Rightarrow> None)"

definition queryInt :: "string \<Rightarrow> int \<Rightarrow> int" where
  "queryInt s fallback = (case ParseInt s of (v, None) \<Rightarrow> v | (_, Some _) \<Rightarrow> fallback)"

definition writeError :: "room_error \<Rightarrow> http_status" where
  "writeError e =
     (case e of
        ErrInvalidRoomName \<Rightarrow> BadRequest
      | ErrRoomNotFound \<Rightarrow> NotFound
      | ErrTargetNotMember \<Rightarrow> NotFound
      | ErrNotRoomMember \<Rightarrow> Forbidden
      | ErrPermissionDenied \<Rightarrow> Forbidden
      | ErrCannotRemoveOwner \<Rightarrow> Forbidden
      | ErrStore _ \<Rightarrow> ServerError)"

text \<open>The handlers; \<open>body\<close> is the bound request, \<open>None\<close> when binding fails.\<close>

definition http_createRoom ::
    "(nat \<Rightarrow> bool) \<Rightarrow> time \<Rightarrow> string option \<Rightarrow> int \<Rightarrow> DB \<Rightarrow> http_status \<times> DB \<times> notification list" where
  "http_createRoom fault now body userID db =
     (case body of
        None \<Rightarrow> (BadRequest, db, [])
      | Some name \<Rightarrow>
          if name = [] then (BadRequest, db, [])
          else (case svc_CreateRoom fault now name userID db of
             (Inl e, db', ns) \<Rightarrow> (writeError e, db', ns)
           | (Inr _, db', ns) \<Rightarrow> (OK, db', ns)))"

definition http_joinRoom ::
    "(nat \<Rightarrow> bool) \<Rightarrow> string \<Rightarrow> int \<Rightarrow> DB \<Rightarrow> http_status \<times> DB \<times> notification list" where
  "http_joinRoom fault idParam userID db =
     (case pathID idParam of
        None \<Rightarrow> (BadRequest, db, [])
      | Some roomID \<Rightarrow>
          (case svc_JoinRoom fault roomID userID db of
             (Some e, db', ns) \<Rightarrow> (writeError e, db', ns)
           | (None, db', ns) \<Rightarrow> (OK, db', ns)))"

definition http_removeMember ::
    "(nat \<Rightarrow> bool) \<Rightarrow> time \<Rightarrow> string \<Rightarrow> string \<Rightarrow> int \<Rightarrow> int \<Rightarrow> DB \<Rightarrow> http_status \<times> DB \<times> notification list" where
  "http_removeMember fault now idParam userParam userID userRole db =
     (case (pathID idParam, pathID userParam) of
        (Some roomID, Some target) \<Rightarrow>
          (case svc_RemoveMember fault now roomID userID target userRole db of
             (Some e, db', ns) \<Rightarrow> (writeError e, db', ns)
           | (None, db', ns) \<Rightarrow> (OK, db', ns))
      | _ \<Rightarrow> (BadRequest, db, []))"

definition http_roomMembers ::
    "(nat \<Rightarrow> bool) \<Rightarrow> string \<Rightarrow> int \<Rightarrow> DB \<Rightarrow> http_status \<times> (RoomMemberWithRole \<times> bool) list" where
  "http_roomMembers fault idParam userID db =
     (case pathID idParam of
        None \<Rightarrow> (BadRequest, [])
      | Some roomID \<Rightarrow>
          (case svc_RoomMembers fault roomID userID db of
             Inl e \<Rightarrow> (writeError e, [])
           | Inr (ms, creatorID) \<Rightarrow> (OK, map (\<lambda>m. (m, rw_ID m = creatorID)) ms)))"

definition http_searchRooms ::
    "(string \<Rightarrow> string \<Rightarrow> bool) \<Rightarrow> (nat \<Rightarrow> bool) \<Rightarrow> string \<Rightarrow> string \<Rightarrow> string \<Rightarrow> DB \<Rightarrow>
     http_status \<times> Room list \<times> int \<times> int \<times> int" where
  "http_searchRooms like fault query offsetParam limitParam db =
     (let offset = queryInt offsetParam 0; limit = queryInt limitParam 20
      in case svc_SearchRooms like fault query offset limit db of
           Inl e \<Rightarrow> (writeError e, [], 0, 0, 0)
         | Inr (rooms, n) \<Rightarrow> (OK, rooms, n, max offset 0, min (max limit 1) 100))"

definition http_disbandRoom ::
    "(nat \<Rightarrow> bool) \<Rightarrow> time \<Rightarrow> string \<Rightarrow> int \<Rightarrow> DB \<Rightarrow> http_status \<times> DB \<times> notification list" where
  "http_disbandRoom fault now idParam userID db =
     (case pathID idParam of
        None \<Rightarrow> (BadRequest, db, [])
      | Some roomID \<Rightarrow>
          (case svc_DisbandRoom fault now roomID userID db of
             (Some e, db', ns) \<Rightarrow> (writeError e, db', ns)
           | (None, db', ns) \<Rightarrow> (OK, db', ns)))"

section \<open>Authorisation\<close>

text \<open>
  C18: who may remove whom. When \<open>RemoveMember\<close> succeeds the room is live, the target was a member and is
  not any more, nobody else's membership changed, and the operator is a super administrator, the target,
  the creator or a member with role 2 or more; the creator is only ever removed by himself or a super
  administrator.
\<close>

theorem RemoveMember_authorised:
  assumes "svc_RemoveMember fault now roomID op target globalRole db = (None, db', ns)" "UnixMilli now \<noteq> 0"
  shows "\<exists>room. GetRoomByID False roomID db = Inr room \<and> member db roomID target \<and>
    (\<forall>r u. member db' r u \<longleftrightarrow> member db r u \<and> \<not> (r = roomID \<and> u = target)) \<and>
    (globalRole = 1 \<or> op = target \<or> ro_CreatorID room = op \<or>
       (\<exists>role \<ge> 2. GetMemberRole False roomID op db = Inr (Some role))) \<and>
    (target = ro_CreatorID room \<longrightarrow> op = target \<or> globalRole = 1) \<and> ns = [NLeave target roomID]"
proof -
  obtain room where room: "GetRoomByID (fault 0) roomID db = Inr room"
    using assms(1) by (auto simp: svc_RemoveMember_def split: sum.splits)
  then have nf: "GetRoomByID False roomID db = Inr room" by (cases "fault 0") (auto simp: GetRoomByID_def)
  have can: "globalRole = 1 \<or> op = target \<or> ro_CreatorID room = op \<or>
      (\<exists>role \<ge> 2. GetMemberRole False roomID op db = Inr (Some role))"
    using assms(1) room
    by (auto simp: svc_RemoveMember_def Let_def GetMemberRole_def split: if_splits option.splits)
  have owner: "target = ro_CreatorID room \<longrightarrow> op = target \<or> globalRole = 1"
    using assms(1) room by (auto simp: svc_RemoveMember_def Let_def split: if_splits sum.splits)
  have rem: "repo_RemoveMember (fault 2) (UnixMilli now) roomID target db = (None, db')" "ns = [NLeave target roomID]"
    using assms(1) room
    by (auto simp: svc_RemoveMember_def Let_def split: if_splits sum.splits prod.splits option.splits)
  have "member db roomID target"
    using rem(1) by (auto simp: repo_RemoveMember_def member_def split: if_splits)
  with nf can owner rem(2) repo_RemoveMember_member [OF rem(1) assms(2)] show ?thesis by auto
qed

text \<open>
  Who may disband. A room is disbanded only by a live member who created it or has role 3; then the
  room is gone for every later lookup while all other rooms stay, and the gateways are told.
\<close>

lemma DisbandRoom_authorised:
  assumes "svc_DisbandRoom fault now roomID op db = (None, db', ns)" "UnixMilli now \<noteq> 0"
  shows "\<exists>room. GetRoomByID False roomID db = Inr room \<and> member db roomID op \<and>
    (ro_CreatorID room = op \<or> GetMemberRole False roomID op db = Inr (Some 3)) \<and>
    (\<forall>r. room_live db' r \<longleftrightarrow> room_live db r \<and> r \<noteq> roomID) \<and> ns = [NDisband roomID]"
proof -
  obtain room where room: "GetRoomByID (fault 0) roomID db = Inr room"
    using assms(1) by (auto simp: svc_DisbandRoom_def split: sum.splits)
  then have nf: "GetRoomByID False roomID db = Inr room" by (cases "fault 0") (auto simp: GetRoomByID_def)
  obtain role where role: "GetMemberRole (fault 1) roomID op db = Inr (Some role)"
    "ro_CreatorID room = op \<or> role = 3" "SoftDeleteRoom (fault 2) (UnixMilli now) roomID db = (None, db')"
    "ns = [NDisband roomID]"
    using assms(1) room by (auto simp: svc_DisbandRoom_def split: sum.splits option.splits if_splits prod.splits)
  then have r: "GetMemberRole False roomID op db = Inr (Some role)" by (cases "fault 1") (auto simp: GetMemberRole_def)
  have "member db roomID op" using r GetMemberRole_iff [of roomID op db] by auto
  with nf r role(2,4) SoftDeleteRoom_live(1) [OF role(3) assms(2)] show ?thesis by auto
qed

section \<open>The database and the hub stay in step\<close>

definition in_step :: "DB \<Rightarrow> flat \<Rightarrow> bool" where
  "in_step db f \<longleftrightarrow> (\<forall>u c cl r. fl_users f u = Some c \<longrightarrow> fl_clients f c = Some cl \<longrightarrow>
     (room_live db r \<longrightarrow> (in_room cl r \<longleftrightarrow> member db r u)) \<and> (in_room cl r \<longrightarrow> r < db_nextRoom db))"

definition system_ok :: "DB \<times> Hub \<Rightarrow> bool" where
  "system_ok s \<longleftrightarrow> db_inv (fst s) \<and> hub_shape (snd s) \<and> consistent (flat_of (snd s)) \<and> in_step (fst s) (flat_of (snd s))"

text \<open>
  What happens to a gateway over time. \<open>CConnect\<close> is the WebSocket handler: the rooms of the user are
  read from the database and the new client is registered with all of them.
\<close>

datatype system_call =
    CCreate string int
  | CJoin int int
  | CRemove int int int int
  | CDisband int int
  | CConnect nat int
  | CDisconnect nat

definition deliver_notifications :: "notification list \<Rightarrow> Hub \<Rightarrow> Hub" where
  "deliver_notifications ns h = fold notify ns h"

fun run_call :: "(nat \<Rightarrow> bool) \<Rightarrow> time \<Rightarrow> system_call \<Rightarrow> DB \<times> Hub \<Rightarrow> DB \<times> Hub" where
  "run_call fault now (CCreate name u) (db, h) =
     (case svc_CreateRoom fault now name u db of (_, db', ns) \<Rightarrow> (db', deliver_notifications ns h))"
| "run_call fault now (CJoin r u) (db, h) =
     (case svc_JoinRoom fault r u db of (_, db', ns) \<Rightarrow> (db', deliver_notifications ns h))"
| "run_call fault now (CRemove r op t role) (db, h) =
     (case svc_RemoveMember fault now r op t role db of (_, db', ns) \<Rightarrow> (db', deliver_notifications ns h))"
| "run_call fault now (CDisband r op) (db, h) =
     (case svc_DisbandRoom fault now r op db of (_, db', ns) \<Rightarrow> (db', deliver_notifications ns h))"
| "run_call fault now (CConnect c u) (db, h) =
     (case GetUserRoomIDs (fault 0) u db of
        Inl _ \<Rightarrow> (db, h)
      | Inr rs \<Rightarrow> if get_client c h = None
                 then (db, Register c rs (set_client c (new_client u [] [] [] [] now) h)) else (db, h))"
| "run_call fault now (CDisconnect c) (db, h) = (db, Unregister c h)"

fun run_system :: "((nat \<Rightarrow> bool) \<times> time \<times> system_call) list \<Rightarrow> DB \<times> Hub \<Rightarrow> DB \<times> Hub" where
  "run_system [] s = s"
| "run_system ((fault, now, call) # calls) s = run_system calls (run_call fault now call s)"

definition empty_db :: DB where
  "empty_db = \<lparr>db_users = [], db_rooms = [], db_members = [], db_nextUser = 1, db_nextRoom = 1, db_nextMember = 1\<rparr>"

lemma users_match_active:
  "users_match f \<Longrightarrow> fl_users f u = Some c \<Longrightarrow> \<exists>cl. fl_clients f c = Some cl \<and> cl_UserID cl = u \<and> cl_active cl"
  by (simp add: users_match_def)

lemma users_match_inj:
  "users_match f \<Longrightarrow> fl_users f u = Some c \<Longrightarrow> fl_users f u' = Some c \<Longrightarrow> u = u'"
  by (metis users_match_active option.inject)

lemma join_view:
  assumes "users_match f" "fl_users f u' = Some c" "fl_clients (flat_op (OJoin u r) f) c = Some cl'"
  shows "\<exists>cl. fl_clients f c = Some cl \<and> (\<forall>r'. in_room cl' r' \<longleftrightarrow> in_room cl r' \<or> u' = u \<and> r' = r)"
proof (cases "fl_users f u")
  case None
  with assms show ?thesis by auto
next
  case (Some d)
  obtain cl where cl: "fl_clients f d = Some cl" "cl_active cl" using users_match_active [OF assms(1) Some] by blast
  have j: "in_room (cl\<lparr>cl_roomIDs := Some (map_put r () (case cl_roomIDs cl of None \<Rightarrow> [] | Some m \<Rightarrow> m))\<rparr>) r' \<longleftrightarrow>
      r' = r \<or> in_room cl r'" for r' by (auto simp: in_room_def split: option.splits)
  show ?thesis
  proof (cases "c = d")
    case True
    then have "u' = u" using users_match_inj [OF assms(1,2)] Some by simp
    with assms(3) cl True Some j show ?thesis
      by (cases "in_room cl r") (auto simp: flat_join_def flat_set_def simp del: in_room_updates)
  next
    case False
    then have "u' \<noteq> u" using assms(2) Some by auto
    with False assms(3) cl Some show ?thesis
      by (cases "in_room cl r") (auto simp: flat_join_def flat_set_def)
  qed
qed

lemma leave_view:
  assumes "users_match f" "fl_users f u' = Some c" "fl_clients (flat_op (OLeave u r) f) c = Some cl'"
  shows "\<exists>cl. fl_clients f c = Some cl \<and> (\<forall>r'. in_room cl' r' \<longleftrightarrow> in_room cl r' \<and> \<not> (u' = u \<and> r' = r))"
proof (cases "fl_users f u")
  case None
  with assms show ?thesis by auto
next
  case (Some d)
  obtain cl where cl: "fl_clients f d = Some cl" "cl_active cl" using users_match_active [OF assms(1) Some] by blast
  show ?thesis
  proof (cases "c = d")
    case True
    then have "u' = u" using users_match_inj [OF assms(1,2)] Some by simp
    with assms(3) cl True Some show ?thesis
      by (cases "in_room cl r") (auto simp: flat_leave_def flat_set_def)
  next
    case False
    then have "u' \<noteq> u" using assms(2) Some by auto
    with False assms(3) cl Some show ?thesis
      by (cases "in_room cl r") (auto simp: flat_leave_def flat_set_def)
  qed
qed

lemma disband_view:
  assumes "consistent f" "fl_users f u' = Some c" "fl_clients (flat_op (ODisband r) f) c = Some cl'"
  shows "\<exists>cl. fl_clients f c = Some cl \<and> (\<forall>r'. in_room cl' r' \<longleftrightarrow> in_room cl r' \<and> r' \<noteq> r)"
proof -
  obtain cl where cl: "fl_clients f c = Some cl" "cl_active cl"
    using users_match_active [of f u' c] assms(1,2) by (auto simp: consistent_def)
  have "c \<in> fl_rooms f r \<longleftrightarrow> in_room cl r" using assms(1) cl by (auto simp: consistent_def rooms_match_def)
  with cl assms(3) show ?thesis by (cases "c \<in> fl_rooms f r") auto
qed

lemma flat_users_same:
  "fl_users (flat_op (OJoin u r) f) = fl_users f" "fl_users (flat_op (OLeave u r) f) = fl_users f"
  "fl_users (flat_op (ODisband r) f) = fl_users f"
  by (auto simp: flat_join_def flat_leave_def flat_set_def split: option.splits)

lemma in_stepI_view:
  assumes "in_step db f" "fl_users g = fl_users f"
    and "\<And>u c cl'. fl_users f u = Some c \<Longrightarrow> fl_clients g c = Some cl' \<Longrightarrow>
      \<exists>cl. fl_clients f c = Some cl \<and> (\<forall>r. in_room cl' r \<longleftrightarrow> Q u r (in_room cl r))"
    and "\<And>u r b. room_live db' r \<Longrightarrow> (room_live db r \<Longrightarrow> b = member db r u) \<Longrightarrow> (b \<Longrightarrow> r < db_nextRoom db) \<Longrightarrow>
      Q u r b = member db' r u"
    and "\<And>u r b. Q u r b \<Longrightarrow> (b \<Longrightarrow> r < db_nextRoom db) \<Longrightarrow> r < db_nextRoom db'"
  shows "in_step db' g"
  unfolding in_step_def
proof (intro allI impI)
  fix u c cl' r
  assume "fl_users g u = Some c" and cl': "fl_clients g c = Some cl'"
  then have u: "fl_users f u = Some c" using assms(2) by simp
  from assms(3) [OF u cl'] obtain cl where cl: "fl_clients f c = Some cl" "\<And>r. in_room cl' r \<longleftrightarrow> Q u r (in_room cl r)"
    by blast
  from assms(1) u cl(1) have old: "room_live db r \<Longrightarrow> in_room cl r = member db r u" "in_room cl r \<Longrightarrow> r < db_nextRoom db"
    unfolding in_step_def by blast+
  show "(room_live db' r \<longrightarrow> in_room cl' r = member db' r u) \<and> (in_room cl' r \<longrightarrow> r < db_nextRoom db')"
    using assms(4) [of r "in_room cl r" u] assms(5) [of u r "in_room cl r"] cl(2) [of r] old by auto
qed

lemma notify_ok:
  assumes "hub_shape h" "consistent (flat_of h)"
  shows "hub_shape (notify n h) \<and> consistent (flat_of (notify n h)) \<and>
    flat_of (notify n h) = flat_op (case n of NJoin u r \<Rightarrow> OJoin u r | NLeave u r \<Rightarrow> OLeave u r | NDisband r \<Rightarrow> ODisband r) (flat_of h)"
proof -
  let ?op = "case n of NJoin u r \<Rightarrow> OJoin u r | NLeave u r \<Rightarrow> OLeave u r | NDisband r \<Rightarrow> ODisband r"
  have "notify n h = run_op ?op h" by (cases n) (simp_all add: notify_def)
  moreover have "op_allowed ?op (flat_of h)" by (cases n) simp_all
  ultimately show ?thesis using run_op_flat [OF assms(1), of ?op] flat_op_consistent [OF assms(2), of ?op] by simp
qed

lemma notified_system_ok:
  assumes "hub_shape h" "consistent (flat_of h)" "db_inv db'"
    and "in_step db' (flat_op (case n of NJoin u r \<Rightarrow> OJoin u r | NLeave u r \<Rightarrow> OLeave u r | NDisband r \<Rightarrow> ODisband r) (flat_of h))"
  shows "system_ok (db', deliver_notifications [n] h)"
  using notify_ok [OF assms(1,2), of n] assms(3,4) unfolding system_ok_def deliver_notifications_def by (metis fold_simps fst_conv snd_conv)

lemma room_live_bound: "db_inv db \<Longrightarrow> room_live db r \<Longrightarrow> r < db_nextRoom db"
  by (auto simp: db_inv_def room_live_def)

lemma member_bound: "db_inv db \<Longrightarrow> member db r u \<Longrightarrow> r < db_nextRoom db"
  by (auto simp: db_inv_def member_def is_row_def)

lemma CCreate_ok:
  assumes "system_ok (db, h)"
  shows "system_ok (run_call fault now (CCreate name u) (db, h))"
proof (cases "svc_CreateRoom fault now name u db")
  case (fields res db' ns)
  show ?thesis
  proof (cases res)
    case (Inl e)
    with fields have "db' = db" "ns = []"
      by (auto simp: svc_CreateRoom_def Let_def dest: repo_failure_unchanged split: if_splits prod.splits sum.splits)
    with assms fields show ?thesis by (simp add: deliver_notifications_def)
  next
    case (Inr room)
    with fields obtain room0 where cr: "CreateRoomWithCreator (fault 0) (fault 1) room0 u db = (Inr room, db')"
      "ro_DeletedAt room0 = 0" "ns = [NJoin u (ro_ID room)]"
      by (auto simp: svc_CreateRoom_def Let_def split: if_splits prod.splits sum.splits)
    note live = CreateRoomWithCreator_live [OF cr(1,2)]
    have next': "db_nextRoom db' = db_nextRoom db + 1"
      using cr(1) by (auto simp: CreateRoomWithCreator_def Let_def split: if_splits)
    have inv: "db_inv db" "db_inv db'" using assms CreateRoomWithCreator_inv [OF _ cr(1)] by (simp_all add: system_ok_def)
    have hub: "hub_shape h" "consistent (flat_of h)" "in_step db (flat_of h)" using assms by (simp_all add: system_ok_def)
    have um: "users_match (flat_of h)" using hub(2) by (simp add: consistent_def)
    have "in_step db' (flat_op (OJoin u (ro_ID room)) (flat_of h))"
    proof (rule in_stepI_view [OF hub(3), where Q = "\<lambda>u' r' b. b \<or> u' = u \<and> r' = ro_ID room"])
      show "fl_users (flat_op (OJoin u (ro_ID room)) (flat_of h)) = fl_users (flat_of h)" by (rule flat_users_same)
      show "\<exists>cl. fl_clients (flat_of h) c = Some cl \<and>
          (\<forall>r. in_room cl' r \<longleftrightarrow> in_room cl r \<or> u' = u \<and> r = ro_ID room)"
        if "fl_users (flat_of h) u' = Some c" "fl_clients (flat_op (OJoin u (ro_ID room)) (flat_of h)) c = Some cl'" for u' c cl'
        using join_view [OF um that] .
    next
      fix u' r' b
      assume a: "room_live db' r'" "room_live db r' \<Longrightarrow> b = member db r' u'" "b \<Longrightarrow> r' < db_nextRoom db"
      show "(b \<or> u' = u \<and> r' = ro_ID room) = member db' r' u'"
        using a live member_bound [OF inv(1), of r' u'] by auto
    next
      fix u' r' b
      assume "b \<or> u' = u \<and> r' = ro_ID room" "b \<Longrightarrow> r' < db_nextRoom db"
      then show "r' < db_nextRoom db'" using next' live(1) by auto
    qed
    then have "system_ok (db', deliver_notifications [NJoin u (ro_ID room)] h)"
      using notified_system_ok [OF hub(1,2) inv(2), of "NJoin u (ro_ID room)"] by simp
    with fields Inr cr(3) show ?thesis by simp
  qed
qed

lemma CJoin_ok:
  assumes "system_ok (db, h)"
  shows "system_ok (run_call fault now (CJoin r u) (db, h))"
proof (cases "svc_JoinRoom fault r u db")
  case (fields res db' ns)
  show ?thesis
  proof (cases res)
    case (Some e)
    with fields have "db' = db" "ns = []"
      by (auto simp: svc_JoinRoom_def dest: repo_failure_unchanged split: sum.splits prod.splits option.splits)
    with assms fields show ?thesis by (simp add: deliver_notifications_def)
  next
    case None
    with fields have ad: "AddMember (fault 1) r u 1 db = (None, db')" "ns = [NJoin u r]" "room_live db r"
      by (auto simp: svc_JoinRoom_def dest: GetRoomByID_Inr_live split: sum.splits prod.splits option.splits)
    have inv: "db_inv db" using assms by (simp add: system_ok_def)
    have rb: "r < db_nextRoom db" by (rule room_live_bound [OF inv ad(3)])
    have inv': "db_inv db'" by (rule AddMember_inv [OF inv ad(1) rb])
    have hub: "hub_shape h" "consistent (flat_of h)" "in_step db (flat_of h)" using assms by (simp_all add: system_ok_def)
    have um: "users_match (flat_of h)" using hub(2) by (simp add: consistent_def)
    have rooms: "room_live db' = room_live db" "db_nextRoom db' = db_nextRoom db"
      using AddMember_rooms [OF ad(1)] by auto
    have "in_step db' (flat_op (OJoin u r) (flat_of h))"
      by (rule in_stepI_view [OF hub(3) flat_users_same(1), where Q = "\<lambda>u' r' b. b \<or> u' = u \<and> r' = r"])
        (use join_view [OF um] AddMember_member [OF ad(1)] rooms rb in auto)
    then have "system_ok (db', deliver_notifications [NJoin u r] h)"
      using notified_system_ok [OF hub(1,2) inv', of "NJoin u r"] by simp
    with fields None ad(2) show ?thesis by simp
  qed
qed

text \<open>The two changes of the database that take a subscription away, each with its notification.\<close>

lemma removed_system_ok:
  assumes "system_ok (db, h)" "repo_RemoveMember f ms r t db = (None, db')" "ms \<noteq> 0"
  shows "system_ok (db', deliver_notifications [NLeave t r] h)"
proof -
  have inv': "db_inv db'" using repo_RemoveMember_inv [OF _ assms(2)] assms(1) by (simp add: system_ok_def)
  have hub: "hub_shape h" "consistent (flat_of h)" "in_step db (flat_of h)" using assms by (simp_all add: system_ok_def)
  have um: "users_match (flat_of h)" using hub(2) by (simp add: consistent_def)
  have rooms: "room_live db' = room_live db" "db_nextRoom db' = db_nextRoom db"
    using repo_RemoveMember_rooms [OF assms(2)] by auto
  have "in_step db' (flat_op (OLeave t r) (flat_of h))"
    by (rule in_stepI_view [OF hub(3) flat_users_same(2), where Q = "\<lambda>u' r' b. b \<and> \<not> (u' = t \<and> r' = r)"])
      (use leave_view [OF um] repo_RemoveMember_member [OF assms(2,3)] rooms in auto)
  then show ?thesis using notified_system_ok [OF hub(1,2) inv', of "NLeave t r"] by simp
qed

lemma stays_out_system_ok:
  assumes "system_ok (db, h)" "\<not> member db r t"
  shows "system_ok (db, LeaveRoom t r h)"
proof -
  have hub: "db_inv db" "hub_shape h" "consistent (flat_of h)" "in_step db (flat_of h)" using assms by (simp_all add: system_ok_def)
  have um: "users_match (flat_of h)" using hub(3) by (simp add: consistent_def)
  have "in_step db (flat_op (OLeave t r) (flat_of h))"
    by (rule in_stepI_view [OF hub(4) flat_users_same(2), where Q = "\<lambda>u' r' b. b \<and> \<not> (u' = t \<and> r' = r)"])
      (use leave_view [OF um] assms(2) in auto)
  then show ?thesis
    using notified_system_ok [OF hub(2,3,1), of "NLeave t r"] by (simp add: deliver_notifications_def notify_def)
qed

lemma disbanded_system_ok:
  assumes "system_ok (db, h)" "SoftDeleteRoom f ms r db = (None, db')" "ms \<noteq> 0"
  shows "system_ok (db', deliver_notifications [NDisband r] h)"
proof -
  have inv': "db_inv db'" using SoftDeleteRoom_inv [OF _ assms(2)] assms(1) by (simp add: system_ok_def)
  have hub: "hub_shape h" "consistent (flat_of h)" "in_step db (flat_of h)" using assms by (simp_all add: system_ok_def)
  have nr: "db_nextRoom db' = db_nextRoom db" using assms(2) by (auto simp: SoftDeleteRoom_def split: if_splits)
  have "in_step db' (flat_op (ODisband r) (flat_of h))"
    by (rule in_stepI_view [OF hub(3) flat_users_same(3), where Q = "\<lambda>u' r' b. b \<and> r' \<noteq> r"])
      (use disband_view [OF hub(2)] SoftDeleteRoom_live [OF assms(2,3)] nr in auto)
  then show ?thesis using notified_system_ok [OF hub(1,2) inv', of "NDisband r"] by simp
qed

lemma CRemove_ok:
  assumes "system_ok (db, h)" "UnixMilli now \<noteq> 0"
  shows "system_ok (run_call fault now (CRemove r op t role) (db, h))"
proof (cases "svc_RemoveMember fault now r op t role db")
  case (fields res db' ns)
  show ?thesis
  proof (cases res)
    case (Some e)
    with fields have "db' = db" "ns = []"
      by (auto simp: svc_RemoveMember_def Let_def dest: repo_failure_unchanged
          split: sum.splits prod.splits option.splits if_splits)
    with assms fields show ?thesis by (simp add: deliver_notifications_def)
  next
    case None
    with fields have "repo_RemoveMember (fault 2) (UnixMilli now) r t db = (None, db')" "ns = [NLeave t r]"
      by (auto simp: svc_RemoveMember_def Let_def split: sum.splits prod.splits option.splits if_splits)
    with removed_system_ok [OF assms(1) _ assms(2)] fields None show ?thesis by simp
  qed
qed

lemma CDisband_ok:
  assumes "system_ok (db, h)" "UnixMilli now \<noteq> 0"
  shows "system_ok (run_call fault now (CDisband r op) (db, h))"
proof (cases "svc_DisbandRoom fault now r op db")
  case (fields res db' ns)
  show ?thesis
  proof (cases res)
    case (Some e)
    with fields have "db' = db" "ns = []"
      by (auto simp: svc_DisbandRoom_def dest: repo_failure_unchanged split: sum.splits prod.splits option.splits if_splits)
    with assms fields show ?thesis by (simp add: deliver_notifications_def)
  next
    case None
    with fields have "SoftDeleteRoom (fault 2) (UnixMilli now) r db = (None, db')" "ns = [NDisband r]"
      by (auto simp: svc_DisbandRoom_def split: sum.splits prod.splits option.splits if_splits)
    with disbanded_system_ok [OF assms(1) _ assms(2)] fields None show ?thesis by simp
  qed
qed

lemma CDisconnect_ok:
  assumes "system_ok (db, h)"
  shows "system_ok (run_call fault now (CDisconnect c) (db, h))"
proof -
  have hub: "hub_shape h" "consistent (flat_of h)" "in_step db (flat_of h)" using assms by (simp_all add: system_ok_def)
  note f = Unregister_flat [OF hub(1), of c]
  have "consistent (flat_op (OUnregister c) (flat_of h))" by (rule flat_unregister_consistent [OF hub(2)])
  moreover have "in_step db (flat_op (OUnregister c) (flat_of h))"
  proof (cases "get_client c h")
    case None
    with hub(3) show ?thesis by simp
  next
    case (Some cl)
    have "in_step db (flat_op (OUnregister c) (flat_of h))" if act: "cl_active cl"
      unfolding in_step_def
    proof (intro allI impI)
      fix u c' cl' r
      assume u: "fl_users (flat_op (OUnregister c) (flat_of h)) u = Some c'"
        and c': "fl_clients (flat_op (OUnregister c) (flat_of h)) c' = Some cl'"
      have old: "users h u = Some c'" using u Some act by (auto split: if_splits)
      have "c' \<noteq> c"
      proof
        assume "c' = c"
        with old hub(2) Some have "cl_UserID cl = u"
          using users_matchD [of "flat_of h" u c cl] by (simp add: consistent_def)
        with u old \<open>c' = c\<close> Some act show False by simp
      qed
      with c' Some act have "get_client c' h = Some cl'" by simp
      with old hub(3) show "(room_live db r \<longrightarrow> in_room cl' r = member db r u) \<and> (in_room cl' r \<longrightarrow> r < db_nextRoom db)"
        by (simp add: in_step_def)
    qed
    with Some hub(3) show ?thesis by (cases "cl_active cl") simp_all
  qed
  ultimately show ?thesis using f assms by (simp add: system_ok_def)
qed

lemma users_matchD':
  "users_match (flat_of h) \<Longrightarrow> users h u = Some c \<Longrightarrow> get_client c h \<noteq> None"
  by (auto simp: users_match_def)

text \<open>A new connection that is registered with the rooms of its user.\<close>

lemma connected_system_ok:
  assumes "system_ok (db, h)" "GetUserRoomIDs f u db = Inr rs" "get_client c h = None"
  shows "system_ok (db, Register c rs (set_client c (new_client u connID ip agent version now) h))"
proof -
  have rs: "r \<in> set rs \<longleftrightarrow> member db r u" for r
    using assms(2) GetUserRoomIDs_member [of u db rs r] by (cases f) (auto simp: GetUserRoomIDs_def)
  let ?cl = "new_client u connID ip agent version now"
  let ?ops = "[OConnect c ?cl, ORegister c rs]"
  have hub: "hub_shape h" "consistent (flat_of h)" "in_step db (flat_of h)" using assms(1) by (simp_all add: system_ok_def)
  have run: "Register c rs (set_client c ?cl h) = fold run_op ?ops h" using assms(3) by simp
  have "allowed ?ops (flat_of h)" using assms(3) by (simp add: fresh_client_def new_client_def flat_set_def)
  with flat_ops_consistent [OF hub(2) this] run_ops_flat [OF hub(1), of ?ops]
  have ok: "hub_shape (fold run_op ?ops h)" "consistent (flat_of (fold run_op ?ops h))"
    "flat_of (fold run_op ?ops h) = fold flat_op ?ops (flat_of h)" by auto
  have "in_step db (fold flat_op ?ops (flat_of h))"
    unfolding in_step_def
  proof (intro allI impI)
    fix u' c' cl' r
    assume u': "fl_users (fold flat_op ?ops (flat_of h)) u' = Some c'"
      and c': "fl_clients (fold flat_op ?ops (flat_of h)) c' = Some cl'"
    show "(room_live db r \<longrightarrow> in_room cl' r = member db r u') \<and> (in_room cl' r \<longrightarrow> r < db_nextRoom db)"
    proof (cases "u' = u")
      case True
      with u' assms(3) have "c' = c" by (simp add: flat_set_def new_client_def)
      with c' assms(3) have "in_room cl' r \<longleftrightarrow> r \<in> set rs" by (auto simp: flat_set_def split: if_splits)
      with rs True assms(1) member_bound [of db r u] show ?thesis by (auto simp: system_ok_def)
    next
      case False
      with u' assms(3) have old: "users h u' = Some c'" by (simp add: flat_set_def new_client_def)
      then have "c' \<noteq> c"
        using hub(2) assms(3) users_matchD' [of h u' c'] by (auto simp: consistent_def)
      with c' assms(3) have "get_client c' h = Some cl'" by (simp add: flat_set_def split: if_splits)
      with old hub(3) show ?thesis by (simp add: in_step_def)
    qed
  qed
  with ok assms(1) show ?thesis unfolding run system_ok_def by simp
qed

lemma CConnect_ok:
  assumes "system_ok (db, h)"
  shows "system_ok (run_call fault now (CConnect c u) (db, h))"
  using assms connected_system_ok [OF assms, of "fault 0" u] by (cases "GetUserRoomIDs (fault 0) u db") simp_all

text \<open>A change of the database that keeps rooms and memberships keeps the hub in step.\<close>

lemma same_view_system_ok:
  assumes "system_ok (db, h)" "room_live db' = room_live db" "member db' = member db" "db_nextRoom db' = db_nextRoom db" "db_inv db'"
  shows "system_ok (db', h)"
  using assms by (simp add: system_ok_def in_step_def)

text \<open>A change of a client that keeps its user, its state and its rooms, and a closed socket.\<close>

lemma client_field_system_ok:
  assumes "system_ok (db, h)" "get_client c h = Some cl"
    and "cl_UserID cl' = cl_UserID cl" "cl_active cl' = cl_active cl" "cl_roomIDs cl' = cl_roomIDs cl" "client_ok cl \<Longrightarrow> client_ok cl'"
  shows "system_ok (db, set_client c cl' h)"
proof -
  have "in_room cl' = in_room cl" using assms(5) by (simp add: in_room_def fun_eq_iff)
  note same = this assms(2-5)
  have hub: "hub_shape h" "rooms_match (flat_of h)" "users_match (flat_of h)" "clients_match (flat_of h)" "in_step db (flat_of h)"
    using assms(1) by (simp_all add: system_ok_def consistent_def)
  have "rooms_match (flat_of (set_client c cl' h))" using hub(2) same by (auto simp: rooms_match_def)
  moreover have "users_match (flat_of (set_client c cl' h))" using hub(3) same by (fastforce simp: users_match_def)
  moreover have "clients_match (flat_of (set_client c cl' h))" using hub(4) assms(2,6) by (auto simp: clients_match_def)
  moreover have "in_step db (flat_of (set_client c cl' h))" using hub(5) same by (auto simp: in_step_def)
  ultimately show ?thesis using assms(1) by (simp add: system_ok_def consistent_def)
qed

lemma close_conn_system_ok: "system_ok (db, h) \<Longrightarrow> system_ok (db, close_conn c h)"
  by (auto simp: close_conn_def client_ok_def in_room_def intro!: client_field_system_ok split: option.splits)

lemma Kick_system_ok: "system_ok (db, h) \<Longrightarrow> system_ok (db, Kick u h)"
  by (simp add: Kick_def close_conn_system_ok split: option.splits)

lemma run_call_ok:
  assumes "system_ok s" "UnixMilli now \<noteq> 0"
  shows "system_ok (run_call fault now call s)"
  using assms CCreate_ok CJoin_ok CRemove_ok CDisband_ok CConnect_ok CDisconnect_ok
  by (cases s; cases call) (simp_all del: run_call.simps)

lemma run_system_ok:
  "system_ok s \<Longrightarrow> \<forall>(fault, now, call) \<in> set calls. UnixMilli now \<noteq> 0 \<Longrightarrow> system_ok (run_system calls s)"
  by (induction calls s rule: run_system.induct) (auto simp: run_call_ok)

lemma system_start_ok: "system_ok (empty_db, NewHubWithShards n t b)"
  using NewHub_shape NewHub_flat
  by (simp add: system_ok_def empty_consistent) (simp add: empty_db_def db_inv_def in_step_def)

lemma subscribed_iff_member:
  assumes "system_ok (db, h)" "users h u = Some c" "room_live db r"
  shows "c \<in> members h r \<longleftrightarrow> member db r u"
proof -
  obtain cl where cl: "get_client c h = Some cl" "cl_active cl"
    using assms(1,2) by (auto simp: system_ok_def consistent_def users_match_def)
  have "in_room cl r \<longleftrightarrow> member db r u" using assms cl(1) by (auto simp: system_ok_def in_step_def)
  moreover have "c \<in> members h r \<longleftrightarrow> in_room cl r"
    using assms(1) cl by (auto simp: system_ok_def consistent_def rooms_match_def)
  ultimately show ?thesis by simp
qed

text \<open>
  The real-time layer follows the database. After any sequence of room creations, joins, removals,
  disbands, connects and disconnects, with any database failures along the way, the connection of
  an online user is subscribed to a live room exactly if the user is a member of it; so members, and only
  members, are in the room's fan-out.
\<close>

lemma subscriptions_follow_membership:
  assumes "run_system calls (empty_db, NewHubWithShards n t b) = (db, h)"
    and "\<forall>(fault, now, call) \<in> set calls. UnixMilli now \<noteq> 0"
    and "users h u = Some c" "room_live db r"
  shows "c \<in> members h r \<longleftrightarrow> member db r u"
proof -
  have "system_ok (db, h)" using run_system_ok [OF system_start_ok assms(2)] assms(1) by metis
  then show ?thesis using assms(3,4) by (rule subscribed_iff_member)
qed

definition demo_calls :: "((nat \<Rightarrow> bool) \<times> time \<times> system_call) list" where
  "demo_calls = map (\<lambda>c. (\<lambda>_. False, 5000000, c)) [CCreate ''ab'' 7, CConnect 0 8, CJoin 1 8, CConnect 1 7]"

definition demo_db :: DB where
  "demo_db = fst (run_system demo_calls (empty_db, NewHubWithShards 2 [] []))"

definition demo_hub :: Hub where
  "demo_hub = snd (run_system demo_calls (empty_db, NewHubWithShards 2 [] []))"

lemma demo_run: "run_system demo_calls (empty_db, NewHubWithShards 2 [] []) = (demo_db, demo_hub)"
  by (simp add: demo_db_def demo_hub_def)

lemma subscriptions_follow_membership_example:
  "users demo_hub 8 = Some 0 \<and> room_live demo_db 1 \<and> (0 \<in> members demo_hub 1 \<longleftrightarrow> member demo_db 1 8)"
proof -
  have u: "users demo_hub 8 = Some 0" "room_live demo_db 1" by code_simp+
  have t: "\<forall>(fault, now, call) \<in> set demo_calls. UnixMilli now \<noteq> 0" by code_simp
  show ?thesis using subscriptions_follow_membership [OF demo_run t u] u by blast
qed

theorem RemoveMember_authorised_witness:
  "\<exists>db' ns. svc_RemoveMember (\<lambda>_. False) 5000000 1 7 8 0 demo_db = (None, db', ns) \<and>
     member demo_db 1 8 \<and> \<not> member db' 1 8"
proof -
  let ?r = "svc_RemoveMember (\<lambda>_. False) 5000000 1 7 8 0 demo_db"
  have r: "?r = (None, fst (snd ?r), snd (snd ?r))"
    by (rule prod_eqI) (simp_all, code_simp)
  have t: "UnixMilli 5000000 \<noteq> 0" by code_simp
  show ?thesis using RemoveMember_authorised [OF r t] r by blast
qed

lemma DisbandRoom_authorised_example:
  "\<exists>db' ns. svc_DisbandRoom (\<lambda>_. False) 5000000 1 7 demo_db = (None, db', ns) \<and>
     room_live demo_db 1 \<and> \<not> room_live db' 1"
proof -
  let ?r = "svc_DisbandRoom (\<lambda>_. False) 5000000 1 7 demo_db"
  have r: "?r = (None, fst (snd ?r), snd (snd ?r))"
    by (rule prod_eqI) (simp_all, code_simp)
  have t: "UnixMilli 5000000 \<noteq> 0" by code_simp
  have l: "room_live demo_db 1" by code_simp
  show ?thesis using DisbandRoom_authorised [OF r t] r l by blast
qed

end
