(* ===== verification/Auth.thy ===== *)
theory Auth
  imports Store LoginProtector
begin

text \<open>
  Identity and permissions: the role table of \<^verbatim>\<open>shared/auth/roles.go\<close>, tokens of \<^verbatim>\<open>shared/auth/jwt.go\<close>, the
  middleware of \<^verbatim>\<open>shared/http/middleware\<close> (\<^verbatim>\<open>jwt_auth.go\<close>, \<^verbatim>\<open>rbac.go\<close>, \<^verbatim>\<open>security.go\<close>), the two login handlers
  and registration (\<^verbatim>\<open>services/gateway/handlers/auth_handler.go\<close>, \<^verbatim>\<open>services/admin/api/admin_auth.go\<close>) and the
  routes of the administration API (\<^verbatim>\<open>services/admin/api/router.go\<close>).

  The JWT library is a parameter: \<open>sign\<close> is \<^verbatim>\<open>SignedString\<close> with HS256, \<open>parse\<close> is \<^verbatim>\<open>ParseWithClaims\<close> at a clock
  reading, \<open>verifies\<close> says that a signature checks under a key, \<open>num_date\<close> is \<^verbatim>\<open>NewNumericDate\<close>; \<open>jwt_laws\<close> is what
  the library documents of them. Password hashing is a parameter in the same way, and so is the
  token-bucket limiter of the administration API.
\<close>

section \<open>Roles and permissions\<close>

definition RoleUser :: int where "RoleUser = 0"
definition RoleSuperAdmin :: int where "RoleSuperAdmin = 1"
definition RoleModerator :: int where "RoleModerator = 2"
definition RoleOperator :: int where "RoleOperator = 3"

lemmas role_defs = RoleUser_def RoleSuperAdmin_def RoleModerator_def RoleOperator_def

datatype permission =
    PermDashboardRead | PermUserRead | PermUserBan | PermUserKick | PermUserRoleUpdate | PermUserDelete
  | PermRoomRead | PermRoomFreeze | PermRoomDelete | PermMessageRead | PermMessageDelete | PermModerationRead
  | PermModerationReview | PermAgentRead | PermAgentConfig | PermFileRead | PermFileDelete | PermConnectionRead
  | PermConnectionClose | PermAuditRead | PermSystemRead

definition rolePermissionMap :: "(int, permission list) gomap" where
  "rolePermissionMap =
     [(RoleModerator,
       [PermDashboardRead, PermUserRead, PermUserBan, PermUserKick, PermRoomRead, PermRoomFreeze, PermRoomDelete,
        PermMessageRead, PermMessageDelete, PermModerationRead, PermModerationReview, PermAgentRead, PermFileRead,
        PermConnectionRead]),
      (RoleOperator,
       [PermDashboardRead, PermUserRead, PermRoomRead, PermMessageRead, PermModerationRead, PermAgentRead, PermFileRead,
        PermConnectionRead, PermAuditRead, PermSystemRead])]"

definition RoleName :: "int \<Rightarrow> string" where
  "RoleName role =
     (if role = RoleSuperAdmin then ''super_admin''
      else if role = RoleModerator then ''moderator''
      else if role = RoleOperator then ''operator''
      else ''user'')"

definition IsAdminRole :: "int \<Rightarrow> bool" where
  "IsAdminRole role \<longleftrightarrow> role = RoleSuperAdmin \<or> role = RoleModerator \<or> role = RoleOperator"

definition HasPermission :: "int \<Rightarrow> permission \<Rightarrow> bool" where
  "HasPermission role p =
     (if role = RoleSuperAdmin then True
      else case map_get rolePermissionMap role of None \<Rightarrow> False | Some ps \<Rightarrow> p \<in> set ps)"

section \<open>Tokens\<close>

record CustomClaims =
  jc_UserID :: int
  jc_Role :: int
  jc_ExpiresAt :: "time option"
  jc_IssuedAt :: "time option"
  jc_Issuer :: string

datatype jwt_method = HMAC | OtherMethod

type_synonym jwt_key = string
type_synonym jwt_keyfunc = "jwt_method \<Rightarrow> jwt_key option"

record jwt_lib =
  jl_sign :: "jwt_key \<Rightarrow> CustomClaims \<Rightarrow> string option"
  jl_parse :: "jwt_keyfunc \<Rightarrow> time \<Rightarrow> string \<Rightarrow> (CustomClaims \<times> bool) option"
  jl_verifies :: "jwt_method \<Rightarrow> jwt_key \<Rightarrow> string \<Rightarrow> bool"
  jl_num_date :: "time \<Rightarrow> time"

text \<open>
  What the library documents: a token it signed parses to its claims under a key function that returns
  the key, before the expiry; a parsed token carries the claims it was signed with, is not expired and
  has a signature that checks under a key the key function returned; dates are cut to the second.
\<close>

definition jwt_laws :: "jwt_lib \<Rightarrow> bool" where
  "jwt_laws L \<longleftrightarrow>
     (\<forall>key c t kf now e. jl_sign L key c = Some t \<longrightarrow> kf HMAC = Some key \<longrightarrow> jc_ExpiresAt c = Some e \<longrightarrow> now < e \<longrightarrow>
        jl_parse L kf now t = Some (c, True)) \<and>
     (\<forall>key c t kf now c' v. jl_sign L key c = Some t \<longrightarrow> jl_parse L kf now t = Some (c', v) \<longrightarrow> c' = c) \<and>
     (\<forall>kf now t c v e. jl_parse L kf now t = Some (c, v) \<longrightarrow> jc_ExpiresAt c = Some e \<longrightarrow> now < e) \<and>
     (\<forall>kf now t c v. jl_parse L kf now t = Some (c, v) \<longrightarrow> (\<exists>m key. kf m = Some key \<and> jl_verifies L m key t)) \<and>
     (\<forall>t. jl_num_date L t \<le> t \<and> t < jl_num_date L t + 1000000000)"

lemma jwt_accept:
  assumes "jwt_laws L" "jl_sign L key c = Some t" "kf HMAC = Some key" "jc_ExpiresAt c = Some e" "now < e"
  shows "jl_parse L kf now t = Some (c, True)"
  using assms(1) [unfolded jwt_laws_def, THEN conjunct1, rule_format, of key c t kf e now] assms(2-) by simp

lemma jwt_claims: "jwt_laws L \<Longrightarrow> jl_sign L key c = Some t \<Longrightarrow> jl_parse L kf now t = Some (c', v) \<Longrightarrow> c' = c"
  unfolding jwt_laws_def by blast

lemma jwt_expiry: "jwt_laws L \<Longrightarrow> jl_parse L kf now t = Some (c, v) \<Longrightarrow> jc_ExpiresAt c = Some e \<Longrightarrow> now < e"
  unfolding jwt_laws_def by blast

lemma jwt_signature: "jwt_laws L \<Longrightarrow> jl_parse L kf now t = Some (c, v) \<Longrightarrow> \<exists>m key. kf m = Some key \<and> jl_verifies L m key t"
  unfolding jwt_laws_def by (elim conjE) (rotate_tac 3, blast)

lemma jwt_date: "jwt_laws L \<Longrightarrow> jl_num_date L t \<le> t \<and> t < jl_num_date L t + 1000000000"
  unfolding jwt_laws_def by blast

definition jwtSecret :: "string \<Rightarrow> jwt_key" where
  "jwtSecret env = (if env = [] then ''fK29gArL2zTtX7V8ErD9bF2wR4qJ6pM3'' else env)"

definition token_life :: int where
  "token_life = 24 * 3600 * 1000000000"

text \<open>\<open>t1\<close> and \<open>t2\<close> are the two clock readings.\<close>

definition GenerateToken :: "jwt_lib \<Rightarrow> string \<Rightarrow> time \<Rightarrow> time \<Rightarrow> int \<Rightarrow> int \<Rightarrow> string option" where
  "GenerateToken L env t1 t2 userID role =
     jl_sign L (jwtSecret env)
       \<lparr>jc_UserID = userID, jc_Role = role, jc_ExpiresAt = Some (jl_num_date L (t1 + token_life)),
        jc_IssuedAt = Some (jl_num_date L t2), jc_Issuer = ''lan-im-server''\<rparr>"

definition ParseToken :: "jwt_lib \<Rightarrow> string \<Rightarrow> time \<Rightarrow> string \<Rightarrow> CustomClaims option" where
  "ParseToken L env now token =
     (case jl_parse L (\<lambda>m. if m = HMAC then Some (jwtSecret env) else None) now token of
        None \<Rightarrow> None
      | Some (claims, valid) \<Rightarrow> if valid then Some claims else None)"

section \<open>Middleware\<close>

record request =
  rq_Authorization :: string
  rq_token :: string
  rq_ClientIP :: string

record gin_context =
  cx_user_id :: "int option"
  cx_user_role :: "int option"
  cx_admin_role :: "int option"

definition empty_context :: gin_context where
  "empty_context = \<lparr>cx_user_id = None, cx_user_role = None, cx_admin_role = None\<rparr>"

text \<open>A middleware aborts with a status (\<open>Inl\<close>) or hands the context on (\<open>Inr\<close>).\<close>

definition JWTAuth :: "jwt_lib \<Rightarrow> string \<Rightarrow> time \<Rightarrow> request \<Rightarrow> gin_context \<Rightarrow> http_status + gin_context" where
  "JWTAuth L env now rq c =
     (let found = (if rq_Authorization rq \<noteq> []
                   then (case SplitN 2 CHR '' '' (rq_Authorization rq) of
                           [a, b] \<Rightarrow> if a = ''Bearer'' then Some b else None
                         | _ \<Rightarrow> None)
                   else Some (rq_token rq))
      in case found of
           None \<Rightarrow> Inl Unauthorized
         | Some tok \<Rightarrow>
             if tok = [] then Inl Unauthorized
             else (case ParseToken L env now tok of
                     None \<Rightarrow> Inl Unauthorized
                   | Some claims \<Rightarrow>
                       Inr (c\<lparr>cx_user_id := Some (jc_UserID claims), cx_user_role := Some (jc_Role claims)\<rparr>)))"

definition SuperAdminOnly :: "gin_context \<Rightarrow> http_status + gin_context" where
  "SuperAdminOnly c =
     (case cx_user_role c of
        None \<Rightarrow> Inl Forbidden
      | Some role \<Rightarrow> if role \<noteq> 1 then Inl Forbidden else Inr c)"

definition getUserRole :: "gin_context \<Rightarrow> int \<times> bool" where
  "getUserRole c = (case cx_user_role c of None \<Rightarrow> (0, False) | Some role \<Rightarrow> (role, True))"

definition RequireAdmin :: "gin_context \<Rightarrow> http_status + gin_context" where
  "RequireAdmin c =
     (case getUserRole c of (role, ok) \<Rightarrow>
        if \<not> ok \<or> \<not> IsAdminRole role then Inl Forbidden else Inr (c\<lparr>cx_admin_role := Some role\<rparr>))"

definition RequirePermission :: "permission \<Rightarrow> gin_context \<Rightarrow> http_status + gin_context" where
  "RequirePermission p c =
     (case getUserRole c of (role, ok) \<Rightarrow>
        if \<not> ok \<or> \<not> HasPermission role p then Inl Forbidden else Inr (c\<lparr>cx_admin_role := Some role\<rparr>))"

fun any_permission :: "int \<Rightarrow> permission list \<Rightarrow> bool" where
  "any_permission role [] = False"
| "any_permission role (p # ps) = (if HasPermission role p then True else any_permission role ps)"

definition RequireAnyPermission :: "permission list \<Rightarrow> gin_context \<Rightarrow> http_status + gin_context" where
  "RequireAnyPermission ps c =
     (case getUserRole c of (role, ok) \<Rightarrow>
        if \<not> ok then Inl Forbidden
        else if \<not> any_permission role ps then Inl Forbidden
        else Inr (c\<lparr>cx_admin_role := Some role\<rparr>))"

text \<open>
  The limiter of the administration API: one token bucket per key; \<open>'l\<close> is the state of a
  \<^verbatim>\<open>rate.Limiter\<close>, \<open>new_limiter\<close> a fresh one, \<open>allow\<close> its \<^verbatim>\<open>Allow\<close> at a clock reading. \<open>t1\<close>, \<open>t2\<close>, \<open>t3\<close> are the three
  clock readings of a request.
\<close>

record 'l rateEntry =
  re_limiter :: 'l
  re_lastSeen :: time

definition rate_key :: "int \<Rightarrow> string \<Rightarrow> string" where
  "rate_key userID ip = (if userID = 0 then ip else FormatInt userID @ ''|'' @ ip)"

definition evict_idle :: "time \<Rightarrow> (string, 'l rateEntry) gomap \<Rightarrow> (string, 'l rateEntry) gomap" where
  "evict_idle now entries = filter (\<lambda>(k, e). \<not> now - re_lastSeen e > 1800000000000) entries"

definition AdminRateLimit ::
    "'l \<Rightarrow> ('l \<Rightarrow> time \<Rightarrow> bool \<times> 'l) \<Rightarrow> time \<Rightarrow> time \<Rightarrow> time \<Rightarrow> request \<Rightarrow> gin_context \<Rightarrow> (string, 'l rateEntry) gomap \<Rightarrow>
     (http_status + gin_context) \<times> (string, 'l rateEntry) gomap" where
  "AdminRateLimit new_limiter allow t1 t2 t3 rq c entries =
     (let userID = (case cx_user_id c of None \<Rightarrow> 0 | Some u \<Rightarrow> u);
          key = rate_key userID (rq_ClientIP rq);
          limiter = (case map_get entries key of None \<Rightarrow> new_limiter | Some e \<Rightarrow> re_limiter e);
          entries1 = map_put key \<lparr>re_limiter = limiter, re_lastSeen = t1\<rparr> entries;
          entries2 = (if map_len entries1 > 2000 then evict_idle t2 entries1 else entries1)
      in case allow limiter t3 of (allowed, limiter') \<Rightarrow>
           (if allowed then Inr c else Inl TooMany,
            (case map_get entries2 key of
               None \<Rightarrow> entries2
             | Some e \<Rightarrow> map_put key (e\<lparr>re_limiter := limiter'\<rparr>) entries2)))"

section \<open>Routes of the administration API\<close>

datatype http_method = GET | POST | PUT | DELETE

datatype admin_guard = NeedsAll permission | NeedsAny "permission list"

definition RegisterAdminRoutes :: "(http_method \<times> string \<times> admin_guard) list" where
  "RegisterAdminRoutes =
     [(GET, ''/rag/queries'', NeedsAll PermAgentRead),
      (GET, ''/dashboard/moderation'', NeedsAll PermModerationRead),
      (GET, ''/moderation'', NeedsAll PermModerationRead),
      (GET, ''/moderation/:id'', NeedsAll PermModerationRead),
      (POST, ''/moderation/:id/action'', NeedsAll PermModerationReview),
      (GET, ''/users'', NeedsAll PermUserRead),
      (GET, ''/users/:id'', NeedsAll PermUserRead),
      (POST, ''/users/:id/action'', NeedsAny [PermUserBan, PermUserRoleUpdate]),
      (GET, ''/rooms'', NeedsAll PermRoomRead),
      (GET, ''/rooms/:id'', NeedsAll PermRoomRead),
      (POST, ''/rooms/:id/action'', NeedsAny [PermRoomFreeze, PermRoomDelete, PermAgentConfig]),
      (GET, ''/files'', NeedsAll PermFileRead),
      (GET, ''/files/scan'', NeedsAll PermFileRead),
      (POST, ''/files/cleanup'', NeedsAll PermFileDelete),
      (GET, ''/files/:id'', NeedsAll PermFileRead),
      (GET, ''/files/:id/download'', NeedsAll PermFileRead),
      (DELETE, ''/files/:id'', NeedsAll PermFileDelete),
      (GET, ''/agent-config'', NeedsAll PermAgentRead),
      (GET, ''/agent-config/history'', NeedsAll PermAgentRead),
      (PUT, ''/agent-config'', NeedsAll PermAgentConfig),
      (POST, ''/agent-config/rollback'', NeedsAll PermAgentConfig),
      (GET, ''/tool-calls'', NeedsAll PermAgentRead),
      (GET, ''/audit-logs'', NeedsAll PermAuditRead),
      (DELETE, ''/rooms/:id'', NeedsAll PermRoomDelete)]"

definition run_guard :: "admin_guard \<Rightarrow> gin_context \<Rightarrow> http_status + gin_context" where
  "run_guard g c = (case g of NeedsAll p \<Rightarrow> RequirePermission p c | NeedsAny ps \<Rightarrow> RequireAnyPermission ps c)"

text \<open>
  The chain in front of every handler of the administration API, \<^verbatim>\<open>RegisterRoutes\<close> of \<^verbatim>\<open>module.go\<close>: token, role,
  rate limit, permission. \<open>clk\<close> gives the successive clock readings.
\<close>

definition admin_chain ::
    "jwt_lib \<Rightarrow> string \<Rightarrow> 'l \<Rightarrow> ('l \<Rightarrow> time \<Rightarrow> bool \<times> 'l) \<Rightarrow> (nat \<Rightarrow> time) \<Rightarrow> request \<Rightarrow> admin_guard \<Rightarrow>
     (string, 'l rateEntry) gomap \<Rightarrow> (http_status + gin_context) \<times> (string, 'l rateEntry) gomap" where
  "admin_chain L env new_limiter allow clk rq g entries =
     (case JWTAuth L env (clk 0) rq empty_context of
        Inl s \<Rightarrow> (Inl s, entries)
      | Inr c1 \<Rightarrow>
          (case RequireAdmin c1 of
             Inl s \<Rightarrow> (Inl s, entries)
           | Inr c2 \<Rightarrow>
               (case AdminRateLimit new_limiter allow (clk 1) (clk 2) (clk 3) rq c2 entries of
                  (Inl s, entries') \<Rightarrow> (Inl s, entries')
                | (Inr c3, entries') \<Rightarrow> (run_guard g c3, entries'))))"

section \<open>Login and registration\<close>

text \<open>
  \<open>env_positiveInt\<close> is \<^verbatim>\<open>positiveEnvInt\<close> of the handlers: the value of the variable is the argument.
\<close>

definition env_positiveInt :: "string \<Rightarrow> int \<Rightarrow> int" where
  "env_positiveInt raw fallback =
     (case ParseInt (TrimSpace raw) of
        (v, None) \<Rightarrow> if v \<le> 0 then fallback else v
      | (_, Some _) \<Rightarrow> fallback)"

definition loginProtectionConfig ::
    "(string \<Rightarrow> string) \<Rightarrow> int \<Rightarrow> string \<Rightarrow> string \<Rightarrow> string \<Rightarrow> string \<Rightarrow> ProtectorConfig" where
  "loginProtectionConfig case_fold cpus rateEnabled ipLimit pairLimit bcryptConcurrent =
     (let cfg = DefaultConfig cpus
      in cfg\<lparr>cf_DisableRateLimit := (case_fold (TrimSpace rateEnabled) = case_fold ''false''),
             cf_IPLimit := env_positiveInt ipLimit (cf_IPLimit cfg),
             cf_PairLimit := env_positiveInt pairLimit (cf_PairLimit cfg),
             cf_BcryptConcurrent := env_positiveInt bcryptConcurrent (cf_BcryptConcurrent cfg)\<rparr>)"

definition loginTimeout :: "string \<Rightarrow> int" where
  "loginTimeout raw = wrap64 (env_positiveInt raw 5 * 1000000000)"

text \<open>
  The surroundings of one login: the clock of the rate limit, whether the context is done when the query
  runs, when a slot is asked for and before the comparison answers, whether the database fails, and the
  two clock readings of the token. \<open>bcrypt_ok hash password\<close> says that the comparison succeeds.
\<close>

record login_run =
  lr_now :: time
  lr_lookup_done :: bool
  lr_lookup_fault :: bool
  lr_slot_done :: bool
  lr_compare_done :: bool
  lr_t1 :: time
  lr_t2 :: time

record auth_params =
  ap_jwt :: jwt_lib
  ap_secret :: string
  ap_lower :: "string \<Rightarrow> string"
  ap_bcrypt_ok :: "string \<Rightarrow> string \<Rightarrow> bool"

record login_reply =
  rp_status :: http_status
  rp_token :: "string option"
  rp_user :: "User option"

definition refuse :: "http_status \<Rightarrow> login_reply" where
  "refuse s = \<lparr>rp_status = s, rp_token = None, rp_user = None\<rparr>"

text \<open>
  What both handlers do first: binding (both fields are required), the rate limit, the look-up and the
  comparison in a slot. The slot is released by the comparing goroutine, a step of its own
  (\<open>compare_finish\<close>), also when the handler has given up waiting.
\<close>

definition check_credentials ::
    "auth_params \<Rightarrow> login_run \<Rightarrow> string \<Rightarrow> (string \<times> string) option \<Rightarrow> DB \<Rightarrow> LoginProtector \<Rightarrow>
     (http_status + User) \<times> LoginProtector" where
  "check_credentials P run ip body db p =
     (case body of
        None \<Rightarrow> (Inl BadRequest, p)
      | Some (username, password) \<Rightarrow>
          if username = [] \<or> password = [] then (Inl BadRequest, p)
          else
            (case Allow (ap_lower P) ip username (lr_now run) p of
               (Some _, p1) \<Rightarrow> (Inl TooMany, p1)
             | (None, p1) \<Rightarrow>
                 if lr_lookup_done run then (Inl GatewayTimeout, p1)
                 else
                   (case GetByUsername (lr_lookup_fault run) username db of
                      Inl _ \<Rightarrow> (Inl Unauthorized, p1)
                    | Inr user \<Rightarrow>
                        (case compare_start (lr_slot_done run) p1 of
                           (Some LoginContextDone, p2) \<Rightarrow> (Inl GatewayTimeout, p2)
                         | (Some BcryptBusy, p2) \<Rightarrow> (Inl Unavailable, p2)
                         | (Some _, p2) \<Rightarrow> (Inl Unauthorized, p2)
                         | (None, p2) \<Rightarrow>
                             if lr_compare_done run then (Inl GatewayTimeout, p2)
                             else if \<not> ap_bcrypt_ok P (us_Password user) password then (Inl Unauthorized, p2)
                             else (Inr user, p2)))))"

definition issue_token :: "auth_params \<Rightarrow> login_run \<Rightarrow> User \<Rightarrow> login_reply" where
  "issue_token P run user =
     (case GenerateToken (ap_jwt P) (ap_secret P) (lr_t1 run) (lr_t2 run) (us_ID user) (us_Role user) of
        None \<Rightarrow> refuse ServerError
      | Some token \<Rightarrow> \<lparr>rp_status = OK, rp_token = Some token, rp_user = Some user\<rparr>)"

definition LoginHandler ::
    "auth_params \<Rightarrow> login_run \<Rightarrow> string \<Rightarrow> (string \<times> string) option \<Rightarrow> DB \<Rightarrow> LoginProtector \<Rightarrow> login_reply \<times> LoginProtector" where
  "LoginHandler P run ip body db p =
     (case check_credentials P run ip body db p of
        (Inl s, p') \<Rightarrow> (refuse s, p')
      | (Inr user, p') \<Rightarrow>
          (if us_Role user \<noteq> RoleUser then refuse Forbidden else issue_token P run user, p'))"

definition AdminLogin ::
    "auth_params \<Rightarrow> login_run \<Rightarrow> string \<Rightarrow> (string \<times> string) option \<Rightarrow> DB \<Rightarrow> LoginProtector \<Rightarrow> login_reply \<times> LoginProtector" where
  "AdminLogin P run ip body db p =
     (case check_credentials P run ip body db p of
        (Inl s, p') \<Rightarrow> (refuse s, p')
      | (Inr user, p') \<Rightarrow>
          (if \<not> IsAdminRole (us_Role user) then refuse Forbidden else issue_token P run user, p'))"

text \<open>
  Registration. \<open>runes\<close> is the validator's length in characters, \<open>bcrypt_hash\<close> is \<^verbatim>\<open>GenerateFromPassword\<close>; a failing
  look-up counts as a free name.
\<close>

definition RegisterHandler ::
    "(string \<Rightarrow> nat) \<Rightarrow> (string \<Rightarrow> string option) \<Rightarrow> bool \<Rightarrow> bool \<Rightarrow> time \<Rightarrow> (string \<times> string) option \<Rightarrow> DB \<Rightarrow> http_status \<times> DB" where
  "RegisterHandler runes bcrypt_hash lookupFault createFault now body db =
     (case body of
        None \<Rightarrow> (BadRequest, db)
      | Some (username, password) \<Rightarrow>
          if username = [] \<or> runes username < 3 \<or> runes username > 32
             \<or> password = [] \<or> runes password < 6 \<or> runes password > 32
          then (BadRequest, db)
          else
            (case GetByUsername lookupFault username db of
               Inr _ \<Rightarrow> (Conflict, db)
             | Inl _ \<Rightarrow>
                 (case bcrypt_hash password of
                    None \<Rightarrow> (ServerError, db)
                  | Some h \<Rightarrow>
                      (case CreateUser createFault
                              \<lparr>us_ID = 0, us_Username = username, us_Password = h, us_Avatar = [], us_Role = 0,
                               us_IsBot = False, us_Status = 0, us_LastLoginAt = None, us_LastActiveAt = None, us_CreatedAt = now, us_DeletedAt = 0\<rparr> db of
                         (Inl _, db') \<Rightarrow> (ServerError, db')
                       | (Inr _, db') \<Rightarrow> (OK, db')))))"

section \<open>Permissions of the roles\<close>

lemma role_permissions [simp]:
  "map_get rolePermissionMap 2 = Some (snd (rolePermissionMap ! 0))"
  "map_get rolePermissionMap 3 = Some (snd (rolePermissionMap ! 1))"
  "role \<noteq> 2 \<Longrightarrow> role \<noteq> 3 \<Longrightarrow> map_get rolePermissionMap role = None"
  by (simp_all add: rolePermissionMap_def map_get_def role_defs)

lemma HasPermission_cases:
  "HasPermission role p \<longleftrightarrow>
     role = 1 \<or>
     role = 2 \<and> p \<notin> {PermUserRoleUpdate, PermUserDelete, PermAgentConfig, PermFileDelete, PermConnectionClose,
                      PermAuditRead, PermSystemRead} \<or>
     role = 3 \<and> p \<in> {PermDashboardRead, PermUserRead, PermRoomRead, PermMessageRead, PermModerationRead,
                      PermAgentRead, PermFileRead, PermConnectionRead, PermAuditRead, PermSystemRead}"
proof (cases "role = 1 \<or> role = 2 \<or> role = 3")
  case True
  then show ?thesis
    by (elim disjE; cases p; simp add: HasPermission_def role_defs rolePermissionMap_def map_get_def)
next
  case False
  then show ?thesis by (simp add: HasPermission_def role_defs)
qed

lemma HasPermission_admin: "HasPermission role p \<Longrightarrow> IsAdminRole role"
  by (auto simp: HasPermission_cases IsAdminRole_def role_defs)

lemma any_permission_iff: "any_permission role ps \<longleftrightarrow> (\<exists>p \<in> set ps. HasPermission role p)"
  by (induction ps) auto

definition guard_admits :: "admin_guard \<Rightarrow> int \<Rightarrow> bool" where
  "guard_admits g role = (case g of NeedsAll p \<Rightarrow> HasPermission role p | NeedsAny ps \<Rightarrow> any_permission role ps)"

lemma run_guard_Inr:
  "run_guard g c = Inr c' \<longleftrightarrow>
     (\<exists>role. cx_user_role c = Some role \<and> guard_admits g role \<and> c' = c\<lparr>cx_admin_role := Some role\<rparr>)"
  by (cases g; cases "cx_user_role c")
    (auto simp: run_guard_def guard_admits_def RequirePermission_def RequireAnyPermission_def getUserRole_def)

lemma operator_routes:
  "list_all (\<lambda>(m, path, g). guard_admits g RoleOperator \<longrightarrow> m = GET) RegisterAdminRoutes"
  by code_simp

lemma moderator_routes:
  "list_all (\<lambda>(m, path, g). guard_admits g RoleModerator \<longrightarrow> m = GET \<or>
     path \<in> set [''/moderation/:id/action'', ''/users/:id/action'', ''/rooms/:id/action'', ''/rooms/:id'']) RegisterAdminRoutes"
  by code_simp



section \<open>Tokens and the middleware chain\<close>

lemma SplitN_2_bearer:
  "CHR '' '' \<notin> set a \<Longrightarrow> SplitN 2 CHR '' '' (a @ CHR '' '' # b) = [a, b]"
  by (simp add: numeral_2_eq_2 takeWhile_append dropWhile_append)

lemma SplitN_2_parts: "SplitN 2 c s = [a, b] \<Longrightarrow> s = a @ c # b"
proof -
  assume h: "SplitN 2 c s = [a, b]"
  show "s = a @ c # b"
  proof (cases "dropWhile (\<lambda>x. x \<noteq> c) s")
    case Nil
    with h show ?thesis by (simp add: numeral_2_eq_2)
  next
    case (Cons x xs)
    then have "x = c" by (metis (full_types) hd_dropWhile list.distinct(1) list.sel(1))
    with h Cons show ?thesis by (simp add: numeral_2_eq_2) (metis takeWhile_dropWhile_id)
  qed
qed

lemma JWTAuth_bearer:
  assumes "tok \<noteq> []" "rq_Authorization rq = ''Bearer '' @ tok"
  shows "JWTAuth L env now rq c =
    (case ParseToken L env now tok of
       None \<Rightarrow> Inl Unauthorized
     | Some claims \<Rightarrow> Inr (c\<lparr>cx_user_id := Some (jc_UserID claims), cx_user_role := Some (jc_Role claims)\<rparr>))"
  using assms SplitN_2_bearer [of "''Bearer''" tok] by (simp add: JWTAuth_def)

definition presents :: "request \<Rightarrow> string \<Rightarrow> bool" where
  "presents rq tok \<longleftrightarrow> rq_Authorization rq = ''Bearer '' @ tok \<or> rq_Authorization rq = [] \<and> rq_token rq = tok"

lemma JWTAuth_Inr:
  assumes "JWTAuth L env now rq c = Inr c'"
  shows "\<exists>tok claims. presents rq tok \<and> ParseToken L env now tok = Some claims \<and>
    c' = c\<lparr>cx_user_id := Some (jc_UserID claims), cx_user_role := Some (jc_Role claims)\<rparr>"
  using assms SplitN_2_parts [of "CHR '' ''" "rq_Authorization rq"]
  by (auto simp: JWTAuth_def presents_def split: if_splits list.splits option.splits)

lemma ParseToken_lib:
  "ParseToken L env now tok = Some claims \<longleftrightarrow>
     jl_parse L (\<lambda>m. if m = HMAC then Some (jwtSecret env) else None) now tok = Some (claims, True)"
  by (auto simp: ParseToken_def split: option.splits if_splits)

lemma ParseToken_sound:
  assumes "jwt_laws L" "ParseToken L env now tok = Some claims"
  shows "jl_verifies L HMAC (jwtSecret env) tok \<and> (\<forall>e. jc_ExpiresAt claims = Some e \<longrightarrow> now < e)"
proof -
  let ?kf = "\<lambda>m. if m = HMAC then Some (jwtSecret env) else None"
  have p: "jl_parse L ?kf now tok = Some (claims, True)" using assms(2) by (simp add: ParseToken_lib)
  obtain m key where "?kf m = Some key" "jl_verifies L m key tok" using jwt_signature [OF assms(1) p] by blast
  moreover have "\<forall>e. jc_ExpiresAt claims = Some e \<longrightarrow> now < e" using jwt_expiry [OF assms(1) p] by blast
  ultimately show ?thesis by (auto split: if_splits)
qed

lemma GenerateToken_ParseToken:
  assumes "jwt_laws L" "GenerateToken L env t1 t2 u role = Some tok"
  shows "now < jl_num_date L (t1 + token_life) \<Longrightarrow>
      \<exists>claims. ParseToken L env now tok = Some claims \<and> jc_UserID claims = u \<and> jc_Role claims = role"
    and "t1 + token_life \<le> now \<Longrightarrow> ParseToken L env now tok = None"
proof -
  let ?c = "\<lparr>jc_UserID = u, jc_Role = role, jc_ExpiresAt = Some (jl_num_date L (t1 + token_life)),
        jc_IssuedAt = Some (jl_num_date L t2), jc_Issuer = ''lan-im-server''\<rparr>"
  have s: "jl_sign L (jwtSecret env) ?c = Some tok" using assms(2) by (simp add: GenerateToken_def)
  show "\<exists>claims. ParseToken L env now tok = Some claims \<and> jc_UserID claims = u \<and> jc_Role claims = role"
    if "now < jl_num_date L (t1 + token_life)"
  proof -
    have "jl_parse L (\<lambda>m. if m = HMAC then Some (jwtSecret env) else None) now tok = Some (?c, True)"
      using jwt_accept [OF assms(1) s, of _ _ now] that by simp
    then show ?thesis by (auto simp: ParseToken_lib)
  qed
  show "ParseToken L env now tok = None" if late: "t1 + token_life \<le> now"
  proof (rule ccontr)
    assume "ParseToken L env now tok \<noteq> None"
    then obtain c' where p: "jl_parse L (\<lambda>m. if m = HMAC then Some (jwtSecret env) else None) now tok = Some (c', True)"
      by (auto simp: ParseToken_def split: option.splits if_splits)
    then have "c' = ?c" using jwt_claims [OF assms(1) s] by blast
    with jwt_expiry [OF assms(1) p] have "now < jl_num_date L (t1 + token_life)" by simp
    moreover have "jl_num_date L (t1 + token_life) \<le> t1 + token_life" using jwt_date [OF assms(1)] by blast
    ultimately show False using late by simp
  qed
qed

lemma AdminRateLimit_keeps: "AdminRateLimit nl allow t1 t2 t3 rq c es = (Inr c', es') \<Longrightarrow> c' = c"
  by (auto simp: AdminRateLimit_def Let_def split: prod.splits if_splits)

text \<open>
  C19: the gate of the administration API. A request that gets through the chain carries a token whose
  signature checks under the server's secret with an HMAC method and that is not expired; the handler sees
  the user of that token, and the token's role is administrative and has the permission of the route.
\<close>

theorem admin_chain_gate:
  assumes "admin_chain L env nl allow clk rq g entries = (Inr c, entries')" "jwt_laws L"
  shows "\<exists>tok claims. presents rq tok \<and> ParseToken L env (clk 0) tok = Some claims \<and>
    jl_verifies L HMAC (jwtSecret env) tok \<and> (\<forall>e. jc_ExpiresAt claims = Some e \<longrightarrow> clk 0 < e) \<and>
    cx_user_id c = Some (jc_UserID claims) \<and> cx_admin_role c = Some (jc_Role claims) \<and>
    IsAdminRole (jc_Role claims) \<and> guard_admits g (jc_Role claims)"
proof -
  obtain c1 c2 c3 where ch: "JWTAuth L env (clk 0) rq empty_context = Inr c1" "RequireAdmin c1 = Inr c2"
    "AdminRateLimit nl allow (clk 1) (clk 2) (clk 3) rq c2 entries = (Inr c3, entries')" "run_guard g c3 = Inr c"
    using assms(1) by (auto simp: admin_chain_def split: sum.splits prod.splits)
  obtain tok claims where t: "presents rq tok" "ParseToken L env (clk 0) tok = Some claims"
    "c1 = empty_context\<lparr>cx_user_id := Some (jc_UserID claims), cx_user_role := Some (jc_Role claims)\<rparr>"
    using JWTAuth_Inr [OF ch(1)] by blast
  have c2: "c2 = c1\<lparr>cx_admin_role := Some (jc_Role claims)\<rparr>" "IsAdminRole (jc_Role claims)"
    using ch(2) t(3) by (auto simp: RequireAdmin_def getUserRole_def split: if_splits)
  have "c3 = c2" by (rule AdminRateLimit_keeps [OF ch(3)])
  with ch(4) c2(1) t(3) have "guard_admits g (jc_Role claims)" "c = c2" by (auto simp: run_guard_Inr)
  with t c2 ParseToken_sound [OF assms(2) t(2)] show ?thesis by auto
qed

section \<open>Login\<close>

lemma GetByUsername_Inr:
  "GetByUsername fault name db = Inr u \<Longrightarrow> u \<in> set (live_users db) \<and> us_Username u = name"
  by (auto simp: GetByUsername_def split: if_splits option.splits dest: find_SomeD)

lemma check_credentials_Inr:
  assumes "check_credentials P run ip body db p = (Inr user, p')"
  shows "\<exists>username password p1. body = Some (username, password) \<and> username \<noteq> [] \<and>
    Allow (ap_lower P) ip username (lr_now run) p = (None, p1) \<and> user \<in> set (live_users db) \<and>
    us_Username user = username \<and> ap_bcrypt_ok P (us_Password user) password \<and> ActiveBcrypt p' = ActiveBcrypt p1 + 1"
proof -
  obtain username password where b: "body = Some (username, password)" "username \<noteq> []" "password \<noteq> []"
    using assms by (auto simp: check_credentials_def split: option.splits if_splits)
  obtain p1 where p1: "Allow (ap_lower P) ip username (lr_now run) p = (None, p1)"
    using assms b by (auto simp: check_credentials_def split: prod.splits option.splits)
  have nd: "\<not> lr_lookup_done run" using assms b p1 by (auto simp: check_credentials_def)
  obtain u where u: "GetByUsername (lr_lookup_fault run) username db = Inr u"
    using assms b p1 nd by (auto simp: check_credentials_def split: sum.splits)
  have cs: "compare_start (lr_slot_done run) p1 = (None, p')" "\<not> lr_compare_done run"
    "ap_bcrypt_ok P (us_Password u) password" "u = user"
    using assms b p1 nd u
    by (auto simp: check_credentials_def split: prod.splits option.splits login_error.splits if_splits)
  have "user \<in> set (live_users db)" "us_Username user = username"
    using GetByUsername_Inr [OF u] cs(4) by auto
  moreover have "ActiveBcrypt p' = ActiveBcrypt p1 + 1"
    using cs(1) by (auto simp: compare_start_def ActiveBcrypt_def chan_try_send_def split: if_splits)
  ultimately show ?thesis using b p1 cs by auto
qed

text \<open>
  C21: a login gives a token of exactly that user, for a day. When \<open>LoginHandler\<close> answers with a token the
  attempt passed the rate limit, a live user has that name, its password hash accepts the password and
  the user is an ordinary one (the same credentials get no token from the administrative login); the
  middleware then admits a request with the token as that user and role until the day, less at most a
  second, is over, and refuses it afterwards.
\<close>

theorem login_token_identity:
  assumes "LoginHandler P run ip (Some (username, password)) db p = (reply, p')" "rp_token reply = Some tok"
    and "jwt_laws (ap_jwt P)" "tok \<noteq> []" "rq_Authorization rq = ''Bearer '' @ tok"
  shows "\<exists>user \<in> set (live_users db). us_Username user = username \<and> ap_bcrypt_ok P (us_Password user) password \<and>
    us_Role user = RoleUser \<and> (\<exists>p1. Allow (ap_lower P) ip username (lr_now run) p = (None, p1)) \<and>
    rp_token (fst (AdminLogin P run ip (Some (username, password)) db p)) = None \<and>
    (\<forall>now. now + 1000000000 \<le> lr_t1 run + token_life \<longrightarrow>
       JWTAuth (ap_jwt P) (ap_secret P) now rq empty_context =
         Inr (empty_context\<lparr>cx_user_id := Some (us_ID user), cx_user_role := Some RoleUser\<rparr>)) \<and>
    (\<forall>now. lr_t1 run + token_life \<le> now \<longrightarrow>
       JWTAuth (ap_jwt P) (ap_secret P) now rq empty_context = Inl Unauthorized)"
proof -
  let ?L = "ap_jwt P" and ?env = "ap_secret P"
  obtain user where cc: "check_credentials P run ip (Some (username, password)) db p = (Inr user, p')"
      "us_Role user = RoleUser" "reply = issue_token P run user"
    using assms(1,2)
    by (cases "check_credentials P run ip (Some (username, password)) db p")
      (auto simp: LoginHandler_def refuse_def split: sum.splits if_splits)
  then have gen: "GenerateToken ?L ?env (lr_t1 run) (lr_t2 run) (us_ID user) RoleUser = Some tok"
    using assms(2) by (auto simp: issue_token_def refuse_def split: option.splits)
  have "rp_token (fst (AdminLogin P run ip (Some (username, password)) db p)) = None"
    using cc(1,2) by (simp add: AdminLogin_def refuse_def IsAdminRole_def role_defs)
  moreover have "JWTAuth ?L ?env now rq empty_context =
      Inr (empty_context\<lparr>cx_user_id := Some (us_ID user), cx_user_role := Some RoleUser\<rparr>)"
    if "now + 1000000000 \<le> lr_t1 run + token_life" for now
  proof -
    have "lr_t1 run + token_life < jl_num_date ?L (lr_t1 run + token_life) + 1000000000"
      using jwt_date [OF assms(3)] by blast
    then have "now < jl_num_date ?L (lr_t1 run + token_life)" using that by simp
    from GenerateToken_ParseToken(1) [OF assms(3) gen this] show ?thesis
      using JWTAuth_bearer [OF assms(4,5), of ?L ?env now] by auto
  qed
  moreover have "JWTAuth ?L ?env now rq empty_context = Inl Unauthorized" if "lr_t1 run + token_life \<le> now" for now
    using GenerateToken_ParseToken(2) [OF assms(3) gen that] JWTAuth_bearer [OF assms(4,5), of ?L ?env now] by simp
  ultimately show ?thesis using check_credentials_Inr [OF cc(1)] cc(2) by auto
qed

text \<open>
  Registration makes an account one can log in with. After a successful registration the name belongs
  to the new user, an ordinary one, and a login with the same credentials that is not rate limited, finds
  a free slot and does not time out gets a token for that user.
\<close>

lemma register_then_login:
  assumes "RegisterHandler runes bcrypt_hash lookupFault createFault created (Some (username, password)) db = (OK, db')"
    and "\<And>pw h. bcrypt_hash pw = Some h \<Longrightarrow> ap_bcrypt_ok P h pw"
    and "\<And>key c. jl_sign (ap_jwt P) key c \<noteq> None"
    and "Allow (ap_lower P) ip username (lr_now run) p = (None, p1)" "compare_start False p1 = (None, p2)"
    and "\<not> lr_lookup_done run" "\<not> lr_lookup_fault run" "\<not> lr_slot_done run" "\<not> lr_compare_done run"
  shows "\<exists>user tok. rp_token (fst (LoginHandler P run ip (Some (username, password)) db' p)) = Some tok \<and>
    rp_user (fst (LoginHandler P run ip (Some (username, password)) db' p)) = Some user \<and>
    us_ID user = db_nextUser db \<and> us_Username user = username \<and> us_Role user = RoleUser \<and>
    db_users db' = db_users db @ [user] \<and> (\<forall>v \<in> set (live_users db). us_Username v \<noteq> username)"
proof -
  obtain h where h: "bcrypt_hash password = Some h" "username \<noteq> []" "password \<noteq> []"
    using assms(1) by (auto simp: RegisterHandler_def split: if_splits sum.splits option.splits)
  let ?u = "\<lparr>us_ID = db_nextUser db, us_Username = username, us_Password = h, us_Avatar = [], us_Role = 0,
      us_IsBot = False, us_Status = 0, us_LastLoginAt = None, us_LastActiveAt = None, us_CreatedAt = created, us_DeletedAt = 0\<rparr>"
  have new: "db_users db' = db_users db @ [?u]" "\<forall>v \<in> set (db_users db). us_Username v = username \<longrightarrow> us_DeletedAt v \<noteq> 0"
    using assms(1) h by (auto simp: RegisterHandler_def CreateUser_def split: if_splits sum.splits prod.splits)
  have free: "\<forall>v \<in> set (live_users db). us_Username v \<noteq> username" using new(2) by (auto simp: live_users_def)
  have "live_users db' = live_users db @ [?u]" using new(1) by (simp add: live_users_def)
  then have "find (\<lambda>u. us_Username u = username) (live_users db') = Some ?u"
    using free by (simp add: find_append_None)
  then have "check_credentials P run ip (Some (username, password)) db' p = (Inr ?u, p2)"
    using assms(2) [OF h(1)] assms(4-9) h by (simp add: check_credentials_def GetByUsername_def)
  then have l: "fst (LoginHandler P run ip (Some (username, password)) db' p) = issue_token P run ?u"
    by (simp add: LoginHandler_def role_defs)
  obtain tok where "GenerateToken (ap_jwt P) (ap_secret P) (lr_t1 run) (lr_t2 run) (us_ID ?u) (us_Role ?u) = Some tok"
    using assms(3) unfolding GenerateToken_def by blast
  then have "rp_token (issue_token P run ?u) = Some tok" "rp_user (issue_token P run ?u) = Some ?u"
    by (simp_all add: issue_token_def)
  then show ?thesis unfolding l using new(1) free by (auto simp: role_defs)
qed

definition set_status :: "int \<Rightarrow> DB \<Rightarrow> DB" where
  "set_status s db = db\<lparr>db_users := map (\<lambda>u. u\<lparr>us_Status := s\<rparr>) (db_users db)\<rparr>"

lemma find_map_status:
  "find (\<lambda>u. us_Username u = n) (map (\<lambda>u. u\<lparr>us_Status := s\<rparr>) us) =
     map_option (\<lambda>u. u\<lparr>us_Status := s\<rparr>) (find (\<lambda>u. us_Username u = n) us)"
  by (induction us) auto

lemma live_set_status: "live_users (set_status s db) = map (\<lambda>u. u\<lparr>us_Status := s\<rparr>) (live_users db)"
  by (simp add: live_users_def set_status_def filter_map o_def)

lemma check_credentials_status:
  "check_credentials P run ip body (set_status s db) p =
     (case check_credentials P run ip body db p of (r, p') \<Rightarrow> (map_sum id (\<lambda>u. u\<lparr>us_Status := s\<rparr>) r, p'))"
  by (auto simp: check_credentials_def GetByUsername_def live_set_status find_map_status
      split: option.splits prod.splits login_error.splits)

text \<open>
  The account status plays no part in a login. Whatever the status column holds, banned accounts
  included, both logins answer with the same status and the same token.
\<close>

lemma login_ignores_status:
  "rp_status (fst (LoginHandler P run ip body (set_status s db) p)) = rp_status (fst (LoginHandler P run ip body db p)) \<and>
   rp_token (fst (LoginHandler P run ip body (set_status s db) p)) = rp_token (fst (LoginHandler P run ip body db p)) \<and>
   rp_token (fst (AdminLogin P run ip body (set_status s db) p)) = rp_token (fst (AdminLogin P run ip body db p))"
  by (auto simp: LoginHandler_def AdminLogin_def check_credentials_status issue_token_def refuse_def
      split: prod.splits sum.splits option.splits)

section \<open>The rate limiter of the administration API\<close>

lemma map_len_put: "map_len (map_put k v m) \<le> Suc (map_len m)"
  unfolding map_len_def map_put_def by (induction m) auto

lemma map_wf_filter: "map_wf m \<Longrightarrow> map_wf (filter P m)"
  unfolding map_wf_def by (induction m) auto

lemma map_get_filter:
  "map_wf m \<Longrightarrow> map_get (filter P m) k = (case map_get m k of None \<Rightarrow> None | Some v \<Rightarrow> if P (k, v) then Some v else None)"
  unfolding map_wf_def map_get_def by (induction m) (auto simp: map_of_eq_None_iff split: option.splits)

text \<open>
  The limiter of one administrator is not disturbed by the others. A request moves the bucket of its
  own key only: the bucket of every other key seen in the last half hour is what it was, a stale one may
  be dropped, and dropping happens only when more than 2000 keys are held; the answer is the answer of
  the key's own bucket.
\<close>

lemma AdminRateLimit_isolated:
  fixes entries :: "(string, 'l rateEntry) gomap" and allow :: "'l \<Rightarrow> time \<Rightarrow> bool \<times> 'l"
  assumes "AdminRateLimit nl allow t1 t2 t3 rq c entries = (res, entries')" "map_wf entries"
    and "key = rate_key (case cx_user_id c of None \<Rightarrow> 0 | Some u \<Rightarrow> u) (rq_ClientIP rq)" "t2 - t1 \<le> 1800000000000"
  shows "map_wf entries' \<and>
    (case allow (case map_get entries key of None \<Rightarrow> nl | Some e \<Rightarrow> re_limiter e) t3 of (ok, l') \<Rightarrow>
       res = (if ok then Inr c else Inl TooMany) \<and>
       map_get entries' key = Some \<lparr>re_limiter = l', re_lastSeen = t1\<rparr>) \<and>
    (\<forall>k \<noteq> key. map_get entries' k = map_get entries k \<or>
       map_get entries' k = None \<and> map_len entries \<ge> 2000 \<and>
       (\<exists>e. map_get entries k = Some e \<and> t2 - re_lastSeen e > 1800000000000))"
proof -
  let ?l = "case map_get entries key of None \<Rightarrow> nl | Some e \<Rightarrow> re_limiter e"
  let ?e = "\<lparr>re_limiter = ?l, re_lastSeen = t1\<rparr>"
  let ?m1 = "map_put key ?e entries"
  let ?m2 = "if map_len ?m1 > 2000 then evict_idle t2 ?m1 else ?m1"
  obtain ok l' where a: "allow ?l t3 = (ok, l')" by (cases "allow ?l t3")
  have wf1: "map_wf ?m1" using assms(2) by simp
  then have wf2: "map_wf ?m2" by (auto simp: evict_idle_def map_wf_filter)
  have g2: "map_get ?m2 key = Some ?e"
    using assms(4) by (simp add: evict_idle_def map_get_filter [OF wf1])
  have res: "res = (if ok then Inr c else Inl TooMany)" "entries' = map_put key (?e\<lparr>re_limiter := l'\<rparr>) ?m2"
    using assms(1) a g2 unfolding AdminRateLimit_def Let_def assms(3) [symmetric] by auto
  have len: "map_len ?m1 \<le> Suc (map_len entries)" by (rule map_len_put)
  have "map_get entries' k = map_get entries k \<or>
       map_get entries' k = None \<and> map_len entries \<ge> 2000 \<and>
       (\<exists>e. map_get entries k = Some e \<and> t2 - re_lastSeen e > 1800000000000)" if "k \<noteq> key" for k
    using that len res(2)
    by (cases "map_get entries k") (auto simp: evict_idle_def map_get_filter [OF wf1])
  with a res wf2 show ?thesis by auto
qed

section \<open>Witnesses\<close>

text \<open>A library with one token: it signs one set of claims under one key.\<close>

definition sample_claims :: CustomClaims where
  "sample_claims = \<lparr>jc_UserID = 7, jc_Role = 0, jc_ExpiresAt = Some 86400000000000, jc_IssuedAt = Some 0,
     jc_Issuer = ''lan-im-server''\<rparr>"

definition sample_jwt :: "CustomClaims \<Rightarrow> time \<Rightarrow> jwt_lib" where
  "sample_jwt cs e =
     \<lparr>jl_sign = (\<lambda>key c. if key = ''k'' \<and> c = cs then Some ''t'' else None),
      jl_parse = (\<lambda>kf now t. if t = ''t'' \<and> kf HMAC = Some ''k'' \<and> now < e then Some (cs, True) else None),
      jl_verifies = (\<lambda>m key t. m = HMAC \<and> key = ''k'' \<and> t = ''t''),
      jl_num_date = (\<lambda>t. t)\<rparr>"

lemma sample_jwt_laws: "jc_ExpiresAt cs = Some e \<Longrightarrow> jwt_laws (sample_jwt cs e)"
  unfolding jwt_laws_def sample_jwt_def by (intro conjI allI impI) (auto split: if_splits)

definition sample_params :: auth_params where
  "sample_params = \<lparr>ap_jwt = sample_jwt sample_claims 86400000000000, ap_secret = ''k'', ap_lower = (\<lambda>s. s),
     ap_bcrypt_ok = (\<lambda>h pw. h = pw)\<rparr>"

definition sample_users :: DB where
  "sample_users = \<lparr>db_users = [\<lparr>us_ID = 7, us_Username = ''amy'', us_Password = ''pw'', us_Avatar = [], us_Role = 0,
       us_IsBot = False, us_Status = 0, us_LastLoginAt = None, us_LastActiveAt = None, us_CreatedAt = 1, us_DeletedAt = 0\<rparr>],
     db_rooms = [], db_members = [], db_nextUser = 8, db_nextRoom = 1, db_nextMember = 1\<rparr>"

definition sample_login :: login_run where
  "sample_login = \<lparr>lr_now = 5, lr_lookup_done = False, lr_lookup_fault = False, lr_slot_done = False,
     lr_compare_done = False, lr_t1 = 0, lr_t2 = 0\<rparr>"

definition sample_request :: request where
  "sample_request = \<lparr>rq_Authorization = ''Bearer t'', rq_token = [], rq_ClientIP = ''10.0.0.1''\<rparr>"

theorem login_token_identity_witness:
  "JWTAuth (ap_jwt sample_params) ''k'' 5 sample_request empty_context =
     Inr (empty_context\<lparr>cx_user_id := Some 7, cx_user_role := Some RoleUser\<rparr>)"
proof -
  let ?r = "LoginHandler sample_params sample_login ''10.0.0.1'' (Some (''amy'', ''pw'')) sample_users sample_protector"
  have r: "?r = (fst ?r, snd ?r)" by simp
  have t: "rp_token (fst ?r) = Some ''t''" by code_simp
  have l: "jwt_laws (ap_jwt sample_params)" by (simp add: sample_params_def sample_jwt_laws sample_claims_def)
  have a: "rq_Authorization sample_request = ''Bearer '' @ ''t''" by (simp add: sample_request_def)
  obtain user where u: "user \<in> set (live_users sample_users)"
    "\<forall>now. now + 1000000000 \<le> lr_t1 sample_login + token_life \<longrightarrow>
       JWTAuth (ap_jwt sample_params) (ap_secret sample_params) now sample_request empty_context =
         Inr (empty_context\<lparr>cx_user_id := Some (us_ID user), cx_user_role := Some RoleUser\<rparr>)"
    using login_token_identity [OF r t l _ a] by (auto simp del: set_filter)
  have "us_ID user = 7" using u(1) by (simp add: live_users_def sample_users_def)
  with u(2) show ?thesis by (simp add: sample_params_def sample_login_def token_life_def)
qed

definition admin_claims :: CustomClaims where
  "admin_claims = sample_claims\<lparr>jc_Role := 3\<rparr>"

definition free_limiter :: "unit \<Rightarrow> time \<Rightarrow> bool \<times> unit" where
  "free_limiter l t = (True, l)"

theorem admin_chain_gate_witness:
  "\<exists>c entries. admin_chain (sample_jwt admin_claims 86400000000000) ''k'' () free_limiter (\<lambda>_. 5) sample_request
     (NeedsAll PermAuditRead) [] = (Inr c, entries) \<and> presents sample_request ''t'' \<and> cx_user_id c = Some 7"
proof -
  let ?L = "sample_jwt admin_claims 86400000000000"
  let ?c = "\<lparr>cx_user_id = Some 7, cx_user_role = Some 3, cx_admin_role = Some 3\<rparr>"
  let ?es = "snd (admin_chain ?L ''k'' () free_limiter (\<lambda>_. 5) sample_request (NeedsAll PermAuditRead) [])"
  have r: "admin_chain ?L ''k'' () free_limiter (\<lambda>_. 5) sample_request (NeedsAll PermAuditRead) [] = (Inr ?c, ?es)"
    by (rule prod_eqI) (simp_all only: fst_conv snd_conv, code_simp)
  have l: "jwt_laws ?L" by (rule sample_jwt_laws) (simp add: admin_claims_def sample_claims_def)
  have "\<exists>tok. presents sample_request tok" using admin_chain_gate [OF r l] by blast
  moreover have "presents sample_request ''t''" by (simp add: presents_def sample_request_def)
  ultimately show ?thesis using r by (metis (no_types) gin_context.select_convs(1))
qed

lemma AdminRateLimit_isolated_example:
  "map_wf (snd (AdminRateLimit () free_limiter 5 5 5 sample_request empty_context
     [(''10.0.0.2'', \<lparr>re_limiter = (), re_lastSeen = 1\<rparr>)]))"
proof -
  let ?es = "[(''10.0.0.2'', \<lparr>re_limiter = (), re_lastSeen = 1\<rparr>)]"
  let ?r = "AdminRateLimit () free_limiter 5 5 5 sample_request empty_context ?es"
  have r: "?r = (fst ?r, snd ?r)" by simp
  have wf: "map_wf ?es" by (simp add: map_wf_def)
  show ?thesis using AdminRateLimit_isolated [OF r wf refl] by simp
qed


lemma register_then_login_example:
  "\<exists>tok. rp_token (fst (LoginHandler (sample_params\<lparr>ap_jwt := (sample_jwt sample_claims 5)\<lparr>jl_sign := \<lambda>k c. Some ''t''\<rparr>\<rparr>)
     sample_login ''10.0.0.1'' (Some (''bob'', ''secret'')) 
     (snd (RegisterHandler length Some False False 3 (Some (''bob'', ''secret'')) sample_users)) sample_protector)) = Some tok"
proof -
  let ?P = "sample_params\<lparr>ap_jwt := (sample_jwt sample_claims 5)\<lparr>jl_sign := \<lambda>k c. Some ''t''\<rparr>\<rparr>"
  let ?db = "snd (RegisterHandler length Some False False 3 (Some (''bob'', ''secret'')) sample_users)"
  let ?p1 = "snd (Allow (ap_lower ?P) ''10.0.0.1'' ''bob'' (lr_now sample_login) sample_protector)"
  have r: "RegisterHandler length Some False False 3 (Some (''bob'', ''secret'')) sample_users = (OK, ?db)"
    by (rule prod_eqI) (simp_all only: fst_conv snd_conv, code_simp)
  have a: "Allow (ap_lower ?P) ''10.0.0.1'' ''bob'' (lr_now sample_login) sample_protector = (None, ?p1)"
    by (rule prod_eqI) (simp_all only: fst_conv snd_conv, code_simp)
  have c: "compare_start False ?p1 = (None, snd (compare_start False ?p1))"
    by (rule prod_eqI) (simp_all only: fst_conv snd_conv, code_simp)
  have b: "ap_bcrypt_ok ?P h pw" if "Some pw = Some h" for h pw using that by (simp add: sample_params_def)
  have k: "jl_sign (ap_jwt ?P) key cs \<noteq> None" for key cs by simp
  have f: "\<not> lr_lookup_done sample_login" "\<not> lr_lookup_fault sample_login" "\<not> lr_slot_done sample_login"
    "\<not> lr_compare_done sample_login" by (simp_all add: sample_login_def)
  show ?thesis using register_then_login [OF r b k a c f] by blast
qed

end
