(* ===== verification/Files.thy ===== *)
theory Files
  imports Store
begin

text \<open>
  Files of the message service: \<^verbatim>\<open>services/messages/application/file_service.go\<close> and
  \<^verbatim>\<open>services/messages/api/file_handler.go\<close> over the record type of \<^verbatim>\<open>models/file_record.go\<close>.

  The object storage is behind the interface \<^verbatim>\<open>storage.Provider\<close>; the links it hands out are parameters
  (\<open>presign\<close>, \<open>download_url\<close>, \<open>None\<close> for an error). \<open>fault n\<close> says that the n-th call to a database fails. The
  lemmas show that object keys cannot leave the tree, that a key handed out for an upload is the key
  that is registered, and who may obtain a download link.
\<close>

section \<open>Records\<close>

record FileRecord =
  fr_ID :: int
  fr_ObjectKey :: string
  fr_OriginalName :: string
  fr_SHA256 :: string
  fr_Size :: int
  fr_UploaderID :: int
  fr_RoomID :: int
  fr_Backend :: string
  fr_Status :: string
  fr_MessageID :: int
  fr_CreatedAt :: time
  fr_UpdatedAt :: time

record FileStore =
  fs_rows :: "FileRecord list"
  fs_next :: int

definition empty_files :: FileStore where
  "empty_files = \<lparr>fs_rows = [], fs_next = 1\<rparr>"

record CompleteUploadRequest =
  cu_ObjectKey :: string
  cu_OriginalName :: string
  cu_SHA256 :: string
  cu_FileSize :: int
  cu_RoomID :: int

datatype file_error = ErrFileNotFound | ErrFileForbidden | ErrInvalidFileKey | ErrFileStore db_error

section \<open>Object keys\<close>

definition normalizeObjectKey :: "string \<Rightarrow> string option" where
  "normalizeObjectKey raw =
     (let cleaned = TrimPrefix (path_Clean (TrimSpace raw)) ''/''
      in if cleaned = [] \<or> cleaned = ''.'' \<or> HasPrefix cleaned ''../'' then None else Some cleaned)"

definition objectKeyBelongsToUser :: "string \<Rightarrow> int \<Rightarrow> bool" where
  "objectKeyBelongsToUser objectKey userID =
     (case SplitN 3 CHR ''/'' objectKey of
        [a, b, c] \<Rightarrow> b = FormatInt userID
      | _ \<Rightarrow> False)"

text \<open>\<^verbatim>\<open>now.Format("2006-01-02")\<close> in UTC, by the days of the Gregorian calendar since 1970.\<close>

definition civil_date :: "time \<Rightarrow> int \<times> int \<times> int" where
  "civil_date t =
     (let z = t div 86400000000000 + 719468;
          era = z div 146097;
          doe = z - era * 146097;
          yoe = (doe - doe div 1460 + doe div 36524 - doe div 146096) div 365;
          doy = doe - (365 * yoe + yoe div 4 - yoe div 100);
          mp = (5 * doy + 2) div 153;
          d = doy - (153 * mp + 2) div 5 + 1;
          m = (if mp < 10 then mp + 3 else mp - 9);
          y = yoe + era * 400
      in (if m \<le> 2 then y + 1 else y, m, d))"

definition pad_int :: "nat \<Rightarrow> int \<Rightarrow> string" where
  "pad_int n x = replicate (n - length (FormatInt x)) CHR ''0'' @ FormatInt x"

definition format_date :: "time \<Rightarrow> string" where
  "format_date t = (case civil_date t of (y, m, d) \<Rightarrow> pad_int 4 y @ ''-'' @ pad_int 2 m @ ''-'' @ pad_int 2 d)"

definition safe_name :: "string \<Rightarrow> string" where
  "safe_name fileName =
     (let b = path_Base (TrimSpace fileName)
      in if b = [] \<or> b = ''.'' \<or> b = ''/'' then ''file'' else b)"

definition upload_key :: "time \<Rightarrow> int \<Rightarrow> string \<Rightarrow> string" where
  "upload_key now userID fileName =
     format_date now @ ''/'' @ FormatInt userID @ ''/'' @ FormatInt (UnixMilli now) @ ''_'' @ safe_name fileName"

section \<open>The service\<close>

definition CompleteUpload ::
    "(nat \<Rightarrow> bool) \<Rightarrow> time \<Rightarrow> string \<Rightarrow> int \<Rightarrow> CompleteUploadRequest \<Rightarrow> DB \<Rightarrow> FileStore \<Rightarrow>
     (file_error + FileRecord) \<times> FileStore" where
  "CompleteUpload fault now backend userID req db fs =
     (case normalizeObjectKey (cu_ObjectKey req) of
        None \<Rightarrow> (Inl ErrInvalidFileKey, fs)
      | Some objectKey \<Rightarrow>
          if \<not> objectKeyBelongsToUser objectKey userID then (Inl ErrInvalidFileKey, fs)
          else
            (case (if cu_RoomID req > 0 then CheckIsMember (fault 0) (cu_RoomID req) userID db else Inr True) of
               Inl e \<Rightarrow> (Inl (ErrFileStore e), fs)
             | Inr False \<Rightarrow> (Inl ErrFileForbidden, fs)
             | Inr True \<Rightarrow>
                 if fault 1 then (Inl (ErrFileStore DBFailure), fs)
                 else
                   (case find (\<lambda>r. fr_ObjectKey r = objectKey) (fs_rows fs) of
                      Some existing \<Rightarrow>
                        if fr_UploaderID existing \<noteq> userID then (Inl ErrFileForbidden, fs)
                        else
                          (let row = existing\<lparr>fr_OriginalName := path_Base (TrimSpace (cu_OriginalName req)),
                                       fr_SHA256 := TrimSpace (cu_SHA256 req), fr_Size := cu_FileSize req,
                                       fr_RoomID := cu_RoomID req, fr_Status := ''uploaded'', fr_UpdatedAt := now,
                                       fr_Backend := backend\<rparr>
                           in if fault 2 then (Inl (ErrFileStore DBFailure), fs)
                              else (Inr row, fs\<lparr>fs_rows := map (\<lambda>r. if fr_ID r = fr_ID row then row else r) (fs_rows fs)\<rparr>))
                    | None \<Rightarrow>
                        (let row = \<lparr>fr_ID = fs_next fs, fr_ObjectKey = objectKey,
                                    fr_OriginalName = path_Base (TrimSpace (cu_OriginalName req)),
                                    fr_SHA256 = TrimSpace (cu_SHA256 req), fr_Size = cu_FileSize req,
                                    fr_UploaderID = userID, fr_RoomID = cu_RoomID req, fr_Backend = backend,
                                    fr_Status = ''uploaded'', fr_MessageID = 0, fr_CreatedAt = now, fr_UpdatedAt = now\<rparr>
                         in if fault 2 then (Inl (ErrFileStore DBFailure), fs)
                            else (Inr row, fs\<lparr>fs_rows := fs_rows fs @ [row], fs_next := fs_next fs + 1\<rparr>)))))"

definition authorizedDownloadURL ::
    "(string \<Rightarrow> string option) \<Rightarrow> bool \<Rightarrow> int \<Rightarrow> FileRecord \<Rightarrow> DB \<Rightarrow> file_error + string" where
  "authorizedDownloadURL download_url fault userID rec db =
     (if fr_Status rec \<noteq> ''uploaded'' then Inl ErrFileNotFound
      else
        (case (if fr_RoomID rec > 0
               then (case CheckIsMember fault (fr_RoomID rec) userID db of
                       Inl e \<Rightarrow> Some (ErrFileStore e)
                     | Inr ok \<Rightarrow> if ok then None else Some ErrFileForbidden)
               else if fr_UploaderID rec \<noteq> userID then Some ErrFileForbidden else None) of
           Some e \<Rightarrow> Inl e
         | None \<Rightarrow> (case download_url (fr_ObjectKey rec) of None \<Rightarrow> Inl ErrFileNotFound | Some url \<Rightarrow> Inr url)))"

definition DownloadURLByID ::
    "(string \<Rightarrow> string option) \<Rightarrow> (nat \<Rightarrow> bool) \<Rightarrow> int \<Rightarrow> int \<Rightarrow> DB \<Rightarrow> FileStore \<Rightarrow> file_error + string" where
  "DownloadURLByID download_url fault userID fileID db fs =
     (if fault 0 then Inl (ErrFileStore DBFailure)
      else case find (\<lambda>r. fr_ID r = fileID) (fs_rows fs) of
        None \<Rightarrow> Inl ErrFileNotFound
      | Some rec \<Rightarrow> authorizedDownloadURL download_url (fault 1) userID rec db)"

definition DownloadURLByObjectKey ::
    "(string \<Rightarrow> string option) \<Rightarrow> (nat \<Rightarrow> bool) \<Rightarrow> int \<Rightarrow> string \<Rightarrow> DB \<Rightarrow> FileStore \<Rightarrow> file_error + string" where
  "DownloadURLByObjectKey download_url fault userID objectKey db fs =
     (case normalizeObjectKey objectKey of
        None \<Rightarrow> Inl ErrInvalidFileKey
      | Some cleanKey \<Rightarrow>
          if fault 0 then Inl (ErrFileStore DBFailure)
          else case find (\<lambda>r. fr_ObjectKey r = cleanKey) (fs_rows fs) of
            None \<Rightarrow> Inl ErrFileNotFound
          | Some rec \<Rightarrow> authorizedDownloadURL download_url (fault 1) userID rec db)"

section \<open>HTTP\<close>

definition writeFileError :: "file_error \<Rightarrow> http_status" where
  "writeFileError e =
     (case e of
        ErrInvalidFileKey \<Rightarrow> BadRequest
      | ErrFileForbidden \<Rightarrow> Forbidden
      | ErrFileNotFound \<Rightarrow> NotFound
      | ErrFileStore _ \<Rightarrow> ServerError)"

definition PreSignUpload ::
    "(string \<Rightarrow> string option) \<Rightarrow> time \<Rightarrow> int \<Rightarrow> string option \<Rightarrow> http_status \<times> (string \<times> string) option" where
  "PreSignUpload presign now userID fileName =
     (case fileName of
        None \<Rightarrow> (BadRequest, None)
      | Some name \<Rightarrow>
          if name = [] then (BadRequest, None)
          else
            (let objectKey = upload_key now userID name
             in case presign objectKey of
                  None \<Rightarrow> (ServerError, None)
                | Some url \<Rightarrow> (OK, Some (url, objectKey))))"

definition http_CompleteUpload ::
    "(nat \<Rightarrow> bool) \<Rightarrow> time \<Rightarrow> string \<Rightarrow> int \<Rightarrow> CompleteUploadRequest option \<Rightarrow> DB \<Rightarrow> FileStore \<Rightarrow>
     (http_status \<times> FileRecord option) \<times> FileStore" where
  "http_CompleteUpload fault now backend userID body db fs =
     (case body of
        None \<Rightarrow> ((BadRequest, None), fs)
      | Some req \<Rightarrow>
          if cu_ObjectKey req = [] \<or> cu_OriginalName req = [] then ((BadRequest, None), fs)
          else
            (case CompleteUpload fault now backend userID req db fs of
               (Inl e, fs') \<Rightarrow> ((writeFileError e, None), fs')
             | (Inr row, fs') \<Rightarrow> ((OK, Some row), fs')))"

definition DownloadFileByID ::
    "(string \<Rightarrow> string option) \<Rightarrow> (nat \<Rightarrow> bool) \<Rightarrow> int \<Rightarrow> string \<Rightarrow> DB \<Rightarrow> FileStore \<Rightarrow> http_status \<times> string" where
  "DownloadFileByID download_url fault userID idParam db fs =
     (case ParseInt idParam of
        (_, Some _) \<Rightarrow> (BadRequest, [])
      | (fileID, None) \<Rightarrow>
          if fileID \<le> 0 then (BadRequest, [])
          else (case DownloadURLByID download_url fault userID fileID db fs of
                  Inl e \<Rightarrow> (writeFileError e, [])
                | Inr url \<Rightarrow> (OK, url)))"

text \<open>\<open>unescape\<close> is \<^verbatim>\<open>url.PathUnescape\<close>; an escape that is malformed is taken literally.\<close>

definition DownloadFileByObjectKey ::
    "(string \<Rightarrow> string option) \<Rightarrow> (string \<Rightarrow> string option) \<Rightarrow> (nat \<Rightarrow> bool) \<Rightarrow> int \<Rightarrow> string \<Rightarrow> DB \<Rightarrow> FileStore \<Rightarrow>
     http_status \<times> string" where
  "DownloadFileByObjectKey unescape download_url fault userID param db fs =
     (let encoded = TrimPrefix param ''/'';
          raw = (case unescape encoded of None \<Rightarrow> encoded | Some r \<Rightarrow> r)
      in case DownloadURLByObjectKey download_url fault userID raw db fs of
           Inl e \<Rightarrow> (writeFileError e, [])
         | Inr url \<Rightarrow> (OK, url))"

section \<open>Cleaned paths\<close>

definition plain_part :: "string \<Rightarrow> bool" where
  "plain_part p \<longleftrightarrow> p \<noteq> [] \<and> p \<noteq> ''.'' \<and> p \<noteq> ''..'' \<and> CHR ''/'' \<notin> set p"

text \<open>The stack of a cleaned path: plain parts above a run of \<^verbatim>\<open>..\<close>, which is empty for a rooted path.\<close>

definition clean_stack :: "bool \<Rightarrow> string list \<Rightarrow> bool" where
  "clean_stack rooted stack \<longleftrightarrow>
     (\<exists>n ps. stack = ps @ replicate n ''..'' \<and> list_all plain_part ps \<and> (rooted \<longrightarrow> n = 0))"

lemma clean_step_stack:
  assumes "clean_stack rooted stack" "CHR ''/'' \<notin> set el"
  shows "clean_stack rooted (clean_step rooted stack el)"
proof -
  obtain n ps where s: "stack = ps @ replicate n ''..''" "list_all plain_part ps" "rooted \<longrightarrow> n = 0"
    using assms(1) by (auto simp: clean_stack_def)
  consider "el = [] \<or> el = ''.''" | "el = ''..''" | "plain_part el" using assms(2) by (auto simp: plain_part_def)
  then show ?thesis
  proof cases
    case 1
    with assms(1) show ?thesis by auto
  next
    case 2
    show ?thesis
    proof (cases ps)
      case Nil
      show ?thesis
      proof (cases rooted)
        case True
        with s Nil 2 show ?thesis by (simp add: clean_stack_def)
      next
        case False
        have "clean_step rooted stack el = [] @ replicate (Suc n) ''..''"
          using s Nil 2 False by (cases n) auto
        with False show ?thesis unfolding clean_stack_def by (intro exI [of _ "Suc n"] exI [of _ "[]"]) simp
      qed
    next
      case (Cons p ps')
      then have "p \<noteq> ''..''" using s(2) by (simp add: plain_part_def)
      with 2 s(1) Cons have "clean_step rooted stack el = ps' @ replicate n ''..''" by auto
      with s Cons show ?thesis unfolding clean_stack_def by auto
    qed
  next
    case 3
    then have "clean_step rooted stack el = (el # ps) @ replicate n ''..''" using s(1) by (auto simp: plain_part_def)
    with s(2,3) 3 show ?thesis unfolding clean_stack_def by (intro exI [of _ n] exI [of _ "el # ps"]) simp
  qed
qed

lemma clean_fold_stack:
  "clean_stack rooted stack \<Longrightarrow> \<forall>el \<in> set els. CHR ''/'' \<notin> set el \<Longrightarrow>
     clean_stack rooted (foldl (clean_step rooted) stack els)"
  by (induction els arbitrary: stack) (simp_all add: clean_step_stack del: clean_step.simps)

lemma clean_fold_plain:
  "list_all plain_part els \<Longrightarrow> foldl (clean_step rooted) stack els = rev els @ stack"
  by (induction els arbitrary: stack) (auto simp: plain_part_def)

lemma path_Clean_plain:
  assumes "list_all plain_part ps" "ps \<noteq> []"
  shows "path_Clean (join_with CHR ''/'' ps) = join_with CHR ''/'' ps"
proof -
  obtain p qs where ps: "ps = p # qs" using assms(2) by (cases ps) auto
  then obtain c p' where p: "p = c # p'" "c \<noteq> CHR ''/''" using assms(1) by (cases p) (auto simp: plain_part_def)
  have hd: "join_with CHR ''/'' ps \<noteq> []" "hd (join_with CHR ''/'' ps) \<noteq> CHR ''/''"
    using p by (cases qs; simp add: ps)+
  have sp: "Split CHR ''/'' (join_with CHR ''/'' ps) = ps"
    using Split_join [OF assms(2), of "CHR ''/''"] assms(1) by (auto simp: list_all_iff plain_part_def)
  show ?thesis using hd sp assms clean_fold_plain [OF assms(1), of False "[]"]
    by (simp add: path_Clean_def Let_def)
qed

lemma clean_stack_member:
  assumes "clean_stack rooted stack" "q \<in> set stack"
  shows "q \<noteq> [] \<and> CHR ''/'' \<notin> set q"
proof -
  obtain n ps where s: "stack = ps @ replicate n ''..''" "list_all plain_part ps"
    using assms(1) unfolding clean_stack_def by blast
  then have "plain_part q \<or> q = ''..''" using assms(2) by (auto simp: list_all_iff)
  then show ?thesis by (auto simp: plain_part_def)
qed

lemma join_not_rooted:
  assumes "q \<noteq> []" "c \<notin> set q"
  shows "\<not> prefix [c] (join_with c (q # qs))"
proof -
  obtain x q' where "q = x # q'" "x \<noteq> c" using assms by (cases q) auto
  then show ?thesis by (cases qs) simp_all
qed

lemma cleaned_parts:
  "TrimPrefix (path_Clean p) ''/'' = ''.'' \<or>
   (\<exists>comps rooted. clean_stack rooted (rev comps) \<and> TrimPrefix (path_Clean p) ''/'' = join_with CHR ''/'' comps)"
proof (cases "p = []")
  case True
  then show ?thesis by (simp add: path_Clean_def TrimPrefix_def)
next
  case False
  let ?rooted = "hd p = CHR ''/''"
  let ?stack = "foldl (clean_step ?rooted) [] (Split CHR ''/'' p)"
  have st: "clean_stack ?rooted ?stack"
    by (rule clean_fold_stack) (auto simp: clean_stack_def dest: Split_no_sep)
  show ?thesis
  proof (cases ?rooted)
    case True
    then have "TrimPrefix (path_Clean p) ''/'' = join_with CHR ''/'' (rev ?stack)"
      using False by (simp add: path_Clean_def Let_def TrimPrefix_def)
    with st show ?thesis by (metis rev_rev_ident)
  next
    case nr: False
    show ?thesis
    proof (cases "?stack = []")
      case True
      then have "TrimPrefix (path_Clean p) ''/'' = ''.''" using False nr by (simp add: path_Clean_def Let_def TrimPrefix_def)
      then show ?thesis by simp
    next
      case ne: False
      then obtain q qs where q: "rev ?stack = q # qs" by (cases "rev ?stack") auto
      have "q \<in> set ?stack" using q by (metis list.set_intros(1) set_rev)
      then have "q \<noteq> []" "CHR ''/'' \<notin> set q" using clean_stack_member [OF st] by blast+
      then have "\<not> prefix ''/'' (join_with CHR ''/'' (rev ?stack))" unfolding q by (rule join_not_rooted)
      then have "TrimPrefix (path_Clean p) ''/'' = join_with CHR ''/'' (rev ?stack)"
        using False nr ne by (simp add: path_Clean_def Let_def TrimPrefix_def)
      with st show ?thesis by (metis rev_rev_ident)
    qed
  qed
qed

lemma SplitN_3:
  assumes "c \<notin> set a" "c \<notin> set b"
  shows "SplitN 3 c (a @ c # b @ c # s) = [a, b, s]"
  using assms by (simp add: numeral_3_eq_3 takeWhile_append dropWhile_append)

lemma SplitN_step: "SplitN (Suc (Suc n)) c s = y # z # zs \<Longrightarrow> \<exists>r. s = y @ c # r \<and> c \<notin> set y \<and> SplitN (Suc n) c r = z # zs"
proof -
  assume h: "SplitN (Suc (Suc n)) c s = y # z # zs"
  show ?thesis
  proof (cases "dropWhile (\<lambda>x. x \<noteq> c) s")
    case Nil
    with h show ?thesis by simp
  next
    case (Cons x r)
    then have "x = c" by (metis (full_types) hd_dropWhile list.distinct(1) list.sel(1))
    moreover have "y = takeWhile (\<lambda>x. x \<noteq> c) s" "SplitN (Suc n) c r = z # zs" using h Cons by auto
    moreover have "s = takeWhile (\<lambda>x. x \<noteq> c) s @ x # r" using Cons by (metis takeWhile_dropWhile_id)
    ultimately show ?thesis by (auto dest: set_takeWhileD)
  qed
qed

lemma belongs_second:
  assumes "objectKeyBelongsToUser key userID"
  shows "Split CHR ''/'' key ! 1 = FormatInt userID \<and> key \<noteq> ''..''"
proof -
  obtain a b s where "SplitN 3 CHR ''/'' key = [a, b, s]" and b: "b = FormatInt userID"
    using assms by (auto simp: objectKeyBelongsToUser_def split: list.splits)
  then obtain r where r: "key = a @ CHR ''/'' # r" "CHR ''/'' \<notin> set a" "SplitN 2 CHR ''/'' r = [b, s]"
    using SplitN_step [of 1 "CHR ''/''" key a b "[s]"] by (auto simp: numeral_3_eq_3 numeral_2_eq_2)
  moreover from r(3) obtain r' where "r = b @ CHR ''/'' # r'" "CHR ''/'' \<notin> set b"
    using SplitN_step [of 0 "CHR ''/''" r b s "[]"] by (auto simp: numeral_2_eq_2)
  ultimately have "Split CHR ''/'' key = a # b # Split CHR ''/'' r'" by (simp add: Split_append_sep)
  moreover have "CHR ''/'' \<in> set key" using r(1) by simp
  then have "key \<noteq> ''..''" by auto
  ultimately show ?thesis using b by simp
qed

definition key_parts :: "time \<Rightarrow> int \<Rightarrow> string \<Rightarrow> string list" where
  "key_parts now userID name =
     [format_date now, FormatInt userID, FormatInt (UnixMilli now) @ ''_'' @ safe_name name]"

lemma FormatInt_plain: "CHR ''/'' \<notin> set (FormatInt x) \<and> CHR ''.'' \<notin> set (FormatInt x)"
  using FormatInt_chars [of "CHR ''/''" x] FormatInt_chars [of "CHR ''.''" x] by (auto simp: is_digit_def)

lemma no_dot_plain: "p \<noteq> [] \<Longrightarrow> CHR ''/'' \<notin> set p \<Longrightarrow> CHR ''.'' \<notin> set p \<Longrightarrow> plain_part p"
  by (auto simp: plain_part_def)

lemma safe_name_no_slash: "CHR ''/'' \<notin> set (safe_name name)"
  using path_Base_no_slash [of "TrimSpace name"] by (auto simp: safe_name_def Let_def)

lemma key_parts_plain: "list_all plain_part (key_parts now userID name)"
proof -
  have "plain_part (format_date now)"
    by (rule no_dot_plain) (auto simp: format_date_def pad_int_def FormatInt_plain FormatInt_nonempty split: prod.splits)
  moreover have "plain_part (FormatInt userID)" by (rule no_dot_plain) (simp_all add: FormatInt_plain FormatInt_nonempty)
  moreover have "plain_part (FormatInt (UnixMilli now) @ ''_'' @ safe_name name)"
    using safe_name_no_slash FormatInt_plain
    by (auto simp: plain_part_def append_eq_Cons_conv Cons_eq_append_conv)
  ultimately show ?thesis by (simp add: key_parts_def)
qed

lemma plain_key_ok:
  assumes "list_all plain_part ps" "ps \<noteq> []" "tl ps \<noteq> []"
  shows "\<not> prefix ''/'' (join_with CHR ''/'' ps) \<and> join_with CHR ''/'' ps \<noteq> [] \<and> join_with CHR ''/'' ps \<noteq> ''.'' \<and>
    \<not> prefix ''../'' (join_with CHR ''/'' ps)"
proof -
  obtain p q qs where ps: "ps = p # q # qs" using assms(2,3) by (cases ps; cases "tl ps") auto
  have p: "p \<noteq> []" "p \<noteq> ''..''" "CHR ''/'' \<notin> set p" using assms(1) ps by (auto simp: plain_part_def)
  show ?thesis using p unfolding ps
    by (auto simp: prefix_def append_eq_Cons_conv Cons_eq_append_conv)
qed

text \<open>
  Object keys cannot leave the tree. A key that \<open>normalizeObjectKey\<close> accepts, other than the lone
  \<^verbatim>\<open>..\<close>, consists of non-empty parts none of which is \<^verbatim>\<open>.\<close> or \<^verbatim>\<open>..\<close>; a key that belongs to a user is always of
  that kind and its second part is the user's number.
\<close>

lemma object_keys_confined:
  assumes "normalizeObjectKey raw = Some key"
  shows "(key = ''..'' \<or> list_all plain_part (Split CHR ''/'' key)) \<and>
    (objectKeyBelongsToUser key userID \<longrightarrow>
       list_all plain_part (Split CHR ''/'' key) \<and> Split CHR ''/'' key ! 1 = FormatInt userID)"
proof -
  have key: "key = TrimPrefix (path_Clean (TrimSpace raw)) ''/''" "key \<noteq> []" "key \<noteq> ''.''" "\<not> prefix ''../'' key"
    using assms by (auto simp: normalizeObjectKey_def Let_def HasPrefix_def split: if_splits)
  obtain comps rooted where c: "clean_stack rooted (rev comps)" "key = join_with CHR ''/'' comps"
    using cleaned_parts [of "TrimSpace raw"] key by auto
  obtain n ps where "rev comps = ps @ replicate n ''..''" and pl: "list_all plain_part ps"
    using c(1) by (auto simp: clean_stack_def)
  then have comps: "comps = replicate n ''..'' @ rev ps" by (metis rev_append rev_replicate rev_rev_ident)
  have "n = 0 \<or> key = ''..''"
  proof (cases n)
    case (Suc m)
    show ?thesis
    proof (cases "replicate m ''..'' @ rev ps")
      case Nil
      with Suc comps c(2) show ?thesis by simp
    next
      case (Cons x xs)
      with Suc comps have "comps = ''..'' # x # xs" by simp
      then have "prefix ''../'' key" using c(2) by simp
      with key(4) show ?thesis by simp
    qed
  qed simp
  moreover have split0: "Split CHR ''/'' key = comps \<and> list_all plain_part comps" if "n = 0"
  proof -
    have "comps \<noteq> []" using c(2) key(2) by auto
    moreover have "list_all plain_part comps" using comps that pl by (simp add: list_all_iff)
    ultimately show ?thesis
      using Split_join [of comps "CHR ''/''"] c(2) by (auto simp: list_all_iff plain_part_def)
  qed
  moreover have "Split CHR ''/'' key ! 1 = FormatInt userID \<and> key \<noteq> ''..''" if "objectKeyBelongsToUser key userID"
    using belongs_second [OF that] .
  ultimately show ?thesis by auto
qed

text \<open>
  The key of a signed upload is the key that gets registered. For a signed upload whose key carries no
  white space at its ends, \<open>CompleteUpload\<close> of the same user with that key is accepted under exactly this key:
  the record is stored under it, owned by the user, unless the room or the database refuses.
\<close>

lemma upload_key_roundtrip:
  assumes "TrimSpace (upload_key now userID name) = upload_key now userID name"
  shows "normalizeObjectKey (upload_key now userID name) = Some (upload_key now userID name) \<and>
    objectKeyBelongsToUser (upload_key now userID name) userID"
proof -
  let ?k = "upload_key now userID name"
  have j: "?k = join_with CHR ''/'' (key_parts now userID name)" by (simp add: upload_key_def key_parts_def)
  have pl: "list_all plain_part (key_parts now userID name)" by (rule key_parts_plain)
  have "path_Clean ?k = ?k" unfolding j by (rule path_Clean_plain [OF pl]) (simp add: key_parts_def)
  moreover have "\<not> prefix ''/'' ?k \<and> ?k \<noteq> [] \<and> ?k \<noteq> ''.'' \<and> \<not> prefix ''../'' ?k"
    unfolding j by (rule plain_key_ok [OF pl]) (simp_all add: key_parts_def)
  moreover have "objectKeyBelongsToUser ?k userID"
    using pl by (simp add: objectKeyBelongsToUser_def j key_parts_def plain_part_def SplitN_3)
  ultimately show ?thesis using assms by (simp add: normalizeObjectKey_def Let_def TrimPrefix_def HasPrefix_def)
qed

section \<open>Who gets a link\<close>

record upload_call =
  uc_fault :: "nat \<Rightarrow> bool"
  uc_now :: time
  uc_backend :: string
  uc_user :: int
  uc_req :: CompleteUploadRequest
  uc_db :: DB

definition upload_step :: "upload_call \<Rightarrow> FileStore \<Rightarrow> FileStore" where
  "upload_step u fs = snd (CompleteUpload (uc_fault u) (uc_now u) (uc_backend u) (uc_user u) (uc_req u) (uc_db u) fs)"

definition registered_by :: "upload_call list \<Rightarrow> FileRecord \<Rightarrow> bool" where
  "registered_by calls r \<longleftrightarrow> objectKeyBelongsToUser (fr_ObjectKey r) (fr_UploaderID r) \<and>
     (\<exists>u \<in> set calls. uc_user u = fr_UploaderID r \<and> cu_RoomID (uc_req u) = fr_RoomID r \<and>
        (fr_RoomID r > 0 \<longrightarrow> member (uc_db u) (fr_RoomID r) (fr_UploaderID r)))"

definition files_ok :: "upload_call list \<Rightarrow> FileStore \<Rightarrow> bool" where
  "files_ok calls fs \<longleftrightarrow> distinct (map fr_ID (fs_rows fs)) \<and> distinct (map fr_ObjectKey (fs_rows fs)) \<and>
     (\<forall>r \<in> set (fs_rows fs). fr_ID r < fs_next fs \<and> registered_by calls r)"

lemma CheckIsMember_True: "CheckIsMember fault r u db = Inr True \<Longrightarrow> member db r u"
  by (auto simp: CheckIsMember_def member_def split: if_splits)

text \<open>What a successful call leaves: the row of the key belongs to the caller, every other row is as before.\<close>

lemma CompleteUpload_cases:
  assumes "CompleteUpload fault now backend userID req db fs = (res, fs')"
  obtains (unchanged) e where "res = Inl e" "fs' = fs"
  | (updated) old row where "res = Inr row" "old \<in> set (fs_rows fs)" "fr_ID row = fr_ID old"
      "fr_ObjectKey row = fr_ObjectKey old" "fr_UploaderID row = userID" "fr_UploaderID old = userID"
      "fr_RoomID row = cu_RoomID req" "objectKeyBelongsToUser (fr_ObjectKey row) userID"
      "cu_RoomID req > 0 \<longrightarrow> member db (cu_RoomID req) userID"
      "fs' = fs\<lparr>fs_rows := map (\<lambda>r. if fr_ID r = fr_ID row then row else r) (fs_rows fs)\<rparr>"
  | (created) row where "res = Inr row" "\<forall>r \<in> set (fs_rows fs). fr_ObjectKey r \<noteq> fr_ObjectKey row"
      "fr_ID row = fs_next fs" "fr_UploaderID row = userID" "fr_RoomID row = cu_RoomID req"
      "objectKeyBelongsToUser (fr_ObjectKey row) userID" "cu_RoomID req > 0 \<longrightarrow> member db (cu_RoomID req) userID"
      "fs' = fs\<lparr>fs_rows := fs_rows fs @ [row], fs_next := fs_next fs + 1\<rparr>"
proof (cases res)
  case (Inl e)
  have "fs' = fs"
    using assms Inl
    by (auto simp: CompleteUpload_def Let_def split: option.splits if_splits sum.splits bool.splits)
  with Inl unchanged show ?thesis by blast
next
  case (Inr row)
  obtain key where key: "normalizeObjectKey (cu_ObjectKey req) = Some key" "objectKeyBelongsToUser key userID"
    using assms Inr by (auto simp: CompleteUpload_def split: option.splits if_splits)
  let ?m = "if cu_RoomID req > 0 then CheckIsMember (fault 0) (cu_RoomID req) userID db else Inr True"
  have m: "?m = Inr True"
  proof (cases ?m)
    case (Inl e)
    then show ?thesis using assms Inr key by (simp add: CompleteUpload_def)
  next
    case b: (Inr b)
    then show ?thesis using assms Inr key by (cases b) (auto simp: CompleteUpload_def)
  qed
  then have mem: "cu_RoomID req > 0 \<longrightarrow> member db (cu_RoomID req) userID" by (auto dest: CheckIsMember_True)
  have f: "\<not> fault 1" using assms Inr key m by (auto simp: CompleteUpload_def)
  show ?thesis
  proof (cases "find (\<lambda>r. fr_ObjectKey r = key) (fs_rows fs)")
    case None
    show ?thesis
      by (rule created [of row])
        (use assms Inr key m mem f None in \<open>auto simp: CompleteUpload_def Let_def dest: find_NoneD split: if_splits\<close>)
  next
    case (Some old)
    then have old: "old \<in> set (fs_rows fs)" "fr_ObjectKey old = key" by (auto dest: find_SomeD)
    show ?thesis
      by (rule updated [of row old])
        (use assms Inr key m mem f Some old in \<open>auto simp: CompleteUpload_def Let_def split: if_splits\<close>)
  qed
qed

lemma registered_by_mono: "registered_by calls r \<Longrightarrow> registered_by (calls @ [u]) r"
  by (auto simp: registered_by_def)

lemma distinct_map_swap:
  assumes "distinct (map f xs)" "old \<in> set xs" "f row = f old" "g row = g old" "distinct (map g xs)"
  shows "map f (map (\<lambda>r. if g r = g row then row else r) xs) = map f xs"
proof -
  have "f (if g r = g row then row else r) = f r" if "r \<in> set xs" for r
  proof (cases "g r = g row")
    case True
    then have "g r = g old" using assms(4) by simp
    then have "r = old" using assms(2,5) that by (metis distinct_map inj_onD)
    with assms(3) show ?thesis by simp
  qed simp
  then show ?thesis by (simp add: o_def)
qed

lemma files_ok_step:
  assumes "files_ok calls fs"
  shows "files_ok (calls @ [u]) (upload_step u fs)"
proof -
  obtain res fs' where c: "CompleteUpload (uc_fault u) (uc_now u) (uc_backend u) (uc_user u) (uc_req u) (uc_db u) fs = (res, fs')"
    by (metis surj_pair)
  then have fs': "upload_step u fs = fs'" by (simp add: upload_step_def)
  from c show ?thesis
  proof (cases rule: CompleteUpload_cases)
    case (unchanged e)
    with assms fs' show ?thesis by (auto simp: files_ok_def registered_by_mono)
  next
    case (updated old row)
    have d: "distinct (map fr_ID (fs_rows fs))" "distinct (map fr_ObjectKey (fs_rows fs))"
      using assms by (simp_all add: files_ok_def)
    have reg: "registered_by (calls @ [u]) row" using updated by (auto simp: registered_by_def)
    have ids: "map fr_ID (fs_rows fs') = map fr_ID (fs_rows fs)" "map fr_ObjectKey (fs_rows fs') = map fr_ObjectKey (fs_rows fs)"
      using distinct_map_swap [OF d(1) updated(2,3,3) d(1)] distinct_map_swap [OF d(2) updated(2,4,3) d(1)] updated(10)
      by simp_all
    have "fr_ID r < fs_next fs' \<and> registered_by (calls @ [u]) r" if "r \<in> set (fs_rows fs')" for r
      using that assms updated(2,3,10) reg by (auto simp: files_ok_def registered_by_mono split: if_splits)
    with d ids fs' show ?thesis by (auto simp: files_ok_def simp del: set_map)
  next
    case (created row)
    have reg: "registered_by (calls @ [u]) row" using created by (auto simp: registered_by_def)
    show ?thesis
      using assms created(2,3,8) reg fs' by (fastforce simp: files_ok_def registered_by_mono)
  qed
qed

lemma files_ok_run: "files_ok calls (fold upload_step calls empty_files)"
  by (induction calls rule: rev_induct) (simp_all add: files_ok_step, simp add: files_ok_def empty_files_def)


section \<open>Witnesses\<close>

lemma object_keys_confined_example:
  "normalizeObjectKey ''/a/../b/7/x.txt'' = Some ''b/7/x.txt'' \<and> list_all plain_part (Split CHR ''/'' ''b/7/x.txt'')"
proof -
  have n: "normalizeObjectKey ''/a/../b/7/x.txt'' = Some ''b/7/x.txt''" by code_simp
  show ?thesis using object_keys_confined [OF n, of 7] n by auto
qed

definition sample_time :: time where
  "sample_time = 0"

lemma sample_key: "upload_key sample_time 7 ''dir/x.txt'' = ''1970-01-01/7/0_x.txt''"
  by code_simp

lemma upload_key_roundtrip_example:
  "normalizeObjectKey ''1970-01-01/7/0_x.txt'' = Some ''1970-01-01/7/0_x.txt''"
proof -
  have "TrimSpace ''1970-01-01/7/0_x.txt'' = ''1970-01-01/7/0_x.txt''" by code_simp
  then show ?thesis using upload_key_roundtrip [of sample_time 7 "''dir/x.txt''"] by (simp add: sample_key)
qed

definition no_members :: DB where
  "no_members = \<lparr>db_users = [], db_rooms = [], db_members = [], db_nextUser = 1, db_nextRoom = 1, db_nextMember = 1\<rparr>"

definition sample_upload :: upload_call where
  "sample_upload = \<lparr>uc_fault = (\<lambda>_. False), uc_now = 5, uc_backend = ''minio'', uc_user = 7,
     uc_req = \<lparr>cu_ObjectKey = ''d/7/x'', cu_OriginalName = ''x'', cu_SHA256 = [], cu_FileSize = 3, cu_RoomID = 0\<rparr>,
     uc_db = no_members\<rparr>"

lemma sample_key_ok: "normalizeObjectKey ''d/7/x'' = Some ''d/7/x''" "objectKeyBelongsToUser ''d/7/x'' 7"
  by code_simp+

lemma sample_upload_row:
  "\<exists>row. fs_rows (fold upload_step [sample_upload] empty_files) = [row] \<and> fr_ObjectKey row = ''d/7/x'' \<and>
     fr_UploaderID row = 7 \<and> fr_RoomID row = 0 \<and> fr_Status row = ''uploaded''"
  by (simp add: upload_step_def sample_upload_def CompleteUpload_def sample_key_ok empty_files_def Let_def)


end
