(* ===== verification/Cache.thy ===== *)
theory Cache
  imports Models GoStrings "HOL-Library.Product_Lexorder" "HOL-Library.List_Lexorder" "HOL-Library.Char_ord"
begin

text \<open>
  The Redis-backed caches of \<^verbatim>\<open>cache/redisconfig.go\<close>: who is online, with the two Lua scripts that act only for
  the connection that owns the entry, and the latest hundred messages of a room, a sorted set that the
  archiver (\<^verbatim>\<open>pushLatestToRedis\<close>) and the history handler (\<^verbatim>\<open>BackfillRoomCache\<close>) fill.

  A key space is a map from keys to a value and its expiry; a command is what Redis documents of it, at a
  clock reading \<open>now\<close>; \<open>fault\<close> says that the command does not reach the server. A sorted set is the list of
  its entries in order, by score and then by member. JSON texts of cached messages are a parameter.
\<close>

section \<open>Presence\<close>

type_synonym presence = "(string, string \<times> time) gomap"

definition redis_GET :: "time \<Rightarrow> string \<Rightarrow> presence \<Rightarrow> string option" where
  "redis_GET now k m = (case map_get m k of None \<Rightarrow> None | Some (v, e) \<Rightarrow> if now < e then Some v else None)"

definition redis_EXPIRE :: "time \<Rightarrow> string \<Rightarrow> int \<Rightarrow> presence \<Rightarrow> presence" where
  "redis_EXPIRE now k ttl m = (case redis_GET now k m of None \<Rightarrow> m | Some v \<Rightarrow> map_put k (v, now + ttl) m)"

definition onlineTTL :: int where
  "onlineTTL = 60000000000"

definition online_key :: "int \<Rightarrow> string" where
  "online_key userID = ''im:user:online:'' @ FormatInt userID"

definition onlineOwner :: "string \<Rightarrow> string \<Rightarrow> string" where
  "onlineOwner nodeID connectionID = nodeID @ '':'' @ connectionID"

definition SetUserOnline :: "bool \<Rightarrow> time \<Rightarrow> int \<Rightarrow> string \<Rightarrow> presence \<Rightarrow> presence" where
  "SetUserOnline fault now userID nodeID m =
     (if fault then m else map_put (online_key userID) (nodeID, now + onlineTTL) m)"

definition SetUserConnectionOnline :: "bool \<Rightarrow> time \<Rightarrow> int \<Rightarrow> string \<Rightarrow> string \<Rightarrow> presence \<Rightarrow> presence" where
  "SetUserConnectionOnline fault now userID nodeID connectionID m =
     (if fault then m else map_put (online_key userID) (onlineOwner nodeID connectionID, now + onlineTTL) m)"

definition SetUserOffline :: "bool \<Rightarrow> int \<Rightarrow> presence \<Rightarrow> presence" where
  "SetUserOffline fault userID m = (if fault then m else map_del (online_key userID) m)"

definition deleteOwnedOnlineScript :: "time \<Rightarrow> string \<Rightarrow> string \<Rightarrow> presence \<Rightarrow> presence" where
  "deleteOwnedOnlineScript now k owner m = (if redis_GET now k m = Some owner then map_del k m else m)"

definition renewOwnedOnlineScript :: "time \<Rightarrow> string \<Rightarrow> string \<Rightarrow> int \<Rightarrow> presence \<Rightarrow> presence" where
  "renewOwnedOnlineScript now k owner ttl m =
     (if redis_GET now k m = Some owner then redis_EXPIRE now k ttl m else m)"

definition SetUserConnectionOffline :: "bool \<Rightarrow> time \<Rightarrow> int \<Rightarrow> string \<Rightarrow> string \<Rightarrow> presence \<Rightarrow> presence" where
  "SetUserConnectionOffline fault now userID nodeID connectionID m =
     (if fault then m
      else deleteOwnedOnlineScript now (online_key userID) (onlineOwner nodeID connectionID) m)"

definition RenewUserOnline :: "bool \<Rightarrow> time \<Rightarrow> int \<Rightarrow> presence \<Rightarrow> presence" where
  "RenewUserOnline fault now userID m =
     (if fault then m else redis_EXPIRE now (online_key userID) onlineTTL m)"

definition RenewUserConnectionOnline :: "bool \<Rightarrow> time \<Rightarrow> int \<Rightarrow> string \<Rightarrow> string \<Rightarrow> presence \<Rightarrow> presence" where
  "RenewUserConnectionOnline fault now userID nodeID connectionID m =
     (if fault then m
      else renewOwnedOnlineScript now (online_key userID) (onlineOwner nodeID connectionID) onlineTTL m)"

definition CheckUserOnline :: "bool \<Rightarrow> time \<Rightarrow> int \<Rightarrow> presence \<Rightarrow> bool \<times> string" where
  "CheckUserOnline fault now userID m =
     (if fault then (False, [])
      else case redis_GET now (online_key userID) m of
        None \<Rightarrow> (False, [])
      | Some nodeID \<Rightarrow> (True, nodeID))"

text \<open>A failing pipeline leaves the empty map and an error (\<open>False\<close>).\<close>

definition CheckUsersOnline :: "bool \<Rightarrow> time \<Rightarrow> int list \<Rightarrow> presence \<Rightarrow> (int, bool) gomap \<times> bool" where
  "CheckUsersOnline fault now userIDs m =
     (if userIDs = [] then ([], True)
      else if fault then ([], False)
      else (fold (\<lambda>u. map_put u (redis_GET now (online_key u) m \<noteq> None)) userIDs [], True))"

section \<open>The latest messages of a room\<close>

record CachedMsg =
  cg_RoomSeq :: int
  cg_ClientMsgID :: string
  cg_ID :: int
  cg_RoomID :: int
  cg_SenderID :: int
  cg_Type :: int
  cg_Content :: string
  cg_CreatedAt :: time

type_synonym zset = "(int \<times> string) list"

type_synonym room_cache = "(int, zset \<times> time option) gomap"

definition roomLatestMax :: nat where
  "roomLatestMax = 100"

definition roomLatestTTL :: int where
  "roomLatestTTL = 1800000000000"

text \<open>The live sorted set under a key; an expired key holds nothing.\<close>

definition zset_at :: "time \<Rightarrow> int \<Rightarrow> room_cache \<Rightarrow> zset" where
  "zset_at now room c =
     (case map_get c room of
        None \<Rightarrow> []
      | Some (z, None) \<Rightarrow> z
      | Some (z, Some e) \<Rightarrow> if now < e then z else [])"

definition expiry_at :: "time \<Rightarrow> int \<Rightarrow> room_cache \<Rightarrow> time option" where
  "expiry_at now room c =
     (case map_get c room of Some (z, Some e) \<Rightarrow> if now < e then Some e else None | _ \<Rightarrow> None)"

text \<open>\<^verbatim>\<open>ZADD\<close> replaces the score of a member it already holds.\<close>

definition zadd :: "int \<Rightarrow> string \<Rightarrow> zset \<Rightarrow> zset" where
  "zadd score mem z = insort (score, mem) (filter (\<lambda>e. snd e \<noteq> mem) z)"

text \<open>\<^verbatim>\<open>ZREMRANGEBYRANK key 0 -(n+1)\<close> keeps the \<open>n\<close> entries of highest rank.\<close>

definition zkeep :: "nat \<Rightarrow> 'a list \<Rightarrow> 'a list" where
  "zkeep n z = drop (length z - n) z"

text \<open>\<^verbatim>\<open>ZREVRANGE key 0 stop\<close>: a negative \<open>stop\<close> counts from the end.\<close>

definition zrevrange :: "int \<Rightarrow> zset \<Rightarrow> zset" where
  "zrevrange stop z =
     (let s = (if stop < 0 then int (length z) + stop else stop) in take (nat (s + 1)) (rev z))"

definition cached_of :: "Message \<Rightarrow> CachedMsg" where
  "cached_of m =
     \<lparr>cg_RoomSeq = msg_RoomSeq m, cg_ClientMsgID = msg_ClientMsgID m, cg_ID = msg_ID m, cg_RoomID = msg_RoomID m,
      cg_SenderID = msg_SenderID m, cg_Type = msg_Type m, cg_Content = msg_Content m, cg_CreatedAt = msg_CreatedAt m\<rparr>"

datatype zcmd = ZAdd int int string | ZTrim int | ZExpire int

definition zexec :: "bool \<Rightarrow> time \<Rightarrow> zcmd \<Rightarrow> room_cache \<Rightarrow> room_cache" where
  "zexec trims now cmd c =
     (case cmd of
        ZAdd room score mem \<Rightarrow> map_put room (zadd score mem (zset_at now room c), expiry_at now room c) c
      | ZTrim room \<Rightarrow>
          (if zset_at now room c = [] then c
           else map_put room (if trims then zkeep roomLatestMax (zset_at now room c) else zset_at now room c,
                              expiry_at now room c) c)
      | ZExpire room \<Rightarrow>
          (if zset_at now room c = [] then c
           else map_put room (zset_at now room c, Some (now + roomLatestTTL)) c))"

text \<open>
  The commands of a pipeline for some messages; \<open>skip\<close> says which messages are left out. \<open>enc\<close> is the JSON text
  of a message, \<open>None\<close> when it cannot be built.
\<close>

definition latest_cmds :: "(CachedMsg \<Rightarrow> string option) \<Rightarrow> (Message \<Rightarrow> bool) \<Rightarrow> Message list \<Rightarrow> zcmd list" where
  "latest_cmds enc skip msgs =
     (let kept = filter (\<lambda>m. \<not> skip m \<and> enc (cached_of m) \<noteq> None) msgs
      in concat (map (\<lambda>m. case enc (cached_of m) of
                            None \<Rightarrow> []
                          | Some p \<Rightarrow> [ZAdd (msg_RoomID m) (msg_RoomSeq m) p, ZTrim (msg_RoomID m)]) kept)
         @ map ZExpire (remdups (map msg_RoomID kept)))"

definition unnumbered :: "Message \<Rightarrow> bool" where
  "unnumbered m \<longleftrightarrow> msg_RoomSeq m \<le> 0 \<or> msg_RoomSeq m > 2 ^ 53"

text \<open>\<open>sent\<close> is the number of commands of the pipeline that reach the server.\<close>

definition BackfillRoomCache ::
    "(CachedMsg \<Rightarrow> string option) \<Rightarrow> nat \<Rightarrow> time \<Rightarrow> Message list \<Rightarrow> room_cache \<Rightarrow> room_cache" where
  "BackfillRoomCache enc sent now msgs c =
     (if msgs = [] then c else fold (zexec True now) (take sent (latest_cmds enc unnumbered msgs)) c)"

definition pushLatestToRedis ::
    "(CachedMsg \<Rightarrow> string option) \<Rightarrow> nat \<Rightarrow> time \<Rightarrow> Message list \<Rightarrow> room_cache \<Rightarrow> room_cache" where
  "pushLatestToRedis enc sent now msgs c =
     (if msgs = [] then c
      else fold (zexec True now) (take sent (latest_cmds enc (\<lambda>m. msg_DeletedAt m \<noteq> 0 \<or> unnumbered m) msgs)) c)"

text \<open>\<open>Inl ()\<close> for an error of the connection; an entry that does not decode is left out.\<close>

definition GetLatestMessages ::
    "(string \<Rightarrow> CachedMsg option) \<Rightarrow> bool \<Rightarrow> time \<Rightarrow> int \<Rightarrow> int \<Rightarrow> room_cache \<Rightarrow> unit + CachedMsg list" where
  "GetLatestMessages dec fault now roomID limit c =
     (if fault then Inl ()
      else Inr (rev (List.map_filter (\<lambda>e. dec (snd e)) (zrevrange (limit - 1) (zset_at now roomID c)))))"

section \<open>A trimmed sorted set\<close>

lemma zkeep_full: "length z \<le> n \<Longrightarrow> zkeep n z = z"
  by (simp add: zkeep_def)

lemma zkeep_append: "length b = n \<Longrightarrow> zkeep n (a @ b) = b"
  by (simp add: zkeep_def)

lemma zkeep_append_long: "n \<le> length b \<Longrightarrow> zkeep n (a @ b) = zkeep n b"
  by (simp add: zkeep_def)

lemma zkeep_split: "n \<le> length z \<Longrightarrow> \<exists>a. z = a @ zkeep n z \<and> length (zkeep n z) = n"
  unfolding zkeep_def by (metis append_take_drop_id diff_diff_cancel length_drop)

lemma zkeep_zkeep: "m \<le> n \<Longrightarrow> zkeep m (zkeep n z) = zkeep m z"
proof -
  assume "m \<le> n"
  then have "length z - (length z - n + m) + (length z - n) = length z - m" by arith
  then show ?thesis by (simp add: zkeep_def)
qed

lemma rev_take_rev: "rev (take n (rev z)) = zkeep n z"
  by (simp add: zkeep_def take_rev)

text \<open>Insertion into a strictly sorted list that may hold the element already.\<close>

definition put_sorted :: "'a::linorder \<Rightarrow> 'a list \<Rightarrow> 'a list" where
  "put_sorted x z = (if x \<in> set z then z else insort x z)"

lemma put_sorted_strict:
  "sorted_wrt (<) z \<Longrightarrow> sorted_wrt (<) (put_sorted x z) \<and> set (put_sorted x z) = insert x (set z)"
  by (auto simp: put_sorted_def set_insort_key strict_sorted_iff sorted_insort distinct_insort)

lemma insort_above: "\<forall>y \<in> set a. y < x \<Longrightarrow> insort x (a @ b) = a @ insort x b"
  by (induction a) auto

lemma insort_below:
  assumes "\<forall>y \<in> set b. x < y" "sorted a"
  shows "insort x (a @ b) = insort x a @ b"
  using assms(2)
proof (induction a)
  case Nil
  show ?case using assms(1) by (cases b) auto
qed auto

lemma put_sorted_keep:
  assumes "sorted_wrt (<) z"
  shows "zkeep n (put_sorted x (zkeep n z)) = zkeep n (put_sorted x z)"
proof (cases "n \<le> length z \<and> n > 0")
  case False
  then show ?thesis by (cases "n = 0") (simp_all add: zkeep_full, simp add: zkeep_def)
next
  case True
  then obtain a b where ab: "z = a @ b" "b = zkeep n z" "length b = n" using zkeep_split by blast
  obtain b0 bs where b: "b = b0 # bs" using ab(3) True by (cases b) auto
  have sep: "\<forall>y \<in> set a. y < b0" "\<forall>y \<in> set bs. b0 < y" "sorted a"
    using assms unfolding ab(1) b by (auto simp: sorted_wrt_append strict_sorted_iff)
  consider "x \<in> set b" | "x \<in> set a" | "x \<notin> set z" "x < b0" | "x \<notin> set z" "b0 < x"
    using ab(1) b by (metis Un_iff linorder_neqE list.set_intros(1) set_append)
  then have "zkeep n (put_sorted x b) = zkeep n (put_sorted x (a @ b))"
  proof cases
    case 1
    then show ?thesis using ab(3) by (simp add: put_sorted_def zkeep_append zkeep_full)
  next
    case 2
    then have "x < b0" "x \<notin> set b" using sep b by fastforce+
    then have "insort x b = x # b" using b by (simp add: order.strict_implies_order)
    then have "zkeep n (insort x b) = b" using zkeep_append [OF ab(3), of "[x]"] by simp
    then show ?thesis using 2 \<open>x \<notin> set b\<close> ab(3) by (simp add: put_sorted_def zkeep_append)
  next
    case 3
    then have below: "\<forall>y \<in> set b. x < y" using sep(2) b by fastforce
    have "insort x b = x # b" using 3(2) b by (simp add: order.strict_implies_order)
    then have "zkeep n (insort x b) = b" using zkeep_append [OF ab(3), of "[x]"] by simp
    moreover have "zkeep n (insort x (a @ b)) = b"
      using zkeep_append [OF ab(3)] insort_below [OF below sep(3)] by simp
    ultimately show ?thesis using 3(1) unfolding ab(1) by (simp add: put_sorted_def)
  next
    case 4
    then have "\<forall>y \<in> set a. y < x" using sep(1) by fastforce
    then have "insort x (a @ b) = a @ insort x b" by (rule insort_above)
    moreover have "n \<le> length (insort x b)" using ab(3) by simp
    ultimately show ?thesis using 4(1) unfolding ab(1) by (simp add: put_sorted_def zkeep_append_long)
  qed
  then show ?thesis using ab(1,2) by metis
qed

section \<open>Trimming cannot be observed\<close>

text \<open>
  The reference is the same cache without trimming (\<open>zexec False\<close>). Members carry their score: \<open>f\<close> reads it off
  the text.
\<close>

definition zset_ok :: "(string \<Rightarrow> int) \<Rightarrow> zset \<Rightarrow> bool" where
  "zset_ok f z \<longleftrightarrow> sorted_wrt (<) z \<and> (\<forall>e \<in> set z. fst e = f (snd e))"

fun cmd_ok :: "(string \<Rightarrow> int) \<Rightarrow> zcmd \<Rightarrow> bool" where
  "cmd_ok f (ZAdd room score mem) \<longleftrightarrow> score = f mem"
| "cmd_ok f _ \<longleftrightarrow> True"

lemma filter_one_member:
  assumes "zset_ok f z"
  shows "insort (f mem, mem) (filter (\<lambda>e. snd e \<noteq> mem) z) = put_sorted (f mem, mem) z"
proof (cases "(f mem, mem) \<in> set z")
  case False
  then have "\<forall>e \<in> set z. snd e \<noteq> mem" using assms unfolding zset_ok_def by (metis prod.collapse)
  then have "filter (\<lambda>e. snd e \<noteq> mem) z = z" by (simp add: filter_id_conv)
  with False show ?thesis by (simp add: put_sorted_def)
next
  case True
  have eq: "snd e \<noteq> mem \<longleftrightarrow> e \<noteq> (f mem, mem)" if "e \<in> set z" for e
    using assms that unfolding zset_ok_def by (metis prod.collapse snd_conv)
  have "filter (\<lambda>e. snd e \<noteq> mem) z = remove1 (f mem, mem) z"
  proof -
    have "filter (\<lambda>e. snd e \<noteq> mem) z = filter (\<lambda>e. e \<noteq> (f mem, mem)) z" using eq by (intro filter_cong) auto
    also have "\<dots> = remove1 (f mem, mem) z"
      using assms by (simp add: zset_ok_def strict_sorted_iff distinct_remove1_removeAll removeAll_filter_not_eq
          eq_commute [of "(f mem, mem)"])
    finally show ?thesis .
  qed
  moreover have "insort (f mem, mem) (remove1 (f mem, mem) z) = z"
    using assms True by (simp add: zset_ok_def insort_remove1 strict_sorted_iff)
  ultimately show ?thesis using True by (simp add: put_sorted_def)
qed

lemma zadd_put: "zset_ok f z \<Longrightarrow> zadd (f mem) mem z = put_sorted (f mem, mem) z"
  by (simp add: zadd_def filter_one_member)

lemma zset_ok_zadd: "zset_ok f z \<Longrightarrow> zset_ok f (zadd (f mem) mem z)"
  using put_sorted_strict [of z "(f mem, mem)"] by (auto simp: zadd_put) (auto simp: zset_ok_def)

lemma zset_ok_zkeep: "zset_ok f z \<Longrightarrow> zset_ok f (zkeep n z)"
  by (auto simp: zset_ok_def zkeep_def sorted_wrt_drop dest: in_set_dropD)

definition same_latest :: "(string \<Rightarrow> int) \<Rightarrow> room_cache \<Rightarrow> room_cache \<Rightarrow> bool" where
  "same_latest f c d \<longleftrightarrow> (\<forall>room now. zset_ok f (zset_at now room c) \<and> zset_ok f (zset_at now room d) \<and>
     zkeep roomLatestMax (zset_at now room c) = zkeep roomLatestMax (zset_at now room d) \<and>
     expiry_at now room c = expiry_at now room d)"

lemma at_put:
  "zset_at now r (map_put room (z, e) c) =
     (if r = room then (case e of None \<Rightarrow> z | Some t \<Rightarrow> if now < t then z else []) else zset_at now r c)"
  "expiry_at now r (map_put room (z, e) c) =
     (if r = room then (case e of None \<Rightarrow> None | Some t \<Rightarrow> if now < t then Some t else None) else expiry_at now r c)"
  by (auto simp: zset_at_def expiry_at_def split: option.splits)

lemma zset_ok_Nil: "zset_ok f []" "zkeep n [] = []"
  by (simp_all add: zset_ok_def zkeep_def)

lemma zkeep_Nil_iff: "n > 0 \<Longrightarrow> zkeep n z = [] \<longleftrightarrow> z = []"
  by (cases z) (auto simp: zkeep_def)

lemma zexec_same:
  assumes "same_latest f c d" "cmd_ok f cmd"
  shows "same_latest f (zexec True now cmd c) (zexec False now cmd d)"
proof -
  let ?n = roomLatestMax
  have n: "?n > 0" by (simp add: roomLatestMax_def)
  have s: "zset_ok f (zset_at t r c)" "zset_ok f (zset_at t r d)" "zkeep ?n (zset_at t r c) = zkeep ?n (zset_at t r d)"
    "expiry_at t r c = expiry_at t r d" for r t using assms(1) by (auto simp: same_latest_def)
  have nil: "zset_at t r c = [] \<longleftrightarrow> zset_at t r d = []" for t r
    using s(3) zkeep_Nil_iff [OF n] by metis
  show ?thesis
  proof (cases cmd)
    case (ZAdd room score mem)
    let ?a = "zadd score mem (zset_at now room c)" and ?b = "zadd score mem (zset_at now room d)"
    have sc: "score = f mem" using assms(2) ZAdd by simp
    have "zkeep ?n ?a = zkeep ?n ?b"
      using put_sorted_keep [of "zset_at now room c" ?n "(f mem, mem)"] put_sorted_keep [of "zset_at now room d" ?n "(f mem, mem)"]
        s(1,2,3) [of now room] by (simp add: sc zadd_put zset_ok_def)
    moreover have "zset_ok f ?a" "zset_ok f ?b" using s(1,2) by (simp_all add: sc zset_ok_zadd)
    ultimately show ?thesis using s unfolding ZAdd zexec_def same_latest_def
      by (auto simp: at_put zset_ok_Nil split: option.splits)
  next
    case (ZTrim room)
    have "zset_ok f (zkeep ?n (zset_at now room c))" using s(1) by (simp add: zset_ok_zkeep)
    then show ?thesis using s nil unfolding ZTrim zexec_def same_latest_def
      by (auto simp: at_put zset_ok_Nil zkeep_zkeep split: option.splits)
  next
    case (ZExpire room)
    then show ?thesis using s nil unfolding ZExpire zexec_def same_latest_def
      by (auto simp: at_put zset_ok_Nil split: option.splits)
  qed
qed

text \<open>A fill of the cache: by the archiver (\<open>fi_push\<close>) or by the history handler, cut off after some commands.\<close>

record fill =
  fi_push :: bool
  fi_sent :: nat
  fi_now :: time
  fi_msgs :: "Message list"

definition run_fill :: "(CachedMsg \<Rightarrow> string option) \<Rightarrow> fill \<Rightarrow> room_cache \<Rightarrow> room_cache" where
  "run_fill enc x c =
     (if fi_push x then pushLatestToRedis enc (fi_sent x) (fi_now x) (fi_msgs x) c
      else BackfillRoomCache enc (fi_sent x) (fi_now x) (fi_msgs x) c)"

definition fill_cmds :: "(CachedMsg \<Rightarrow> string option) \<Rightarrow> fill \<Rightarrow> zcmd list" where
  "fill_cmds enc x =
     take (fi_sent x)
       (latest_cmds enc (if fi_push x then \<lambda>m. msg_DeletedAt m \<noteq> 0 \<or> unnumbered m else unnumbered) (fi_msgs x))"

definition run_fill_ref :: "(CachedMsg \<Rightarrow> string option) \<Rightarrow> fill \<Rightarrow> room_cache \<Rightarrow> room_cache" where
  "run_fill_ref enc x c = fold (zexec False (fi_now x)) (fill_cmds enc x) c"

definition score_of :: "(string \<Rightarrow> CachedMsg option) \<Rightarrow> string \<Rightarrow> int" where
  "score_of dec p = (case dec p of None \<Rightarrow> 0 | Some m \<Rightarrow> cg_RoomSeq m)"

lemma run_fill_cmds: "run_fill enc x c = fold (zexec True (fi_now x)) (fill_cmds enc x) c"
  by (simp add: run_fill_def fill_cmds_def pushLatestToRedis_def BackfillRoomCache_def latest_cmds_def)

lemma latest_cmds_ok:
  assumes "\<And>m p. enc m = Some p \<Longrightarrow> dec p = Some m" "cmd \<in> set (latest_cmds enc skip msgs)"
  shows "cmd_ok (score_of dec) cmd"
  using assms by (auto simp: latest_cmds_def Let_def score_of_def cached_of_def split: option.splits)

lemma zexecs_same:
  "same_latest f c d \<Longrightarrow> \<forall>cmd \<in> set cmds. cmd_ok f cmd \<Longrightarrow>
     same_latest f (fold (zexec True now) cmds c) (fold (zexec False now) cmds d)"
  by (induction cmds arbitrary: c d) (auto simp: zexec_same)

lemma run_fills_same:
  assumes "\<And>m p. enc m = Some p \<Longrightarrow> dec p = Some m"
  shows "same_latest (score_of dec) (fold (run_fill enc) xs []) (fold (run_fill_ref enc) xs [])"
proof (induction xs rule: rev_induct)
  case Nil
  show ?case by (simp add: same_latest_def zset_at_def expiry_at_def zset_ok_Nil)
next
  case (snoc x xs)
  have "\<forall>cmd \<in> set (fill_cmds enc x). cmd_ok (score_of dec) cmd"
    using latest_cmds_ok [of enc dec, OF assms] by (auto simp: fill_cmds_def dest!: in_set_takeD)
  with zexecs_same [OF snoc this] show ?case by (simp add: run_fill_cmds run_fill_ref_def)
qed

lemma sorted_decoded:
  "zset_ok (score_of dec) z \<Longrightarrow> sorted (map cg_RoomSeq (List.map_filter (\<lambda>e. dec (snd e)) z))"
proof (induction z)
  case (Cons e z)
  have z: "zset_ok (score_of dec) z" and e: "fst e = score_of dec (snd e)" and le: "\<forall>x \<in> set z. e < x"
    using Cons.prems by (auto simp: zset_ok_def)
  have "\<forall>m \<in> set (List.map_filter (\<lambda>e. dec (snd e)) z). cg_RoomSeq m0 \<le> cg_RoomSeq m" if "dec (snd e) = Some m0" for m0
  proof
    fix m assume "m \<in> set (List.map_filter (\<lambda>e. dec (snd e)) z)"
    then obtain x where x: "x \<in> set z" "dec (snd x) = Some m" by (auto simp: map_filter_def)
    have "fst e \<le> fst x" using le x(1) by (metis less_prod_def order.strict_implies_order order_refl)
    moreover have "fst x = cg_RoomSeq m" using z x by (simp add: zset_ok_def score_of_def)
    ultimately show "cg_RoomSeq m0 \<le> cg_RoomSeq m" using e that by (simp add: score_of_def)
  qed
  with Cons.IH [OF z] show ?case by (auto simp: map_filter_simps split: option.splits)
qed (simp add: map_filter_simps)

lemma map_filter_rev: "List.map_filter g (rev xs) = rev (List.map_filter g xs)"
  by (simp add: map_filter_def rev_map rev_filter)

lemma GetLatest_zkeep:
  assumes "0 < limit"
  shows "GetLatestMessages dec False now room limit c =
    Inr (List.map_filter (\<lambda>e. dec (snd e)) (zkeep (nat limit) (zset_at now room c)))"
  using assms rev_take_rev [of "nat limit" "zset_at now room c"]
  by (simp add: GetLatestMessages_def zrevrange_def Let_def map_filter_rev [symmetric])

text \<open>
  C28: the room cache is exact. After any fills by the archiver and the history handler, each cut off at any
  command and with keys expiring in between, reading up to a hundred messages gives what the same cache without
  trimming would give, in the order of the room sequence and at most as many as asked for.
\<close>

theorem latest_cache_exact:
  assumes "\<And>m p. enc m = Some p \<Longrightarrow> dec p = Some m" and "0 < limit" "limit \<le> 100"
  shows "GetLatestMessages dec False now room limit (fold (run_fill enc) xs []) =
      GetLatestMessages dec False now room limit (fold (run_fill_ref enc) xs []) \<and>
    (\<exists>ms. GetLatestMessages dec False now room limit (fold (run_fill enc) xs []) = Inr ms \<and>
       sorted (map cg_RoomSeq ms) \<and> int (length ms) \<le> limit)"
proof -
  let ?c = "fold (run_fill enc) xs []" and ?d = "fold (run_fill_ref enc) xs []"
  have same: "same_latest (score_of dec) ?c ?d" by (rule run_fills_same [OF assms(1)])
  then have k: "zkeep roomLatestMax (zset_at now room ?c) = zkeep roomLatestMax (zset_at now room ?d)"
    and ok: "zset_ok (score_of dec) (zset_at now room ?c)" by (simp_all add: same_latest_def)
  have "nat limit \<le> roomLatestMax" using assms(3) by (simp add: roomLatestMax_def)
  then have "zkeep (nat limit) (zset_at now room ?c) = zkeep (nat limit) (zset_at now room ?d)"
    using arg_cong [OF k, of "zkeep (nat limit)"] by (simp add: zkeep_zkeep)
  moreover have "sorted (map cg_RoomSeq (List.map_filter (\<lambda>e. dec (snd e)) (zkeep (nat limit) (zset_at now room ?c))))"
    by (rule sorted_decoded [OF zset_ok_zkeep [OF ok]])
  moreover have "length (List.map_filter (\<lambda>e. dec (snd e)) (zkeep (nat limit) (zset_at now room ?c))) \<le> nat limit"
  proof -
    have "length (List.map_filter g z) \<le> length z" for g :: "int \<times> string \<Rightarrow> CachedMsg option" and z
      by (simp add: map_filter_def)
    moreover have "length (zkeep n z) \<le> n" for n and z :: zset by (simp add: zkeep_def)
    ultimately show ?thesis by (meson order_trans)
  qed
  ultimately show ?thesis using assms(2) by (simp add: GetLatest_zkeep le_nat_iff)
qed

definition sample_stored :: "int \<Rightarrow> Message" where
  "sample_stored n = \<lparr>msg_ID = n, msg_RoomSeq = n, msg_RoomID = 9, msg_SenderID = 7, msg_ClientMsgID = ''x'', msg_Type = 1,
     msg_Content = ''hi'', msg_CreatedAt = 0, msg_DeletedAt = 0\<rparr>"

text \<open>A JSON text for the witness: the number of the message.\<close>

definition sample_enc :: "CachedMsg \<Rightarrow> string option" where
  "sample_enc m = (if m = cached_of (sample_stored (cg_RoomSeq m)) \<and> cg_RoomSeq m \<in> {1, 2}
     then Some (if cg_RoomSeq m = 1 then ''1'' else ''2'') else None)"

definition sample_dec :: "string \<Rightarrow> CachedMsg option" where
  "sample_dec p = (if p = ''1'' then Some (cached_of (sample_stored 1)) else if p = ''2'' then Some (cached_of (sample_stored 2)) else None)"

theorem latest_cache_exact_witness:
  "GetLatestMessages sample_dec False 6 9 50 (fold (run_fill sample_enc) [\<lparr>fi_push = True, fi_sent = 9, fi_now = 5,
     fi_msgs = [sample_stored 2, sample_stored 1]\<rparr>] []) = Inr (map (\<lambda>n. cached_of (sample_stored n)) [1, 2])"
proof -
  have law: "sample_dec p = Some m" if "sample_enc m = Some p" for m p
    using that by (auto simp: sample_enc_def sample_dec_def split: if_splits)
  have "GetLatestMessages sample_dec False 6 9 50 (fold (run_fill_ref sample_enc) [\<lparr>fi_push = True, fi_sent = 9, fi_now = 5,
     fi_msgs = [sample_stored 2, sample_stored 1]\<rparr>] []) = Inr (map (\<lambda>n. cached_of (sample_stored n)) [1, 2])"
    by code_simp
  then show ?thesis using latest_cache_exact [of sample_enc sample_dec 50 6 9
      "[\<lparr>fi_push = True, fi_sent = 9, fi_now = 5, fi_msgs = [sample_stored 2, sample_stored 1]\<rparr>]", OF law] by simp
qed

section \<open>Presence belongs to a connection\<close>

text \<open>The connection identifier of the WebSocket handler, \<^verbatim>\<open>fmt.Sprintf("%d-%d", userID, nanos)\<close>.\<close>

definition conn_id :: "int \<Rightarrow> int \<Rightarrow> string" where
  "conn_id userID nanos = FormatInt userID @ ''-'' @ FormatInt nanos"

lemma conn_id_no_colon: "CHR '':'' \<notin> set (conn_id u n)"
proof -
  have "CHR '':'' \<notin> set (FormatInt x)" for x using FormatInt_chars [of "CHR '':''" x] by (auto simp: is_digit_def)
  then show ?thesis by (simp add: conn_id_def)
qed

lemma append_sep_inj:
  assumes "c \<notin> set b" "c \<notin> set b'" "a @ c # b = a' @ c # b'"
  shows "a = a' \<and> b = b'"
proof -
  have "takeWhile (\<lambda>x. x \<noteq> c) (rev (a @ c # b)) = rev b" if "c \<notin> set b" for a b
    using that by (simp add: takeWhile_append)
  with assms have "rev b = rev b'" by metis
  with assms(3) show ?thesis by simp
qed

lemma owner_inj:
  assumes "int64_range n" "int64_range n'"
  shows "onlineOwner node (conn_id u n) = onlineOwner node' (conn_id u n') \<longleftrightarrow> node = node' \<and> n = n'"
proof -
  have "conn_id u n = conn_id u n' \<longleftrightarrow> n = n'" using FormatInt_inject [OF assms] by (simp add: conn_id_def)
  then show ?thesis
    using append_sep_inj [OF conn_id_no_colon conn_id_no_colon, of node u n node' u n'] by (auto simp: onlineOwner_def)
qed

record stale_op =
  so_renew :: bool
  so_fault :: bool
  so_now :: time
  so_node :: string
  so_nanos :: int

definition run_stale :: "int \<Rightarrow> stale_op \<Rightarrow> presence \<Rightarrow> presence" where
  "run_stale u s m =
     (if so_renew s then RenewUserConnectionOnline (so_fault s) (so_now s) u (so_node s) (conn_id u (so_nanos s)) m
      else SetUserConnectionOffline (so_fault s) (so_now s) u (so_node s) (conn_id u (so_nanos s)) m)"

lemma stale_keeps:
  assumes "map_get m (online_key u) = Some (owner, e)" "owner \<noteq> onlineOwner (so_node s) (conn_id u (so_nanos s))"
  shows "map_get (run_stale u s m) (online_key u) = Some (owner, e)"
  using assms
  by (auto simp: run_stale_def RenewUserConnectionOnline_def SetUserConnectionOffline_def renewOwnedOnlineScript_def
      deleteOwnedOnlineScript_def redis_GET_def)

lemma stales_keep:
  assumes "\<forall>s \<in> set ops. owner \<noteq> onlineOwner (so_node s) (conn_id u (so_nanos s))"
    and "map_get m (online_key u) = Some (owner, e)"
  shows "map_get (fold (run_stale u) ops m) (online_key u) = Some (owner, e)"
  using assms by (induction ops arbitrary: m) (auto simp: stale_keeps)

text \<open>
  An old connection cannot take the presence of a new one. Once a connection of a user is recorded as
  online, heart-beats and disconnects of the user's other connections, on any node and at any time, neither
  remove nor prolong its entry: it is reported as the owner until its own sixty seconds are over, and not after.
\<close>

lemma presence_owned:
  assumes "int64_range nanos" "\<forall>s \<in> set ops. int64_range (so_nanos s) \<and> (so_node s, so_nanos s) \<noteq> (node, nanos)"
  shows "CheckUserOnline False now u (fold (run_stale u) ops (SetUserConnectionOnline False t0 u node (conn_id u nanos) m)) =
    (if now < t0 + onlineTTL then (True, onlineOwner node (conn_id u nanos)) else (False, []))"
proof -
  have "\<forall>s \<in> set ops. onlineOwner node (conn_id u nanos) \<noteq> onlineOwner (so_node s) (conn_id u (so_nanos s))"
    using assms owner_inj by auto
  from stales_keep [OF this, of "SetUserConnectionOnline False t0 u node (conn_id u nanos) m" "t0 + onlineTTL"]
  show ?thesis by (simp add: SetUserConnectionOnline_def CheckUserOnline_def redis_GET_def)
qed

lemma presence_owned_example:
  "CheckUserOnline False 30 7 (fold (run_stale 7) [\<lparr>so_renew = False, so_fault = False, so_now = 20, so_node = ''n1'', so_nanos = 3\<rparr>]
     (SetUserConnectionOnline False 10 7 ''n1'' (conn_id 7 10) [])) = (True, onlineOwner ''n1'' (conn_id 7 10))"
  using presence_owned [of 10 "[\<lparr>so_renew = False, so_fault = False, so_now = 20, so_node = ''n1'', so_nanos = 3\<rparr>]" "''n1''" 30 7 10 "[]"]
  by (simp add: int64_range_def onlineTTL_def)

end
