(* ===== verification/MessageStore.thy ===== *)
theory MessageStore
  imports Cache Store
begin

text \<open>
  The message stores, \<^verbatim>\<open>services/messages/repository\<close> (MySQL and Mongo), and the history and search handlers over
  them, \<^verbatim>\<open>services/messages/api\<close>.

  A table is the list of its rows; a missing \<^verbatim>\<open>room_seq\<close> (NULL, or a field left out of a document) is 0, as it is
  read back. The unique indexes of the table are the message identifier, the sender with the client's message
  identifier, and the room with a positive sequence; an insert that meets one of them does nothing. \<open>fault\<close> says
  that a call to the database fails. Text matching (\<^verbatim>\<open>LOCATE\<close>, a quoted regular expression) is a parameter.
\<close>

type_synonym table = "Message list"

section \<open>Saving\<close>

datatype save_error = StoreFault | StoredNotFound | StoredDiffers

definition conflicts :: "Message \<Rightarrow> Message \<Rightarrow> bool" where
  "conflicts a b \<longleftrightarrow> msg_ID a = msg_ID b \<or> RequestKey a = RequestKey b \<or>
     (msg_RoomSeq a \<noteq> 0 \<and> msg_RoomSeq b \<noteq> 0 \<and> msg_RoomID a = msg_RoomID b \<and> msg_RoomSeq a = msg_RoomSeq b)"

definition insert_row :: "Message \<Rightarrow> table \<Rightarrow> table" where
  "insert_row m t = (if \<exists>r \<in> set t. conflicts m r then t else t @ [m])"

fun reconcile_all :: "Message list \<Rightarrow> table \<Rightarrow> save_error + Message list" where
  "reconcile_all [] t = Inr []"
| "reconcile_all (m # ms) t =
     (case find (\<lambda>r. RequestKey r = RequestKey m) t of
        None \<Rightarrow> Inl StoredNotFound
      | Some stored \<Rightarrow>
          (case ReconcileMessage m stored of
             None \<Rightarrow> Inl StoredDiffers
           | Some m' \<Rightarrow> (case reconcile_all ms t of Inl e \<Rightarrow> Inl e | Inr rest \<Rightarrow> Inr (m' # rest))))"

text \<open>
  \<open>SaveMessageBatch\<close> of the MySQL store, one transaction: insert what is new, read the stored rows back and
  compare. The result is the batch with the stored values.
\<close>

definition mysql_SaveMessageBatch :: "(nat \<Rightarrow> bool) \<Rightarrow> Message list \<Rightarrow> table \<Rightarrow> (save_error + Message list) \<times> table" where
  "mysql_SaveMessageBatch fault msgs t =
     (if msgs = [] then (Inr [], t)
      else if fault 0 \<or> fault 1 then (Inl StoreFault, t)
      else
        (let t1 = fold insert_row msgs t;
             persisted = filter (\<lambda>r. msg_ClientMsgID r \<in> set (map msg_ClientMsgID msgs)) t1
         in case reconcile_all msgs persisted of
              Inl e \<Rightarrow> (Inl e, t)
            | Inr msgs' \<Rightarrow> if fault 2 then (Inl StoreFault, t) else (Inr msgs', t1)))"

definition mysql_SaveMessage :: "(nat \<Rightarrow> bool) \<Rightarrow> Message \<Rightarrow> table \<Rightarrow> (save_error + Message list) \<times> table" where
  "mysql_SaveMessage fault msg t = mysql_SaveMessageBatch fault [msg] t"

text \<open>
  The Mongo store: an upsert per message that only inserts, in order; a write that meets another unique
  index stops the bulk write with an error and leaves what was written before. Messages without a client
  identifier are left out of the writes but not of the comparison.
\<close>

type_synonym collection = "MessageDocument list"

definition doc_key :: "MessageDocument \<Rightarrow> int \<times> string" where
  "doc_key d = (doc_SenderID d, doc_ClientMsgID d)"

definition doc_clash :: "MessageDocument \<Rightarrow> MessageDocument \<Rightarrow> bool" where
  "doc_clash a b \<longleftrightarrow> doc_ID a = doc_ID b \<or>
     (doc_RoomSeq a > 0 \<and> doc_RoomSeq b > 0 \<and> doc_RoomID a = doc_RoomID b \<and> doc_RoomSeq a = doc_RoomSeq b)"

fun bulk_write :: "MessageDocument list \<Rightarrow> collection \<Rightarrow> bool \<times> collection" where
  "bulk_write [] c = (True, c)"
| "bulk_write (d # ds) c =
     (if \<exists>x \<in> set c. doc_key x = doc_key d then bulk_write ds c
      else if \<exists>x \<in> set c. doc_clash d x then (False, c)
      else bulk_write ds (c @ [d]))"

definition mongo_SaveMessageBatch ::
    "(nat \<Rightarrow> bool) \<Rightarrow> Message list \<Rightarrow> collection \<Rightarrow> (save_error + Message list) \<times> collection" where
  "mongo_SaveMessageBatch fault msgs c =
     (let writes = filter (\<lambda>d. doc_ClientMsgID d \<noteq> []) (map ToMessageDocument msgs)
      in if writes = [] then (Inr msgs, c)
         else if fault 0 then (Inl StoreFault, c)
         else
           (case bulk_write writes c of
              (False, c1) \<Rightarrow> (Inl StoreFault, c1)
            | (True, c1) \<Rightarrow>
                if fault 1 then (Inl StoreFault, c1)
                else
                  (let found = map ToMessage (filter (\<lambda>d. doc_ClientMsgID d \<in> set (map msg_ClientMsgID msgs)) c1)
                   in (reconcile_all msgs found, c1))))"

section \<open>Reading\<close>

definition order_key :: "Message \<Rightarrow> int \<times> int" where
  "order_key m = (msg_RoomSeq m, msg_ID m)"

definition live_in_room :: "int \<Rightarrow> table \<Rightarrow> Message list" where
  "live_in_room roomID t = filter (\<lambda>m. msg_RoomID m = roomID \<and> msg_DeletedAt m = 0) t"

text \<open>
  \<open>GetHistoryByCursor\<close>: the newest \<open>limit\<close> rows before the cursor, oldest first. The sort by sequence and
  identifier, descending, cut and turned around is the ascending sort cut at the other end.
\<close>

definition mysql_GetHistoryByCursor :: "bool \<Rightarrow> int \<Rightarrow> int \<Rightarrow> nat \<Rightarrow> table \<Rightarrow> (save_error + Message list)" where
  "mysql_GetHistoryByCursor fault roomID cursorMsgID limit t =
     (if fault then Inl StoreFault
      else
        (let before =
               (if cursorMsgID > 0
                then (case find (\<lambda>m. msg_ID m = cursorMsgID \<and> msg_RoomID m = roomID) t of
                        Some cursor \<Rightarrow>
                          if msg_RoomSeq cursor > 0
                          then (\<lambda>m. (msg_RoomSeq m \<noteq> 0 \<and> msg_RoomSeq m < msg_RoomSeq cursor) \<or> msg_RoomSeq m = 0 \<or>
                                    (msg_RoomSeq m = msg_RoomSeq cursor \<and> msg_ID m < cursorMsgID))
                          else (\<lambda>m. msg_RoomSeq m = 0 \<and> msg_ID m < cursorMsgID)
                      | None \<Rightarrow> (\<lambda>m. msg_ID m < cursorMsgID))
                else (\<lambda>m. True));
             rows = rev (sort_key order_key (filter before (live_in_room roomID t)))
         in Inr (rev (take limit rows))))"

definition doc_order :: "MessageDocument \<Rightarrow> int \<times> int" where
  "doc_order d = (doc_RoomSeq d, doc_ID d)"

definition notDeletedFilter :: "MessageDocument \<Rightarrow> bool" where
  "notDeletedFilter d \<longleftrightarrow> doc_DeletedAt d = 0"

definition mongo_GetHistoryByCursor :: "bool \<Rightarrow> int \<Rightarrow> int \<Rightarrow> nat \<Rightarrow> collection \<Rightarrow> (save_error + Message list)" where
  "mongo_GetHistoryByCursor fault roomID cursorMsgID limit c =
     (if fault then Inl StoreFault
      else
        (let older =
               (if cursorMsgID > 0
                then (case find (\<lambda>d. doc_ID d = cursorMsgID \<and> doc_RoomID d = roomID) c of
                        Some cursorDoc \<Rightarrow>
                          (\<lambda>d. (doc_RoomSeq d \<noteq> 0 \<and> doc_RoomSeq d < doc_RoomSeq cursorDoc) \<or>
                               (doc_RoomSeq d \<noteq> 0 \<and> doc_RoomSeq d = doc_RoomSeq cursorDoc \<and> doc_ID d < cursorMsgID) \<or>
                               (if doc_RoomSeq cursorDoc > 0 then doc_RoomSeq d = 0
                                else doc_RoomSeq d = 0 \<and> doc_ID d < cursorMsgID))
                      | None \<Rightarrow> (\<lambda>d. doc_ID d < cursorMsgID))
                else (\<lambda>d. True));
             docs = take limit (rev (sort_key doc_order
                      (filter (\<lambda>d. doc_RoomID d = roomID \<and> notDeletedFilter d \<and> older d) c)))
         in Inr (map ToMessage (rev docs))))"

definition GetMessagesByTimeRange :: "bool \<Rightarrow> int \<Rightarrow> time \<Rightarrow> time \<Rightarrow> nat \<Rightarrow> table \<Rightarrow> (save_error + Message list)" where
  "GetMessagesByTimeRange fault roomID start stop limit t =
     (if fault then Inl StoreFault
      else Inr (take limit (sort_key (\<lambda>m. (msg_CreatedAt m, msg_ID m))
             (filter (\<lambda>m. start \<le> msg_CreatedAt m \<and> msg_CreatedAt m < stop) (live_in_room roomID t)))))"

definition after_id :: "int \<Rightarrow> Message \<Rightarrow> bool" where
  "after_id sinceID m \<longleftrightarrow> sinceID \<le> 0 \<or> msg_ID m > sinceID"

definition GetMessagesAfterID :: "bool \<Rightarrow> int \<Rightarrow> int \<Rightarrow> nat \<Rightarrow> table \<Rightarrow> (save_error + Message list)" where
  "GetMessagesAfterID fault roomID sinceID limit t =
     (if fault then Inl StoreFault
      else Inr (take limit (sort_key msg_ID (filter (after_id sinceID) (live_in_room roomID t)))))"

definition CountMessagesAfterID :: "bool \<Rightarrow> int \<Rightarrow> int \<Rightarrow> table \<Rightarrow> (save_error + nat)" where
  "CountMessagesAfterID fault roomID sinceID t =
     (if fault then Inl StoreFault else Inr (length (filter (after_id sinceID) (live_in_room roomID t))))"

definition SoftDeleteUserMessagesInRoom :: "bool \<Rightarrow> int \<Rightarrow> int \<Rightarrow> int \<Rightarrow> table \<Rightarrow> bool \<times> table" where
  "SoftDeleteUserMessagesInRoom fault mark roomID userID t =
     (if fault then (False, t)
      else (True, map (\<lambda>m. if msg_RoomID m = roomID \<and> msg_SenderID m = userID \<and> msg_DeletedAt m = 0
                           then m\<lparr>msg_DeletedAt := mark\<rparr> else m) t))"

record MessageSearchParams =
  sp_RoomID :: int
  sp_Keyword :: string
  sp_SenderID :: int
  sp_Start :: time
  sp_End :: time
  sp_Offset :: int
  sp_Limit :: int

definition search_match :: "(string \<Rightarrow> string \<Rightarrow> bool) \<Rightarrow> MessageSearchParams \<Rightarrow> Message \<Rightarrow> bool" where
  "search_match locate p m \<longleftrightarrow>
     (sp_Keyword p \<noteq> [] \<longrightarrow> locate (sp_Keyword p) (msg_Content m)) \<and>
     (sp_SenderID p > 0 \<longrightarrow> msg_SenderID m = sp_SenderID p) \<and>
     (\<not> IsZero (sp_Start p) \<longrightarrow> sp_Start p \<le> msg_CreatedAt m) \<and>
     (\<not> IsZero (sp_End p) \<longrightarrow> msg_CreatedAt m < sp_End p)"

definition repo_SearchMessages ::
    "(string \<Rightarrow> string \<Rightarrow> bool) \<Rightarrow> (nat \<Rightarrow> bool) \<Rightarrow> MessageSearchParams \<Rightarrow> table \<Rightarrow> save_error + (Message list \<times> nat)" where
  "repo_SearchMessages locate fault p t =
     (let rows = filter (search_match locate p) (live_in_room (sp_RoomID p) t);
          limit = (if sp_Limit p \<le> 0 \<or> sp_Limit p > 100 then 20 else sp_Limit p);
          offset = (if sp_Offset p < 0 then 0 else sp_Offset p)
      in if fault 0 \<or> fault 1 then Inl StoreFault
         else Inr (take (nat limit) (drop (nat offset) (rev (sort_key (\<lambda>m. (msg_CreatedAt m, msg_ID m)) rows))),
                   length rows))"

text \<open>
  The same queries of the Mongo store. The text match differs (\<open>matches\<close>), the rest is written over documents.
\<close>

definition mongo_live :: "int \<Rightarrow> collection \<Rightarrow> MessageDocument list" where
  "mongo_live roomID c = filter (\<lambda>d. notDeletedFilter d \<and> doc_RoomID d = roomID) c"

definition mongo_SoftDeleteUserMessagesInRoom :: "bool \<Rightarrow> int \<Rightarrow> int \<Rightarrow> int \<Rightarrow> collection \<Rightarrow> bool \<times> collection" where
  "mongo_SoftDeleteUserMessagesInRoom fault mark roomID userID c =
     (if fault then (False, c)
      else (True, map (\<lambda>d. if doc_RoomID d = roomID \<and> doc_SenderID d = userID \<and> notDeletedFilter d
                           then d\<lparr>doc_DeletedAt := mark\<rparr> else d) c))"

definition mongo_GetMessagesByTimeRange :: "bool \<Rightarrow> int \<Rightarrow> time \<Rightarrow> time \<Rightarrow> nat \<Rightarrow> collection \<Rightarrow> (save_error + Message list)" where
  "mongo_GetMessagesByTimeRange fault roomID start stop limit c =
     (if fault then Inl StoreFault
      else Inr (map ToMessage (take limit (sort_key (\<lambda>d. (doc_CreatedAt d, doc_ID d))
             (filter (\<lambda>d. start \<le> doc_CreatedAt d \<and> doc_CreatedAt d < stop) (mongo_live roomID c))))))"

definition mongo_GetMessagesAfterID :: "bool \<Rightarrow> int \<Rightarrow> int \<Rightarrow> nat \<Rightarrow> collection \<Rightarrow> (save_error + Message list)" where
  "mongo_GetMessagesAfterID fault roomID sinceID limit c =
     (if fault then Inl StoreFault
      else Inr (map ToMessage (take limit (sort_key doc_ID
             (filter (\<lambda>d. sinceID > 0 \<longrightarrow> doc_ID d > sinceID) (mongo_live roomID c))))))"

definition mongo_CountMessagesAfterID :: "bool \<Rightarrow> int \<Rightarrow> int \<Rightarrow> collection \<Rightarrow> (save_error + nat)" where
  "mongo_CountMessagesAfterID fault roomID sinceID c =
     (if fault then Inl StoreFault
      else Inr (length (filter (\<lambda>d. sinceID > 0 \<longrightarrow> doc_ID d > sinceID) (mongo_live roomID c))))"

definition mongo_SearchMessages ::
    "(string \<Rightarrow> string \<Rightarrow> bool) \<Rightarrow> (nat \<Rightarrow> bool) \<Rightarrow> MessageSearchParams \<Rightarrow> collection \<Rightarrow> save_error + (Message list \<times> nat)" where
  "mongo_SearchMessages matches fault p c =
     (let docs = filter (\<lambda>d. (sp_Keyword p \<noteq> [] \<longrightarrow> matches (sp_Keyword p) (doc_Content d)) \<and>
                              (sp_SenderID p > 0 \<longrightarrow> doc_SenderID d = sp_SenderID p) \<and>
                              (\<not> IsZero (sp_Start p) \<longrightarrow> sp_Start p \<le> doc_CreatedAt d) \<and>
                              (\<not> IsZero (sp_End p) \<longrightarrow> doc_CreatedAt d < sp_End p)) (mongo_live (sp_RoomID p) c);
          limit = (if sp_Limit p \<le> 0 \<or> sp_Limit p > 100 then 20 else sp_Limit p);
          offset = (if sp_Offset p < 0 then 0 else sp_Offset p)
      in if fault 0 \<or> fault 1 then Inl StoreFault
         else Inr (map ToMessage (take (nat limit) (drop (nat offset)
                     (rev (sort_key (\<lambda>d. (doc_CreatedAt d, doc_ID d)) docs)))), length docs))"

section \<open>The handlers\<close>

record history_reply =
  hr_status :: http_status
  hr_messages :: "CachedMsg list"
  hr_next :: int
  hr_more :: bool
  hr_redis :: bool

definition history_error :: "http_status \<Rightarrow> history_reply" where
  "history_error s = \<lparr>hr_status = s, hr_messages = [], hr_next = 0, hr_more = False, hr_redis = False\<rparr>"

definition history_limit :: "string \<Rightarrow> int" where
  "history_limit limitStr =
     (let limit = fst (ParseInt limitStr)
      in if limit > 100 then 100 else if limit \<le> 0 then 50 else limit)"

definition from_store ::
    "(int \<Rightarrow> int \<Rightarrow> nat \<Rightarrow> save_error + Message list) \<Rightarrow> int \<Rightarrow> int \<Rightarrow> int \<Rightarrow> history_reply \<times> Message list" where
  "from_store history roomID cursorMsgID limit =
     (case history roomID cursorMsgID (nat limit) of
        Inl _ \<Rightarrow> (history_error ServerError, [])
      | Inr dbMsgs \<Rightarrow>
          (\<lparr>hr_status = OK, hr_messages = map cached_of dbMsgs,
            hr_next = (if dbMsgs = [] then 0 else msg_ID (hd dbMsgs)),
            hr_more = (int (length dbMsgs) = limit), hr_redis = False\<rparr>,
           if cursorMsgID = 0 then dbMsgs else []))"

text \<open>
  \<open>mongo\<close> says that the message store is Mongo, \<open>history\<close> is its or the other store's query. The second part of
  the result is the back-fill that runs after the reply.
\<close>

definition GetChatHistory ::
    "(string \<Rightarrow> CachedMsg option) \<Rightarrow> bool \<Rightarrow> (int \<Rightarrow> int \<Rightarrow> nat \<Rightarrow> save_error + Message list) \<Rightarrow> bool \<Rightarrow> bool \<Rightarrow>
     time \<Rightarrow> string \<Rightarrow> string \<Rightarrow> string \<Rightarrow> int \<Rightarrow> DB \<Rightarrow> room_cache \<Rightarrow> history_reply \<times> Message list" where
  "GetChatHistory dec mongo history memberFault redisFault now idParam cursorStr limitStr userID db c =
     (case ParseInt idParam of
        (_, Some _) \<Rightarrow> (history_error BadRequest, [])
      | (roomID, None) \<Rightarrow>
          if CheckIsMember memberFault roomID userID db \<noteq> Inr True then (history_error Forbidden, [])
          else
            (let cursorMsgID = fst (ParseInt cursorStr);
                 limit = history_limit limitStr;
                 cached = (if cursorMsgID = 0 \<and> \<not> mongo then GetLatestMessages dec redisFault now roomID limit c
                           else Inl ())
             in case cached of
                  Inr ms \<Rightarrow>
                    if int (length ms) = limit
                    then (\<lparr>hr_status = OK, hr_messages = ms, hr_next = cg_ID (hd ms), hr_more = True, hr_redis = True\<rparr>, [])
                    else from_store history roomID cursorMsgID limit
                | Inl _ \<Rightarrow> from_store history roomID cursorMsgID limit))"

text \<open>
  Search: \<open>index\<close> is the search service, \<open>None\<close> when it is not configured; its failure or an empty answer falls
  back to the store.
\<close>

definition search_store ::
    "(string \<Rightarrow> string \<Rightarrow> bool) \<Rightarrow> (nat \<Rightarrow> bool) \<Rightarrow> MessageSearchParams \<Rightarrow> table \<Rightarrow> http_status \<times> (CachedMsg list \<times> nat) option" where
  "search_store locate fault p t =
     (case repo_SearchMessages locate fault p t of
        Inl _ \<Rightarrow> (ServerError, None)
      | Inr (ms, n) \<Rightarrow> (OK, Some (map cached_of ms, n)))"

definition SearchMessages ::
    "(string \<Rightarrow> string \<Rightarrow> bool) \<Rightarrow> (int \<Rightarrow> MessageSearchParams \<Rightarrow> (CachedMsg list \<times> nat) option) option \<Rightarrow> bool \<Rightarrow> (nat \<Rightarrow> bool) \<Rightarrow>
     string \<Rightarrow> string \<Rightarrow> string \<Rightarrow> string \<Rightarrow> string \<Rightarrow> string \<Rightarrow> string \<Rightarrow> int \<Rightarrow> DB \<Rightarrow> table \<Rightarrow>
     http_status \<times> (CachedMsg list \<times> nat) option" where
  "SearchMessages locate index memberFault fault idParam q senderStr startStr endStr fromStr sizeStr userID db t =
     (case ParseInt idParam of
        (_, Some _) \<Rightarrow> (BadRequest, None)
      | (roomID, None) \<Rightarrow>
          if CheckIsMember memberFault roomID userID db \<noteq> Inr True then (Forbidden, None)
          else if TrimSpace q = [] then (BadRequest, None)
          else
            (let millis = (\<lambda>v. if v = [] then zero_time
                               else case ParseInt v of (ms, None) \<Rightarrow> ms * 1000000 | (_, Some _) \<Rightarrow> zero_time);
                 from1 = fst (ParseInt fromStr); size1 = fst (ParseInt sizeStr);
                 from2 = (if from1 < 0 then 0 else from1);
                 size2 = (if size1 > 100 then 100 else size1);
                 size3 = (if size2 \<le> 0 then 20 else size2);
                 p = \<lparr>sp_RoomID = roomID, sp_Keyword = TrimSpace q,
                      sp_SenderID = (if senderStr = [] then 0 else fst (ParseInt senderStr)),
                      sp_Start = millis startStr, sp_End = millis endStr, sp_Offset = from2, sp_Limit = size3\<rparr>;
                 indexed = (case index of None \<Rightarrow> None | Some search \<Rightarrow> search roomID p)
             in case indexed of
                  Some (hits, n) \<Rightarrow> if n > 0 then (OK, Some (hits, n)) else search_store locate fault p t
                | None \<Rightarrow> search_store locate fault p t))"

section \<open>Paging through a room\<close>

definition table_ok :: "table \<Rightarrow> bool" where
  "table_ok t \<longleftrightarrow> distinct (map msg_ID t) \<and> (\<forall>m \<in> set t. msg_ID m > 0 \<and> msg_RoomSeq m \<ge> 0)"

definition room_history :: "int \<Rightarrow> table \<Rightarrow> Message list" where
  "room_history roomID t = sort_key order_key (live_in_room roomID t)"

lemma room_history_strict:
  assumes "table_ok t"
  shows "sorted_wrt (\<lambda>a b. order_key a < order_key b) (room_history roomID t)"
proof -
  have "inj_on msg_ID (set t)" "distinct t" using assms by (auto simp: table_ok_def distinct_map)
  then have "inj_on order_key (set (live_in_room roomID t))"
    by (auto simp: inj_on_def live_in_room_def order_key_def)
  moreover have "distinct (live_in_room roomID t)" using \<open>distinct t\<close> by (simp add: live_in_room_def)
  ultimately have "distinct (map order_key (room_history roomID t))" by (simp add: room_history_def distinct_map)
  then have "sorted_wrt (<) (map order_key (room_history roomID t))"
    by (simp add: strict_sorted_iff room_history_def)
  then show ?thesis by (simp add: sorted_wrt_map)
qed

lemma history_page:
  assumes "table_ok t"
  shows "mysql_GetHistoryByCursor False roomID 0 limit t = Inr (zkeep limit (room_history roomID t))"
    and "m \<in> set t \<Longrightarrow> msg_RoomID m = roomID \<Longrightarrow>
      mysql_GetHistoryByCursor False roomID (msg_ID m) limit t =
        Inr (zkeep limit (filter (\<lambda>r. order_key r < order_key m) (room_history roomID t)))"
proof -
  show "mysql_GetHistoryByCursor False roomID 0 limit t = Inr (zkeep limit (room_history roomID t))"
    by (simp add: mysql_GetHistoryByCursor_def rev_take_rev room_history_def)
  assume m: "m \<in> set t" "msg_RoomID m = roomID"
  have pos: "msg_ID m > 0" using assms m by (simp add: table_ok_def)
  have "find (\<lambda>r. msg_ID r = msg_ID m \<and> msg_RoomID r = roomID) t = Some m"
  proof (cases "find (\<lambda>r. msg_ID r = msg_ID m \<and> msg_RoomID r = roomID) t")
    case None
    then show ?thesis using m find_NoneD [OF None m(1)] by simp
  next
    case (Some r)
    then have "r \<in> set t" "msg_ID r = msg_ID m" by (auto dest: find_SomeD)
    then have "r = m" using assms m(1) by (metis table_ok_def distinct_map inj_onD)
    with Some show ?thesis by simp
  qed
  moreover have "filter (\<lambda>r. (msg_RoomSeq r \<noteq> 0 \<and> msg_RoomSeq r < msg_RoomSeq m) \<or> msg_RoomSeq r = 0 \<or>
        (msg_RoomSeq r = msg_RoomSeq m \<and> msg_ID r < msg_ID m)) (live_in_room roomID t) =
      filter (\<lambda>r. order_key r < order_key m) (live_in_room roomID t)" if "msg_RoomSeq m > 0"
    using that by (intro filter_cong) (auto simp: order_key_def)
  moreover have "filter (\<lambda>r. msg_RoomSeq r = 0 \<and> msg_ID r < msg_ID m) (live_in_room roomID t) =
      filter (\<lambda>r. order_key r < order_key m) (live_in_room roomID t)" if "\<not> msg_RoomSeq m > 0"
  proof -
    have "msg_RoomSeq m = 0" "\<forall>r \<in> set (live_in_room roomID t). msg_RoomSeq r \<ge> 0"
      using that assms m by (auto simp: table_ok_def live_in_room_def)
    then show ?thesis by (intro filter_cong) (auto simp: order_key_def)
  qed
  ultimately show "mysql_GetHistoryByCursor False roomID (msg_ID m) limit t =
      Inr (zkeep limit (filter (\<lambda>r. order_key r < order_key m) (room_history roomID t)))"
    using pos by (auto simp: mysql_GetHistoryByCursor_def Let_def rev_take_rev room_history_def filter_sort)
qed

text \<open>A client that follows \<^verbatim>\<open>next_cursor\<close> as long as \<^verbatim>\<open>has_more\<close> is set, for at most \<open>n\<close> pages.\<close>

fun read_all :: "nat \<Rightarrow> int \<Rightarrow> int \<Rightarrow> int \<Rightarrow> table \<Rightarrow> CachedMsg list" where
  "read_all 0 roomID limit cursor t = []"
| "read_all (Suc n) roomID limit cursor t =
     (let r = fst (from_store (\<lambda>room cur lim. mysql_GetHistoryByCursor False room cur lim t) roomID cursor limit)
      in if hr_more r then read_all n roomID limit (hr_next r) t @ hr_messages r else hr_messages r)"

lemma filter_before_strict:
  assumes "sorted_wrt (\<lambda>a b. f a < (f b :: 'b::order)) (as @ b # bs)"
  shows "filter (\<lambda>r. f r < f b) (as @ b # bs) = as"
proof -
  have "\<forall>a \<in> set as. f a < f b" "\<forall>x \<in> set bs. f b < f x" using assms by (auto simp: sorted_wrt_append)
  moreover have "\<not> f x < f b" if "x \<in> set bs" for x using that calculation(2) by (meson order.asym)
  ultimately show ?thesis by (simp add: filter_id_conv)
qed

lemma read_all_suffix:
  assumes "table_ok t" "0 < limit" "room_history roomID t = as @ bs" "length as < n"
    and "cursor = (case bs of [] \<Rightarrow> 0 | b # _ \<Rightarrow> msg_ID b)"
  shows "read_all n roomID limit cursor t = map cached_of as"
  using assms(3-5)
proof (induction n arbitrary: as bs cursor)
  case (Suc n)
  have page: "mysql_GetHistoryByCursor False roomID cursor (nat limit) t = Inr (zkeep (nat limit) as)"
  proof (cases bs)
    case Nil
    with Suc.prems history_page(1) [OF assms(1)] show ?thesis by simp
  next
    case (Cons b bs')
    have "b \<in> set (room_history roomID t)" using Suc.prems(1) Cons by simp
    then have b: "b \<in> set t" "msg_RoomID b = roomID" by (auto simp: room_history_def live_in_room_def)
    have "filter (\<lambda>r. order_key r < order_key b) (room_history roomID t) = as"
      using filter_before_strict room_history_strict [OF assms(1), of roomID] Suc.prems(1) Cons by metis
    with history_page(2) [OF assms(1) b] Suc.prems(3) Cons show ?thesis by simp
  qed
  show ?case
  proof (cases "nat limit \<le> length as")
    case False
    then have "zkeep (nat limit) as = as" by (simp add: zkeep_full)
    with page False show ?thesis by (simp add: from_store_def Let_def)
  next
    case True
    then obtain as' where as: "as = as' @ zkeep (nat limit) as" "length (zkeep (nat limit) as) = nat limit"
      using zkeep_split by blast
    then obtain p ps where p: "zkeep (nat limit) as = p # ps"
      using assms(2) by (cases "zkeep (nat limit) as") auto
    have "read_all n roomID limit (msg_ID p) t = map cached_of as'"
    proof (rule Suc.IH)
      show "room_history roomID t = as' @ (p # ps @ bs)" using Suc.prems(1) as(1) p by simp
      show "length as' < n" using Suc.prems(2) arg_cong [OF as(1), of length] p by simp
    qed simp
    moreover have "fst (from_store (\<lambda>room cur lim. mysql_GetHistoryByCursor False room cur lim t) roomID cursor limit) =
        \<lparr>hr_status = OK, hr_messages = map cached_of (p # ps), hr_next = msg_ID p, hr_more = True, hr_redis = False\<rparr>"
      using page as(2) p assms(2) by (simp add: from_store_def)
    ultimately have "read_all (Suc n) roomID limit cursor t = map cached_of as' @ map cached_of (p # ps)"
      by (simp add: Let_def)
    then show ?thesis using as(1) p by (metis map_append)
  qed
qed simp


section \<open>The two stores answer alike\<close>

lemma insort_key_map: "insort_key f (g x) (map g xs) = map g (insort_key (\<lambda>x. f (g x)) x xs)"
  by (induction xs) auto

lemma sort_key_map: "sort_key f (map g xs) = map g (sort_key (\<lambda>x. f (g x)) xs)"
  by (induction xs) (simp_all add: insort_key_map)

lemma find_map: "find P (map g xs) = map_option g (find (\<lambda>x. P (g x)) xs)"
  by (induction xs) auto

lemma document_fields [simp]:
  "doc_ID (ToMessageDocument m) = msg_ID m" "doc_RoomSeq (ToMessageDocument m) = msg_RoomSeq m"
  "doc_RoomID (ToMessageDocument m) = msg_RoomID m" "doc_order (ToMessageDocument m) = order_key m"
  by (simp_all add: ToMessageDocument_def doc_order_def order_key_def)

lemma document_fields2 [simp]:
  "doc_SenderID (ToMessageDocument m) = msg_SenderID m" "doc_CreatedAt (ToMessageDocument m) = msg_CreatedAt m"
  "doc_Content (ToMessageDocument m) = msg_Content m"
  by (simp_all add: ToMessageDocument_def)

text \<open>Messages whose deletion mark fits the signed field of a document.\<close>

definition marks_fit :: "table \<Rightarrow> bool" where
  "marks_fit t \<longleftrightarrow> (\<forall>m \<in> set t. 0 \<le> msg_DeletedAt m \<and> msg_DeletedAt m < 2 ^ 63)"

lemma not_deleted_document:
  assumes "marks_fit t" "m \<in> set t"
  shows "notDeletedFilter (ToMessageDocument m) \<longleftrightarrow> msg_DeletedAt m = 0"
proof -
  have "int64_range (msg_DeletedAt m)" using assms by (auto simp: marks_fit_def int64_range_def)
  then show ?thesis by (simp add: notDeletedFilter_def ToMessageDocument_def wrap64_id)
qed

lemma documents_back:
  assumes "marks_fit t" "set ms \<subseteq> set t"
  shows "map ToMessage (map ToMessageDocument ms) = ms"
  using assms unfolding marks_fit_def by (auto simp: document_roundtrip intro!: map_idI)

lemma mongo_live_documents:
  assumes "marks_fit t"
  shows "mongo_live roomID (map ToMessageDocument t) = map ToMessageDocument (live_in_room roomID t)"
  unfolding mongo_live_def live_in_room_def filter_map
  by (rule arg_cong [of _ _ "map ToMessageDocument"]) (auto intro!: filter_cong simp: not_deleted_document [OF assms])

lemma live_subset: "set (filter Q (live_in_room roomID t)) \<subseteq> set t"
  by (auto simp: live_in_room_def)

lemma page_back:
  assumes "marks_fit t" "\<And>m. k (ToMessageDocument m) = k' m"
  shows "map ToMessage (take n (sort_key k (map ToMessageDocument (filter Q (live_in_room roomID t))))) =
    take n (sort_key k' (filter Q (live_in_room roomID t)))"
proof -
  let ?ms = "take n (sort_key k' (filter Q (live_in_room roomID t)))"
  have "set ?ms \<subseteq> set t" using live_subset [of Q roomID t] by (auto dest!: in_set_takeD)
  from documents_back [OF assms(1) this] show ?thesis by (simp add: sort_key_map assms(2) take_map)
qed

text \<open>The other queries of the two stores agree as well, the search for a common text match.\<close>

lemma stores_agree_on_queries:
  assumes "marks_fit t"
  shows "mongo_GetMessagesByTimeRange fault roomID start stop limit (map ToMessageDocument t) =
      GetMessagesByTimeRange fault roomID start stop limit t"
    and "mongo_GetMessagesAfterID fault roomID sinceID limit (map ToMessageDocument t) =
      GetMessagesAfterID fault roomID sinceID limit t"
    and "mongo_CountMessagesAfterID fault roomID sinceID (map ToMessageDocument t) = CountMessagesAfterID fault roomID sinceID t"
    and "mongo_SearchMessages match faults p (map ToMessageDocument t) = repo_SearchMessages match faults p t"
proof -
  have after: "filter (\<lambda>d. sinceID > 0 \<longrightarrow> doc_ID d > sinceID) (mongo_live roomID (map ToMessageDocument t)) =
      map ToMessageDocument (filter (after_id sinceID) (live_in_room roomID t))"
    unfolding mongo_live_documents [OF assms] filter_map
    by (auto intro!: arg_cong [of _ _ "map ToMessageDocument"] filter_cong simp: after_id_def)
  show "mongo_GetMessagesAfterID fault roomID sinceID limit (map ToMessageDocument t) = GetMessagesAfterID fault roomID sinceID limit t"
    unfolding mongo_GetMessagesAfterID_def GetMessagesAfterID_def after by (simp add: page_back [OF assms])
  show "mongo_CountMessagesAfterID fault roomID sinceID (map ToMessageDocument t) = CountMessagesAfterID fault roomID sinceID t"
    unfolding mongo_CountMessagesAfterID_def CountMessagesAfterID_def after by simp
  show "mongo_GetMessagesByTimeRange fault roomID start stop limit (map ToMessageDocument t) =
      GetMessagesByTimeRange fault roomID start stop limit t"
    unfolding mongo_GetMessagesByTimeRange_def GetMessagesByTimeRange_def mongo_live_documents [OF assms] filter_map comp_def
    by (simp add: page_back [OF assms])
  define Q where "Q = search_match match p"
  let ?s = "rev (sort_key (\<lambda>m. (msg_CreatedAt m, msg_ID m)) (filter Q (live_in_room (sp_RoomID p) t)))"
  have f: "filter (\<lambda>d. (sp_Keyword p \<noteq> [] \<longrightarrow> match (sp_Keyword p) (doc_Content d)) \<and>
        (sp_SenderID p > 0 \<longrightarrow> doc_SenderID d = sp_SenderID p) \<and> (\<not> IsZero (sp_Start p) \<longrightarrow> sp_Start p \<le> doc_CreatedAt d) \<and>
        (\<not> IsZero (sp_End p) \<longrightarrow> doc_CreatedAt d < sp_End p)) (mongo_live (sp_RoomID p) (map ToMessageDocument t)) =
      map ToMessageDocument (filter Q (live_in_room (sp_RoomID p) t))"
    unfolding mongo_live_documents [OF assms] filter_map Q_def search_match_def comp_def by simp
  have bk: "map ToMessage (map ToMessageDocument (take l (drop off ?s))) = take l (drop off ?s)" for l off
    by (rule documents_back [OF assms]) (use live_subset [of Q "sp_RoomID p" t] in \<open>auto dest!: in_set_takeD in_set_dropD\<close>)
  show "mongo_SearchMessages match faults p (map ToMessageDocument t) = repo_SearchMessages match faults p t"
    unfolding mongo_SearchMessages_def repo_SearchMessages_def f Let_def Q_def [symmetric] sort_key_map
    using bk by (simp add: rev_map take_map drop_map)
qed

text \<open>
  The history does not depend on the store. For the same messages the Mongo query and the MySQL query
  return the same page for every room, cursor and limit, deleted and unnumbered messages included.
\<close>

lemma stores_agree_on_history:
  assumes "\<forall>m \<in> set t. msg_RoomSeq m \<ge> 0 \<and> 0 \<le> msg_DeletedAt m \<and> msg_DeletedAt m < 2 ^ 63"
  shows "mongo_GetHistoryByCursor fault roomID cursorMsgID limit (map ToMessageDocument t) =
    mysql_GetHistoryByCursor fault roomID cursorMsgID limit t"
proof (cases fault)
  case False
  have rt: "map ToMessage (map ToMessageDocument ms) = ms" if "set ms \<subseteq> set t" for ms
    using assms that by (auto simp: document_roundtrip intro!: map_idI)
  have page: "map ToMessage (rev (take limit (rev (sort_key doc_order (filter P (map ToMessageDocument t)))))) =
      rev (take limit (rev (sort_key order_key (filter Q (live_in_room roomID t)))))"
    if "\<And>m. m \<in> set t \<Longrightarrow> P (ToMessageDocument m) \<longleftrightarrow> msg_RoomID m = roomID \<and> msg_DeletedAt m = 0 \<and> Q m" for P Q
  proof -
    have f: "filter P (map ToMessageDocument t) = map ToMessageDocument (filter Q (live_in_room roomID t))"
      using that by (auto simp: filter_map live_in_room_def intro!: arg_cong [of _ _ "map ToMessageDocument"] filter_cong)
    have "set (rev (take limit (rev (sort_key order_key (filter Q (live_in_room roomID t)))))) \<subseteq> set t"
      by (auto simp: live_in_room_def dest!: in_set_takeD)
    from rt [OF this] show ?thesis unfolding f sort_key_map by (simp add: rev_map take_map)
  qed
  have del: "notDeletedFilter (ToMessageDocument m) \<longleftrightarrow> msg_DeletedAt m = 0" if "m \<in> set t" for m
  proof -
    have "int64_range (msg_DeletedAt m)" using assms that by (auto simp: int64_range_def)
    then show ?thesis by (simp add: notDeletedFilter_def ToMessageDocument_def wrap64_id)
  qed
  show ?thesis
  proof (cases "cursorMsgID > 0")
    case True
    show ?thesis
    proof (cases "find (\<lambda>m. msg_ID m = cursorMsgID \<and> msg_RoomID m = roomID) t")
      case None
      with True False show ?thesis
        by (simp add: mongo_GetHistoryByCursor_def mysql_GetHistoryByCursor_def find_map Let_def page del)
    next
      case (Some cur)
      then have "msg_RoomSeq cur \<ge> 0" using assms by (auto dest: find_SomeD)
      with True False Some assms show ?thesis
        by (auto simp: mongo_GetHistoryByCursor_def mysql_GetHistoryByCursor_def find_map Let_def intro!: page simp: del)
    qed
  next
    case cur: False
    with False show ?thesis
      by (simp add: mongo_GetHistoryByCursor_def mysql_GetHistoryByCursor_def page del)
  qed
qed (simp add: mongo_GetHistoryByCursor_def mysql_GetHistoryByCursor_def)

section \<open>Saving a batch\<close>

definition indexes_ok :: "table \<Rightarrow> bool" where
  "indexes_ok t \<longleftrightarrow> sorted_wrt (\<lambda>a b. \<not> conflicts a b) t"

definition same_record :: "Message \<Rightarrow> Message \<Rightarrow> bool" where
  "same_record a b \<longleftrightarrow> msg_ID a = msg_ID b \<and> msg_RoomSeq a = msg_RoomSeq b \<and> msg_RoomID a = msg_RoomID b \<and>
     msg_SenderID a = msg_SenderID b \<and> msg_ClientMsgID a = msg_ClientMsgID b \<and> msg_Type a = msg_Type b \<and>
     msg_Content a = msg_Content b"

definition archived :: "table \<Rightarrow> Message \<Rightarrow> bool" where
  "archived t m \<longleftrightarrow> (\<exists>r \<in> set t. same_record m r)"

lemma conflicts_refl [simp]: "conflicts m m"
  by (simp add: conflicts_def)

lemma conflicts_sym: "conflicts a b \<longleftrightarrow> conflicts b a"
  by (auto simp: conflicts_def)

lemma fold_insert_new: "\<exists>new. fold insert_row ms t = t @ new \<and> set new \<subseteq> set ms"
proof (induction ms arbitrary: t)
  case (Cons m ms)
  obtain new where "fold insert_row ms (insert_row m t) = insert_row m t @ new" "set new \<subseteq> set ms"
    using Cons.IH by blast
  moreover have "\<exists>x. insert_row m t = t @ x \<and> set x \<subseteq> {m}" by (auto simp: insert_row_def)
  ultimately show ?case by fastforce
qed simp

lemma fold_insert_covers: "m \<in> set ms \<Longrightarrow> \<exists>r \<in> set (fold insert_row ms t). conflicts m r"
proof (induction ms arbitrary: t)
  case (Cons x xs)
  show ?case
  proof (cases "m = x")
    case True
    have "\<exists>r \<in> set (insert_row x t). conflicts x r" by (auto simp: insert_row_def)
    moreover have "set (insert_row x t) \<subseteq> set (fold insert_row xs (insert_row x t))"
      using fold_insert_new [of xs "insert_row x t"] by auto
    ultimately show ?thesis using True by auto
  next
    case False
    with Cons show ?thesis by simp
  qed
qed simp

lemma fold_insert_idle: "\<forall>m \<in> set ms. \<exists>r \<in> set t. conflicts m r \<Longrightarrow> fold insert_row ms t = t"
  by (induction ms) (auto simp: insert_row_def)

lemma indexes_ok_insert: "indexes_ok t \<Longrightarrow> indexes_ok (insert_row m t)"
  using conflicts_sym by (auto simp: indexes_ok_def insert_row_def sorted_wrt_append)

lemma indexes_ok_fold: "indexes_ok t \<Longrightarrow> indexes_ok (fold insert_row ms t)"
  by (induction ms arbitrary: t) (simp_all add: indexes_ok_insert)

lemma reconcile_all_stored:
  assumes "reconcile_all ms t = Inr ms'" "m \<in> set ms" "msg_RoomSeq m > 0"
  shows "archived t m"
  using assms
proof (induction ms arbitrary: ms')
  case (Cons x xs)
  obtain stored m' rest where s: "find (\<lambda>r. RequestKey r = RequestKey x) t = Some stored"
    "ReconcileMessage x stored = Some m'" "reconcile_all xs t = Inr rest"
    using Cons.prems(1) by (auto split: option.splits sum.splits)
  show ?case
  proof (cases "m = x")
    case True
    have "same_record x stored"
      using s(2) Cons.prems(3) True by (auto simp: ReconcileMessage_def same_record_def split: if_splits)
    with True find_SomeD [OF s(1)] show ?thesis by (auto simp: archived_def)
  next
    case False
    with Cons s(3) show ?thesis by simp
  qed
qed simp

lemma save_cases:
  assumes "mysql_SaveMessageBatch fault ms t = (res, t')"
  shows "(\<exists>e. res = Inl e \<and> t' = t) \<or>
    (\<exists>ms'. res = Inr ms' \<and> t' = fold insert_row ms t \<and>
       reconcile_all ms (filter (\<lambda>r. msg_ClientMsgID r \<in> set (map msg_ClientMsgID ms)) t') = Inr ms')"
proof (cases "ms = [] \<or> fault 0 \<or> fault 1")
  case True
  with assms show ?thesis by (auto simp: mysql_SaveMessageBatch_def split: if_splits)
next
  case False
  define r where "r = reconcile_all ms (filter (\<lambda>r. msg_ClientMsgID r \<in> set (map msg_ClientMsgID ms)) (fold insert_row ms t))"
  from False assms have "(case r of Inl e \<Rightarrow> (Inl e, t)
      | Inr ms' \<Rightarrow> if fault 2 then (Inl StoreFault, t) else (Inr ms', fold insert_row ms t)) = (res, t')"
    by (simp add: mysql_SaveMessageBatch_def Let_def r_def)
  then have "(\<exists>e. res = Inl e \<and> t' = t) \<or> (\<exists>ms'. res = Inr ms' \<and> t' = fold insert_row ms t \<and> r = Inr ms')"
    by (cases r) (auto split: if_splits)
  then show ?thesis unfolding r_def by metis
qed

lemma save_archives:
  assumes "mysql_SaveMessageBatch fault ms t = (Inr ms', t')" "m \<in> set ms" "msg_RoomSeq m > 0"
  shows "archived t' m"
  using save_cases [OF assms(1)] reconcile_all_stored [OF _ assms(2,3)] by (fastforce simp: archived_def)

lemma save_grows:
  assumes "mysql_SaveMessageBatch fault ms t = (res, t')"
  shows "\<exists>new. t' = t @ new \<and> set new \<subseteq> set ms"
  using save_cases [OF assms] fold_insert_new [of ms t] by auto

lemma archived_mono: "archived t m \<Longrightarrow> archived (t @ new) m"
  by (auto simp: archived_def)

text \<open>
  C26: saving a batch is safe to repeat. A save that fails changes nothing. A save that succeeds keeps every old
  row, adds only messages of the batch, holds each numbered message of the batch with its numbers and content, and
  keeps the unique indexes; saving the same batch again, after a crash for instance, succeeds with the same
  answer and changes nothing.
\<close>

theorem save_batch_idempotent:
  assumes "mysql_SaveMessageBatch fault ms t = (res, t')" "indexes_ok t"
  shows "indexes_ok t' \<and>
    (case res of
       Inl e \<Rightarrow> t' = t
     | Inr ms' \<Rightarrow> (\<exists>new. t' = t @ new \<and> set new \<subseteq> set ms) \<and>
         (\<forall>m \<in> set ms. msg_RoomSeq m > 0 \<longrightarrow> archived t' m) \<and>
         mysql_SaveMessageBatch (\<lambda>_. False) ms t' = (Inr ms', t'))"
proof (cases res)
  case (Inl e)
  with save_cases [OF assms(1)] assms(2) show ?thesis by auto
next
  case (Inr ms')
  with save_cases [OF assms(1)] have t': "t' = fold insert_row ms t"
    "reconcile_all ms (filter (\<lambda>r. msg_ClientMsgID r \<in> set (map msg_ClientMsgID ms)) t') = Inr ms'" by auto
  have "fold insert_row ms t' = t'" using fold_insert_idle fold_insert_covers t'(1) by metis
  then have "mysql_SaveMessageBatch (\<lambda>_. False) ms t' = (Inr ms', t')"
    using t'(2) by (auto simp: mysql_SaveMessageBatch_def Let_def)
  moreover have "indexes_ok t'" using indexes_ok_fold [OF assms(2)] t'(1) by simp
  ultimately show ?thesis
    using Inr save_grows [OF assms(1)] save_archives [of fault ms t ms' t'] assms(1) by auto
qed

section \<open>Witnesses\<close>

definition sample_table :: table where
  "sample_table = [sample_stored 2, sample_stored 1]"


lemma stores_agree_on_history_example:
  "mongo_GetHistoryByCursor False 9 2 50 (map ToMessageDocument sample_table) = Inr [sample_stored 1]"
proof -
  have "mysql_GetHistoryByCursor False 9 2 50 sample_table = Inr [sample_stored 1]" by code_simp
  moreover have "\<forall>m \<in> set sample_table. msg_RoomSeq m \<ge> 0 \<and> 0 \<le> msg_DeletedAt m \<and> msg_DeletedAt m < 2 ^ 63"
    by (simp add: sample_table_def sample_stored_def)
  ultimately show ?thesis using stores_agree_on_history [of sample_table False 9 2 50] by simp
qed

theorem save_batch_idempotent_witness:
  "mysql_SaveMessageBatch (\<lambda>_. False) [sample_stored 1] [sample_stored 1] = (Inr [sample_stored 1], [sample_stored 1])"
proof -
  have s: "mysql_SaveMessageBatch (\<lambda>_. False) [sample_stored 1] [] = (Inr [sample_stored 1], [sample_stored 1])"
    by code_simp
  have "indexes_ok []" by (simp add: indexes_ok_def)
  from save_batch_idempotent [OF s this] show ?thesis by simp
qed

end
