(* ===== verification/Archiver.thy ===== *)
theory Archiver
  imports MessageStore
begin

text \<open>
  The archiver, \<^verbatim>\<open>services/messages/archiver/worker-kafka.go\<close>: it reads the numbered topic of one partition, saves
  batches in the message store, refreshes the room cache and keeps its position in Redis.

  The topic is the list of its records, a record's offset its place in the list. A run of the process is a
  sequence of events: starts, reads, ticks of the flush timer, cancellation and crashes, each with the failures
  of the calls it makes. What survives a crash is the store, the cache and the saved position. The search index
  is written on the way and its failures are ignored; it is not part of the state.

  The store is behind the interface \<^verbatim>\<open>MessageRepository\<close>. The locale \<open>message_repository\<close> states what the archiver
  relies on; it is interpreted on both stores.
\<close>

section \<open>The worker\<close>

record 't archiver =
  ar_table :: 't
  ar_cache :: room_cache
  ar_cursor :: "string option"
  ar_running :: bool
  ar_pos :: nat
  ar_batch :: "Message list"
  ar_last :: int

definition batchSize :: nat where
  "batchSize = 1000"

text \<open>The failures of one flush: of the store, of the pipeline to Redis and of the saved position.\<close>

record flush_run =
  fl_store :: "nat \<Rightarrow> bool"
  fl_sent :: nat
  fl_now :: time
  fl_offset :: bool

type_synonym 't save_fun = "(nat \<Rightarrow> bool) \<Rightarrow> Message list \<Rightarrow> 't \<Rightarrow> (save_error + Message list) \<times> 't"

definition saveOffset :: "bool \<Rightarrow> int \<Rightarrow> 't archiver \<Rightarrow> bool \<times> 't archiver" where
  "saveOffset fault offset a = (if fault then (False, a) else (True, a\<lparr>ar_cursor := Some (FormatInt offset)\<rparr>))"

definition ar_flush :: "(CachedMsg \<Rightarrow> string option) \<Rightarrow> 't save_fun \<Rightarrow> flush_run \<Rightarrow> 't archiver \<Rightarrow> bool \<times> 't archiver" where
  "ar_flush enc save fl a =
     (if ar_batch a = [] then (True, a)
      else
        (case save (fl_store fl) (ar_batch a) (ar_table a) of
           (Inl e, t) \<Rightarrow> (False, a\<lparr>ar_table := t\<rparr>)
         | (Inr msgs, t) \<Rightarrow>
             (let a1 = a\<lparr>ar_table := t, ar_cache := pushLatestToRedis enc (fl_sent fl) (fl_now fl) msgs (ar_cache a)\<rparr>
              in case saveOffset (fl_offset fl) (ar_last a) a1 of
                   (False, a2) \<Rightarrow> (False, a2)
                 | (True, a2) \<Rightarrow> (True, a2\<lparr>ar_batch := []\<rparr>))))"

definition NewWorker :: "bool \<Rightarrow> bool \<Rightarrow> 't archiver \<Rightarrow> 't archiver" where
  "NewWorker redisFault seekFault a =
     (let startOffset =
            (if redisFault then 0
             else case ar_cursor a of
               None \<Rightarrow> 0
             | Some val \<Rightarrow> (case ParseInt val of (saved, None) \<Rightarrow> saved + 1 | (_, Some _) \<Rightarrow> 0))
      in if seekFault then a
         else a\<lparr>ar_running := True, ar_pos := nat startOffset, ar_batch := [], ar_last := 0\<rparr>)"

datatype ar_event =
    AStart bool bool
  | ARead time flush_run
  | AReadError
  | ATick flush_run
  | ACancel flush_run
  | ACrash

definition stop_unless :: "bool \<times> 't archiver \<Rightarrow> 't archiver" where
  "stop_unless r = (case r of (ok, a) \<Rightarrow> if ok then a else a\<lparr>ar_running := False\<rparr>)"

definition take_in :: "MessageEnvelope \<Rightarrow> 't archiver \<Rightarrow> 't archiver" where
  "take_in envelope a =
     a\<lparr>ar_batch := ar_batch a @ [message_of_envelope envelope], ar_last := int (ar_pos a), ar_pos := Suc (ar_pos a)\<rparr>"

text \<open>One turn of \<open>Start\<close>; a read past the end of the topic waits and times out.\<close>

definition read_record ::
    "codec \<Rightarrow> (CachedMsg \<Rightarrow> string option) \<Rightarrow> 't save_fun \<Rightarrow> string list \<Rightarrow> time \<Rightarrow> flush_run \<Rightarrow> 't archiver \<Rightarrow> 't archiver" where
  "read_record cd enc save log now fl a =
     (if ar_pos a \<ge> length log then a
      else
        (case Unmarshal cd now (log ! ar_pos a) of
           Inl e \<Rightarrow> a\<lparr>ar_running := False\<rparr>
         | Inr envelope \<Rightarrow>
             if env_MessageID envelope \<le> 0 \<or> env_RoomSeq envelope \<le> 0 then a\<lparr>ar_running := False\<rparr>
             else
               (let a1 = take_in envelope a
                in if length (ar_batch a1) \<ge> batchSize then stop_unless (ar_flush enc save fl a1) else a1)))"

definition ar_step ::
    "codec \<Rightarrow> (CachedMsg \<Rightarrow> string option) \<Rightarrow> 't save_fun \<Rightarrow> string list \<Rightarrow> ar_event \<Rightarrow> 't archiver \<Rightarrow> 't archiver" where
  "ar_step cd enc save log ev a =
     (case ev of
        AStart redisFault seekFault \<Rightarrow> if ar_running a then a else NewWorker redisFault seekFault a
      | ARead now fl \<Rightarrow> if ar_running a then read_record cd enc save log now fl a else a
      | AReadError \<Rightarrow> a
      | ATick fl \<Rightarrow> if ar_running a then stop_unless (ar_flush enc save fl a) else a
      | ACancel fl \<Rightarrow> if ar_running a then (snd (ar_flush enc save fl a))\<lparr>ar_running := False\<rparr> else a
      | ACrash \<Rightarrow> a\<lparr>ar_running := False, ar_batch := []\<rparr>)"

definition ar_init :: "'t \<Rightarrow> 't archiver" where
  "ar_init t = \<lparr>ar_table = t, ar_cache = [], ar_cursor = None, ar_running = False, ar_pos = 0, ar_batch = [], ar_last = 0\<rparr>"

section \<open>What the archiver relies on\<close>

text \<open>
  A record that has been dealt with: it decodes to a numbered message, which the store holds.
\<close>

definition settled :: "codec \<Rightarrow> ('t \<Rightarrow> Message \<Rightarrow> bool) \<Rightarrow> string list \<Rightarrow> 't \<Rightarrow> nat \<Rightarrow> bool" where
  "settled cd holds log t k \<longleftrightarrow> (\<exists>now e. Unmarshal cd now (log ! k) = Inr e \<and> env_MessageID e > 0 \<and> env_RoomSeq e > 0 \<and>
     holds t (message_of_envelope e))"

definition in_hand :: "codec \<Rightarrow> string list \<Rightarrow> nat \<Rightarrow> Message \<Rightarrow> bool" where
  "in_hand cd log k m \<longleftrightarrow> (\<exists>now e. Unmarshal cd now (log ! k) = Inr e \<and> env_MessageID e > 0 \<and> env_RoomSeq e > 0 \<and>
     m = message_of_envelope e)"

definition cursor_ok :: "codec \<Rightarrow> ('t \<Rightarrow> Message \<Rightarrow> bool) \<Rightarrow> string list \<Rightarrow> 't archiver \<Rightarrow> bool" where
  "cursor_ok cd holds log a \<longleftrightarrow> (\<forall>s. ar_cursor a = Some s \<longrightarrow>
     (\<exists>k < length log. s = FormatInt (int k) \<and> (\<forall>j \<le> k. settled cd holds log (ar_table a) j)))"

definition worker_ok :: "codec \<Rightarrow> ('t \<Rightarrow> Message \<Rightarrow> bool) \<Rightarrow> string list \<Rightarrow> 't archiver \<Rightarrow> bool" where
  "worker_ok cd holds log a \<longleftrightarrow> (ar_running a \<longrightarrow>
     length (ar_batch a) \<le> ar_pos a \<and> ar_pos a \<le> length log \<and>
     (\<forall>j < ar_pos a - length (ar_batch a). settled cd holds log (ar_table a) j) \<and>
     (\<forall>i < length (ar_batch a). in_hand cd log (ar_pos a - length (ar_batch a) + i) (ar_batch a ! i)) \<and>
     (ar_batch a \<noteq> [] \<longrightarrow> ar_last a = int (ar_pos a) - 1))"

lemma read_record_cases [case_names waits stops accepted]:
  obtains "length log \<le> ar_pos a" "read_record cd enc save log now fl a = a"
  | "ar_pos a < length log" "\<forall>e. Unmarshal cd now (log ! ar_pos a) = Inr e \<longrightarrow> env_MessageID e \<le> 0 \<or> env_RoomSeq e \<le> 0"
      "read_record cd enc save log now fl a = a\<lparr>ar_running := False\<rparr>"
  | e where "ar_pos a < length log" "Unmarshal cd now (log ! ar_pos a) = Inr e" "env_MessageID e > 0" "env_RoomSeq e > 0"
      "read_record cd enc save log now fl a =
         (if length (ar_batch (take_in e a)) \<ge> batchSize then stop_unless (ar_flush enc save fl (take_in e a)) else take_in e a)"
proof (cases "length log \<le> ar_pos a")
  case True
  with that(1) show ?thesis by (simp add: read_record_def)
next
  case False
  show ?thesis
  proof (cases "\<exists>e. Unmarshal cd now (log ! ar_pos a) = Inr e \<and> env_MessageID e > 0 \<and> env_RoomSeq e > 0")
    case True
    then obtain e where "Unmarshal cd now (log ! ar_pos a) = Inr e" "env_MessageID e > 0" "env_RoomSeq e > 0" by blast
    with False that(3) [of e] show ?thesis by (simp add: read_record_def Let_def)
  next
    case bad: False
    then have "read_record cd enc save log now fl a = a\<lparr>ar_running := False\<rparr>"
      using False by (cases "Unmarshal cd now (log ! ar_pos a)") (auto simp: read_record_def not_less)
    with False bad that(2) show ?thesis by (meson not_le)
  qed
qed

locale message_repository =
  fixes save :: "'t save_fun" and holds :: "'t \<Rightarrow> Message \<Rightarrow> bool"
  assumes save_holds: "save fault ms t = (Inr ms', t') \<Longrightarrow> m \<in> set ms \<Longrightarrow> msg_RoomSeq m > 0 \<Longrightarrow> holds t' m"
    and save_keeps: "save fault ms t = (res, t') \<Longrightarrow> holds t m \<Longrightarrow> holds t' m"
begin

abbreviation ok :: "codec \<Rightarrow> string list \<Rightarrow> 't archiver \<Rightarrow> bool" where
  "ok cd log a \<equiv> cursor_ok cd holds log a \<and> worker_ok cd holds log a"

lemma settled_keeps:
  "save fault ms t = (res, t') \<Longrightarrow> settled cd holds log t k \<Longrightarrow> settled cd holds log t' k"
  unfolding settled_def using save_keeps by meson

lemma settled_saved:
  assumes "save fault ms t = (Inr ms', t')" "in_hand cd log k m" "m \<in> set ms"
  shows "settled cd holds log t' k"
proof -
  obtain now e where e: "Unmarshal cd now (log ! k) = Inr e" "env_MessageID e > 0" "env_RoomSeq e > 0"
    "m = message_of_envelope e" using assms(2) unfolding in_hand_def by blast
  have "holds t' m" using save_holds [OF assms(1,3)] e(3,4) by (simp add: message_of_envelope_def)
  with e show ?thesis unfolding settled_def by blast
qed

lemma flush_ok:
  assumes "ok cd log a" "ar_running a" "ar_flush enc save fl a = (b, a')"
  shows "cursor_ok cd holds log a' \<and> (b \<longrightarrow> worker_ok cd holds log a')"
proof (cases "ar_batch a = []")
  case True
  with assms show ?thesis by (simp add: ar_flush_def)
next
  case False
  obtain res t where s: "save (fl_store fl) (ar_batch a) (ar_table a) = (res, t)" by (metis surj_pair)
  have keep: "settled cd holds log (ar_table a) k \<Longrightarrow> settled cd holds log t k" for k by (rule settled_keeps [OF s])
  have cur: "ar_cursor a = Some str \<Longrightarrow> \<exists>k < length log. str = FormatInt (int k) \<and> (\<forall>j \<le> k. settled cd holds log t j)" for str
    using assms(1) keep unfolding cursor_ok_def by meson
  show ?thesis
  proof (cases res)
    case (Inl e)
    with assms(3) False s cur show ?thesis by (auto simp: ar_flush_def cursor_ok_def)
  next
    case (Inr ms)
    let ?n = "length (ar_batch a)"
    have w: "?n \<le> ar_pos a" "ar_pos a \<le> length log" "\<forall>j < ar_pos a - ?n. settled cd holds log (ar_table a) j"
      "\<forall>i < ?n. in_hand cd log (ar_pos a - ?n + i) (ar_batch a ! i)" "ar_last a = int (ar_pos a) - 1"
      using assms(1,2) False unfolding worker_ok_def by auto
    have all: "settled cd holds log t j" if "j < ar_pos a" for j
    proof (cases "j < ar_pos a - ?n")
      case True
      then show ?thesis using w(3) keep by blast
    next
      case False
      define i where "i = j - (ar_pos a - ?n)"
      have "i < ?n" "j = ar_pos a - ?n + i" using that False w(1) unfolding i_def by linarith+
      then show ?thesis using settled_saved [OF s [unfolded Inr]] w(4) nth_mem by metis
    qed
    have pos: "0 < ar_pos a" using w(1) False by (cases "ar_batch a") auto
    define k where "k = ar_pos a - 1"
    have k: "k < length log" "ar_last a = int k" "\<forall>j \<le> k. settled cd holds log t j"
      using w(2,5) pos all unfolding k_def by auto
    show ?thesis
    proof (cases "fl_offset fl")
      case True
      with assms(3) False s Inr cur show ?thesis by (auto simp: ar_flush_def saveOffset_def Let_def cursor_ok_def)
    next
      case nf: False
      then have a': "b" "ar_cursor a' = Some (FormatInt (int k))" "ar_table a' = t" "ar_batch a' = []" "ar_pos a' = ar_pos a"
        using assms(3) False s Inr k(2) by (auto simp: ar_flush_def saveOffset_def Let_def)
      have "cursor_ok cd holds log a'" using a'(2,3) k unfolding cursor_ok_def by auto
      moreover have "worker_ok cd holds log a'" using a' w(2) all unfolding worker_ok_def by simp
      ultimately show ?thesis by simp
    qed
  qed
qed

lemma stop_unless_ok:
  assumes "cursor_ok cd holds log a' \<and> (b \<longrightarrow> worker_ok cd holds log a')"
  shows "ok cd log (stop_unless (b, a'))"
  using assms by (auto simp: stop_unless_def cursor_ok_def worker_ok_def)

lemma stopped_ok: "cursor_ok cd holds log a \<Longrightarrow> ok cd log (a\<lparr>ar_running := False\<rparr>)"
  by (simp add: cursor_ok_def worker_ok_def)

lemma NewWorker_ok:
  assumes "ok cd log a" "length log < 2 ^ 63" "\<not> ar_running a"
  shows "ok cd log (NewWorker redisFault seekFault a)"
proof -
  have c: "cursor_ok cd holds log (a\<lparr>ar_running := r, ar_pos := p, ar_batch := [], ar_last := 0\<rparr>)" for r p
    using assms(1) by (simp add: cursor_ok_def)
  have start: "worker_ok cd holds log (a\<lparr>ar_running := True, ar_pos := p, ar_batch := [], ar_last := 0\<rparr>)"
    if "p \<le> length log" "\<forall>j < p. settled cd holds log (ar_table a) j" for p
    using that by (simp add: worker_ok_def)
  show ?thesis
  proof (cases "seekFault \<or> redisFault \<or> ar_cursor a = None")
    case True
    then show ?thesis using assms(1) c start [of 0] by (auto simp: NewWorker_def Let_def)
  next
    case False
    then obtain s k where k: "ar_cursor a = Some s" "k < length log" "s = FormatInt (int k)"
      "\<forall>j \<le> k. settled cd holds log (ar_table a) j" using assms(1) unfolding cursor_ok_def by blast
    have "int64_range (int k)" using k(2) assms(2) by (simp add: int64_range_def)
    then have "ParseInt s = (int k, None)" using k(3) ParseInt_FormatInt by simp
    then have "NewWorker redisFault seekFault a = a\<lparr>ar_running := True, ar_pos := Suc k, ar_batch := [], ar_last := 0\<rparr>"
      using False k(1) by (simp add: NewWorker_def nat_add_distrib)
    with c start [of "Suc k"] k(2,4) show ?thesis by (simp add: less_Suc_eq_le)
  qed
qed

lemma take_in_ok:
  assumes "ok cd log a" "ar_running a" "ar_pos a < length log" "Unmarshal cd now (log ! ar_pos a) = Inr e"
    and "env_MessageID e > 0" "env_RoomSeq e > 0"
  shows "ok cd log (take_in e a)" "ar_running (take_in e a)"
proof -
  let ?n = "length (ar_batch a)"
  have f: "ar_cursor (take_in e a) = ar_cursor a" "ar_table (take_in e a) = ar_table a" "ar_pos (take_in e a) = Suc (ar_pos a)"
    "ar_batch (take_in e a) = ar_batch a @ [message_of_envelope e]" "ar_last (take_in e a) = int (ar_pos a)"
    "length (ar_batch (take_in e a)) = Suc ?n"
    by (simp_all add: take_in_def)
  have hand: "in_hand cd log (ar_pos a) (message_of_envelope e)"
    using assms(4-6) unfolding in_hand_def by blast
  have w: "?n \<le> ar_pos a" "\<forall>j < ar_pos a - ?n. settled cd holds log (ar_table a) j"
    "\<forall>i < ?n. in_hand cd log (ar_pos a - ?n + i) (ar_batch a ! i)"
    using assms(1,2) unfolding worker_ok_def by auto
  have h: "in_hand cd log (ar_pos a - ?n + i) ((ar_batch a @ [message_of_envelope e]) ! i)" if "i < Suc ?n" for i
    using that w(1,3) hand by (cases "i = ?n") (simp_all add: nth_append)
  have "worker_ok cd holds log (take_in e a)"
    unfolding worker_ok_def f(2,3,5,6) diff_Suc_Suc unfolding f(4)
  proof (intro impI conjI allI)
    show "Suc ?n \<le> Suc (ar_pos a)" using w(1) by simp
    show "Suc (ar_pos a) \<le> length log" using assms(3) by simp
    show "int (ar_pos a) = int (Suc (ar_pos a)) - 1" by simp
  qed (use w(2) h in blast)+
  moreover have "cursor_ok cd holds log (take_in e a)" using assms(1) unfolding cursor_ok_def f by blast
  ultimately show "ok cd log (take_in e a)" by simp
  show "ar_running (take_in e a)" using assms(2) by (simp add: take_in_def)
qed

lemma read_record_ok:
  assumes "ok cd log a" "ar_running a"
  shows "ok cd log (read_record cd enc save log now fl a)"
proof (cases rule: read_record_cases [of log a cd enc save now fl])
  case (accepted e)
  obtain b a2 where r: "ar_flush enc save fl (take_in e a) = (b, a2)" by (rule prod.exhaust)
  note t = take_in_ok [OF assms accepted(1-4)]
  have "ok cd log (stop_unless (b, a2))" by (rule stop_unless_ok [OF flush_ok [OF t r]])
  with t accepted(5) r show ?thesis by simp
qed (use assms(1) stopped_ok in simp_all)

lemma step_ok:
  assumes "ok cd log a" "length log < 2 ^ 63"
  shows "ok cd log (ar_step cd enc save log ev a)"
proof (cases ev)
  case (AStart r s)
  with assms NewWorker_ok show ?thesis by (simp add: ar_step_def)
next
  case (ARead now fl)
  with assms read_record_ok show ?thesis by (simp add: ar_step_def)
next
  case AReadError
  with assms show ?thesis by (simp add: ar_step_def)
next
  case (ATick fl)
  obtain b a2 where r: "ar_flush enc save fl a = (b, a2)" by (rule prod.exhaust)
  have "ok cd log (stop_unless (b, a2))" if "ar_running a"
    by (rule stop_unless_ok [OF flush_ok [OF assms(1) that r]])
  with ATick r assms(1) show ?thesis by (simp add: ar_step_def)
next
  case (ACancel fl)
  obtain b a2 where r: "ar_flush enc save fl a = (b, a2)" by (rule prod.exhaust)
  have "ok cd log (a2\<lparr>ar_running := False\<rparr>)" if "ar_running a"
    using flush_ok [OF assms(1) that r] by (intro stopped_ok) (rule conjunct1)
  with ACancel r assms(1) show ?thesis by (simp add: ar_step_def)
next
  case ACrash
  with assms show ?thesis by (simp add: ar_step_def cursor_ok_def worker_ok_def)
qed

lemma run_ok:
  assumes "length log < 2 ^ 63"
  shows "ok cd log (fold (ar_step cd enc save log) evs (ar_init t))"
proof (induction evs rule: rev_induct)
  case Nil
  show ?case by (simp add: ar_init_def cursor_ok_def worker_ok_def)
next
  case (snoc ev evs)
  then show ?case using step_ok assms by simp
qed

end

section \<open>The two stores keep the contract\<close>

text \<open>The Mongo store keeps no message without a client identifier.\<close>

definition mongo_archived :: "collection \<Rightarrow> Message \<Rightarrow> bool" where
  "mongo_archived c m \<longleftrightarrow> (msg_ClientMsgID m \<noteq> [] \<longrightarrow> archived (map ToMessage c) m)"

lemma bulk_write_grows: "bulk_write ds c = (b, c') \<Longrightarrow> \<exists>new. c' = c @ new"
proof (induction ds arbitrary: c)
  case (Cons d ds)
  then show ?case by (fastforce split: if_splits)
qed simp

lemma mongo_save_cases:
  assumes "mongo_SaveMessageBatch fault ms c = (res, c')"
  shows "(\<exists>new. c' = c @ new) \<and> (\<forall>ms'. res = Inr ms' \<longrightarrow>
    (\<forall>m \<in> set ms. msg_ClientMsgID m = []) \<or>
    reconcile_all ms (map ToMessage (filter (\<lambda>d. doc_ClientMsgID d \<in> set (map msg_ClientMsgID ms)) c')) = Inr ms')"
proof -
  let ?w = "filter (\<lambda>d. doc_ClientMsgID d \<noteq> []) (map ToMessageDocument ms)"
  obtain b c1 where b: "bulk_write ?w c = (b, c1)" by (rule prod.exhaust)
  consider "?w = []" | "?w \<noteq> []" "fault 0 \<or> \<not> b \<or> fault 1" | "?w \<noteq> []" "\<not> fault 0" "b" "\<not> fault 1" by blast
  then show ?thesis
  proof cases
    case 1
    then have "\<forall>m \<in> set ms. msg_ClientMsgID m = []" by (simp add: filter_empty_conv ToMessageDocument_def)
    with 1 assms show ?thesis by (simp add: mongo_SaveMessageBatch_def)
  next
    case 2
    then have "\<exists>e. res = Inl e" "c' = c \<or> c' = c1"
      using assms b by (auto simp: mongo_SaveMessageBatch_def Let_def split: if_splits bool.splits)
    with bulk_write_grows [OF b] show ?thesis by auto
  next
    case 3
    then have "res = reconcile_all ms (map ToMessage (filter (\<lambda>d. doc_ClientMsgID d \<in> set (map msg_ClientMsgID ms)) c1)) \<and>
      c' = c1" using assms b by (auto simp: mongo_SaveMessageBatch_def Let_def)
    with bulk_write_grows [OF b] show ?thesis by simp
  qed
qed

interpretation my: message_repository mysql_SaveMessageBatch archived
proof unfold_locales
  fix fault ms t ms' t' m
  assume "mysql_SaveMessageBatch fault ms t = (Inr ms', t')" "m \<in> set ms" "msg_RoomSeq m > 0"
  then show "archived t' m" by (rule save_archives)
next
  fix fault ms t res t' m
  assume "mysql_SaveMessageBatch fault ms t = (res, t')" "archived t m"
  then show "archived t' m" using save_grows archived_mono by blast
qed

interpretation mg: message_repository mongo_SaveMessageBatch mongo_archived
proof unfold_locales
  fix fault ms c ms' c' m
  assume a: "mongo_SaveMessageBatch fault ms c = (Inr ms', c')" "m \<in> set ms" "msg_RoomSeq m > 0"
  let ?f = "filter (\<lambda>d. doc_ClientMsgID d \<in> set (map msg_ClientMsgID ms)) c'"
  have "archived (map ToMessage ?f) m" if "msg_ClientMsgID m \<noteq> []"
  proof -
    have "reconcile_all ms (map ToMessage ?f) = Inr ms'" using mongo_save_cases [OF a(1)] a(2) that by blast
    then show ?thesis using a(2,3) by (rule reconcile_all_stored)
  qed
  then show "mongo_archived c' m" by (auto simp: mongo_archived_def archived_def)
next
  fix fault ms c res c' m
  assume a: "mongo_SaveMessageBatch fault ms c = (res, c')" "mongo_archived c m"
  then obtain new where "c' = c @ new" using mongo_save_cases [OF a(1)] by blast
  with a(2) show "mongo_archived c' m" by (simp add: mongo_archived_def archived_mono)
qed

section \<open>Progress\<close>

text \<open>
  When the archiver can finish: every record of the topic decodes to a numbered message, and two records that
  meet a common unique index are copies of one message, which is what the sequencer puts on the topic.
\<close>

definition readable :: "codec \<Rightarrow> string list \<Rightarrow> bool" where
  "readable cd log \<longleftrightarrow> (\<forall>k < length log. \<forall>now. \<exists>e. Unmarshal cd now (log ! k) = Inr e \<and> env_MessageID e > 0 \<and> env_RoomSeq e > 0)"

definition on_topic :: "codec \<Rightarrow> string list \<Rightarrow> Message \<Rightarrow> bool" where
  "on_topic cd log m \<longleftrightarrow> (\<exists>k < length log. in_hand cd log k m)"

definition consistent :: "codec \<Rightarrow> string list \<Rightarrow> bool" where
  "consistent cd log \<longleftrightarrow> (\<forall>a b. on_topic cd log a \<longrightarrow> on_topic cd log b \<longrightarrow> conflicts a b \<longrightarrow> same_record a b)"

definition calm :: "flush_run \<Rightarrow> bool" where
  "calm fl \<longleftrightarrow> \<not> fl_offset fl \<and> \<not> fl_store fl 0 \<and> \<not> fl_store fl 1 \<and> \<not> fl_store fl 2"

lemma reconcile_all_succeeds:
  assumes "\<And>m. m \<in> set ms \<Longrightarrow> \<exists>r \<in> set t. RequestKey r = RequestKey m"
    and "\<And>m r. m \<in> set ms \<Longrightarrow> r \<in> set t \<Longrightarrow> RequestKey r = RequestKey m \<Longrightarrow> same_record m r"
  shows "\<exists>ms'. reconcile_all ms t = Inr ms'"
  using assms
proof (induction ms)
  case (Cons m ms)
  obtain rest where rest: "reconcile_all ms t = Inr rest" using Cons by auto
  have "find (\<lambda>r. RequestKey r = RequestKey m) t \<noteq> None"
    using Cons.prems(1) [of m] by (auto simp: find_None_iff)
  then obtain r where r: "find (\<lambda>r. RequestKey r = RequestKey m) t = Some r" by blast
  then have "same_record m r" using Cons.prems(2) [of m r] find_SomeD [OF r] by simp
  then have "ReconcileMessage m r = Some r" by (auto simp: ReconcileMessage_def same_record_def)
  with r rest show ?case by simp
qed simp

lemma same_record_key: "same_record a b \<Longrightarrow> RequestKey b = RequestKey a \<and> msg_ClientMsgID b = msg_ClientMsgID a"
  by (simp add: same_record_def RequestKey_def)

lemma save_succeeds:
  assumes "consistent cd log" "\<forall>m \<in> set ms. on_topic cd log m" "\<forall>r \<in> set t. on_topic cd log r"
    and "\<not> fault 0" "\<not> fault 1" "\<not> fault 2"
  shows "\<exists>ms'. mysql_SaveMessageBatch fault ms t = (Inr ms', fold insert_row ms t)"
proof (cases "ms = []")
  case True
  then show ?thesis by (simp add: mysql_SaveMessageBatch_def)
next
  case False
  let ?t1 = "fold insert_row ms t"
  have top: "\<forall>r \<in> set ?t1. on_topic cd log r" using fold_insert_new [of ms t] assms(2,3) by fastforce
  have same: "same_record m r" if "m \<in> set ms" "r \<in> set ?t1" "conflicts m r" for m r
    using assms(1,2) top that unfolding consistent_def by blast
  let ?p = "filter (\<lambda>r. msg_ClientMsgID r \<in> set (map msg_ClientMsgID ms)) ?t1"
  have "\<exists>ms'. reconcile_all ms ?p = Inr ms'"
  proof (rule reconcile_all_succeeds)
    fix m assume m: "m \<in> set ms"
    obtain r where r: "r \<in> set ?t1" "conflicts m r" using fold_insert_covers [OF m] by blast
    with same [OF m r] m show "\<exists>r \<in> set ?p. RequestKey r = RequestKey m" by (auto dest: same_record_key)
  next
    fix m r assume "m \<in> set ms" "r \<in> set ?p" "RequestKey r = RequestKey m"
    then show "same_record m r" using same by (simp add: conflicts_def)
  qed
  then show ?thesis using False assms(4-6) by (auto simp: mysql_SaveMessageBatch_def Let_def)
qed

definition rows_on_topic :: "codec \<Rightarrow> string list \<Rightarrow> table archiver \<Rightarrow> bool" where
  "rows_on_topic cd log a \<longleftrightarrow> (\<forall>r \<in> set (ar_table a). on_topic cd log r)"

definition fine :: "codec \<Rightarrow> string list \<Rightarrow> table archiver \<Rightarrow> bool" where
  "fine cd log a \<longleftrightarrow> my.ok cd log a \<and> rows_on_topic cd log a \<and> ar_running a \<and>
     (ar_batch a = [] \<and> ar_pos a > 0 \<longrightarrow> ar_cursor a = Some (FormatInt (int (ar_pos a) - 1)))"

lemma batch_on_topic:
  assumes "worker_ok cd archived log a" "ar_running a" "m \<in> set (ar_batch a)"
  shows "on_topic cd log m"
proof -
  obtain i where i: "i < length (ar_batch a)" "ar_batch a ! i = m" using assms(3) by (auto simp: in_set_conv_nth)
  with assms(1,2) have "in_hand cd log (ar_pos a - length (ar_batch a) + i) m"
    "ar_pos a - length (ar_batch a) + i < length log" unfolding worker_ok_def by auto
  then show ?thesis unfolding on_topic_def by blast
qed

lemma flush_rows:
  assumes "worker_ok cd archived log a" "ar_running a" "rows_on_topic cd log a"
  shows "rows_on_topic cd log (snd (ar_flush enc mysql_SaveMessageBatch fl a))"
proof -
  obtain res t where s: "mysql_SaveMessageBatch (fl_store fl) (ar_batch a) (ar_table a) = (res, t)" by (rule prod.exhaust)
  have t: "\<forall>r \<in> set t. on_topic cd log r"
    using save_grows [OF s] batch_on_topic [OF assms(1,2)] assms(3) unfolding rows_on_topic_def by fastforce
  have "ar_table (snd (ar_flush enc mysql_SaveMessageBatch fl a)) = (if ar_batch a = [] then ar_table a else t)"
    using s by (cases res) (simp_all add: ar_flush_def saveOffset_def Let_def)
  with t assms(3) show ?thesis unfolding rows_on_topic_def by simp
qed

lemma stop_unless_table [simp]: "ar_table (stop_unless r) = ar_table (snd r)"
  by (cases r) (simp add: stop_unless_def)

lemma step_rows:
  assumes "my.ok cd log a" "rows_on_topic cd log a"
  shows "rows_on_topic cd log (ar_step cd enc mysql_SaveMessageBatch log ev a)"
proof (cases ev)
  case (ARead now fl)
  show ?thesis
  proof (cases "ar_running a")
    case True
    have rows: "rows_on_topic cd log (take_in e a)" for e using assms(2) by (simp add: rows_on_topic_def take_in_def)
    show ?thesis
    proof (cases rule: read_record_cases [of log a cd enc mysql_SaveMessageBatch now fl])
      case (accepted e)
      note t = my.take_in_ok [OF assms(1) True accepted(1-4)]
      with flush_rows [OF _ t(2) rows, of enc fl] have "rows_on_topic cd log (stop_unless (ar_flush enc mysql_SaveMessageBatch fl (take_in e a)))"
        by (simp add: rows_on_topic_def)
      with accepted(5) rows ARead True show ?thesis by (simp add: ar_step_def)
    qed (use assms(2) ARead True in \<open>simp_all add: ar_step_def rows_on_topic_def\<close>)
  qed (use assms(2) ARead in \<open>simp add: ar_step_def\<close>)
next
  case (ATick fl)
  then show ?thesis using flush_rows [of cd log a enc fl] assms by (simp add: ar_step_def rows_on_topic_def)
next
  case (ACancel fl)
  then show ?thesis using flush_rows [of cd log a enc fl] assms by (simp add: ar_step_def rows_on_topic_def)
qed (use assms(2) in \<open>simp_all add: ar_step_def rows_on_topic_def NewWorker_def Let_def\<close>)

lemma calm_flush:
  assumes "my.ok cd log a" "rows_on_topic cd log a" "ar_running a" "ar_batch a \<noteq> [] \<or> fine cd log a" "consistent cd log" "calm fl"
  obtains a' where "ar_flush enc mysql_SaveMessageBatch fl a = (True, a')" "fine cd log a'" "ar_pos a' = ar_pos a" "ar_batch a' = []"
proof (cases "ar_batch a = []")
  case True
  with assms(4) that [of a] show ?thesis by (simp add: ar_flush_def)
next
  case False
  have top: "\<forall>m \<in> set (ar_batch a). on_topic cd log m" using batch_on_topic assms(1,3) by blast
  obtain ms' where s: "mysql_SaveMessageBatch (fl_store fl) (ar_batch a) (ar_table a) = (Inr ms', fold insert_row (ar_batch a) (ar_table a))"
    using save_succeeds [OF assms(5) top, of "ar_table a" "fl_store fl"] assms(2,6) unfolding rows_on_topic_def calm_def by blast
  define a' where "a' = snd (ar_flush enc mysql_SaveMessageBatch fl a)"
  have r: "ar_flush enc mysql_SaveMessageBatch fl a = (True, a')" "ar_pos a' = ar_pos a" "ar_batch a' = []"
    "ar_running a'" "ar_cursor a' = Some (FormatInt (ar_last a))"
    using False s assms(3,6) unfolding a'_def by (simp_all add: ar_flush_def saveOffset_def Let_def calm_def)
  have "my.ok cd log a'" using my.flush_ok [OF assms(1,3) r(1)] by simp
  moreover have "rows_on_topic cd log a'" using flush_rows [OF _ assms(3,2)] assms(1) unfolding a'_def by blast
  moreover have "ar_last a = int (ar_pos a) - 1" using assms(1,3) False unfolding worker_ok_def by blast
  ultimately have "fine cd log a'" using r unfolding fine_def by simp
  with that r show ?thesis by blast
qed

lemma calm_read:
  assumes "fine cd log a" "readable cd log" "consistent cd log" "calm fl"
  shows "fine cd log (read_record cd enc mysql_SaveMessageBatch log now fl a) \<and>
    ar_pos (read_record cd enc mysql_SaveMessageBatch log now fl a) = min (length log) (Suc (ar_pos a))"
proof -
  have a: "my.ok cd log a" "rows_on_topic cd log a" "ar_running a" "ar_pos a \<le> length log"
    using assms(1) unfolding fine_def worker_ok_def by blast+
  show ?thesis
  proof (cases rule: read_record_cases [of log a cd enc mysql_SaveMessageBatch now fl])
    case waits
    with assms(1) a(4) show ?thesis by simp
  next
    case stops
    then show ?thesis using assms(2) unfolding readable_def by (meson not_le)
  next
    case (accepted e)
    note t = my.take_in_ok [OF a(1,3) accepted(1-4)]
    have rows: "rows_on_topic cd log (take_in e a)" using a(2) by (simp add: rows_on_topic_def take_in_def)
    have b: "ar_batch (take_in e a) \<noteq> []" "ar_pos (take_in e a) = Suc (ar_pos a)" by (simp_all add: take_in_def)
    obtain a' where r: "ar_flush enc mysql_SaveMessageBatch fl (take_in e a) = (True, a')" "fine cd log a'"
      "ar_pos a' = ar_pos (take_in e a)"
      using calm_flush [OF t(1) rows t(2) disjI1 [OF b(1)] assms(3,4)] by blast
    have "fine cd log (take_in e a)" using t rows b(1) unfolding fine_def by blast
    with r accepted(1,5) b(2) show ?thesis by (simp add: stop_unless_def)
  qed
qed

lemma calm_reads:
  assumes "fine cd log a" "readable cd log" "consistent cd log" "calm fl"
  shows "fine cd log (fold (ar_step cd enc mysql_SaveMessageBatch log) (replicate n (ARead now fl)) a) \<and>
    ar_pos (fold (ar_step cd enc mysql_SaveMessageBatch log) (replicate n (ARead now fl)) a) = min (length log) (ar_pos a + n)"
  using assms(1)
proof (induction n arbitrary: a)
  case 0
  then show ?case by (auto simp: fine_def worker_ok_def)
next
  case (Suc n)
  have "ar_step cd enc mysql_SaveMessageBatch log (ARead now fl) a = read_record cd enc mysql_SaveMessageBatch log now fl a"
    using Suc.prems by (simp add: ar_step_def fine_def)
  with Suc.IH [OF conjunct1 [OF calm_read [OF Suc.prems assms(2-4)]]] calm_read [OF Suc.prems assms(2-4)]
  show ?case by (simp only: replicate_Suc fold_simps) (simp add: min_def)
qed

lemma start_fine:
  assumes "my.ok cd log a" "length log < 2 ^ 63" "rows_on_topic cd log a" "\<not> ar_running a"
  shows "fine cd log (NewWorker False False a)"
proof -
  have ok: "my.ok cd log (NewWorker False False a)" by (rule my.NewWorker_ok [OF assms(1,2,4)])
  have rows: "rows_on_topic cd log (NewWorker False False a)"
    using assms(3) by (simp add: rows_on_topic_def NewWorker_def Let_def)
  show ?thesis
  proof (cases "ar_cursor a")
    case None
    with ok rows show ?thesis by (simp add: fine_def NewWorker_def)
  next
    case (Some s)
    then obtain k where k: "k < length log" "s = FormatInt (int k)" using assms(1) unfolding cursor_ok_def by blast
    have "int64_range (int k)" using k(1) assms(2) by (simp add: int64_range_def)
    then have "ParseInt s = (int k, None)" using k(2) ParseInt_FormatInt by simp
    with Some k(2) ok rows show ?thesis by (simp add: fine_def NewWorker_def nat_add_distrib)
  qed
qed

lemma run_rows:
  assumes "length log < 2 ^ 63"
  shows "rows_on_topic cd log (fold (ar_step cd enc mysql_SaveMessageBatch log) evs (ar_init []))"
proof (induction evs rule: rev_induct)
  case Nil
  show ?case by (simp add: ar_init_def rows_on_topic_def)
next
  case (snoc ev evs)
  then show ?case using step_rows [OF my.run_ok [OF assms]] by simp
qed

section \<open>Properties\<close>

text \<open>
  C24: the archiver loses nothing. Whatever the order of starts, reads, flushes, cancellations and crashes, and
  whichever calls to the store and to Redis fail, the saved position is the offset of a record of the topic, and
  every record up to it is numbered and in the store, under both stores (Mongo leaves out messages without a
  client identifier); so a restart at the next record skips no message.
\<close>

theorem archive_no_loss:
  assumes "length log < 2 ^ 63"
  shows "(\<forall>s. ar_cursor (fold (ar_step cd enc mysql_SaveMessageBatch log) evs (ar_init t)) = Some s \<longrightarrow>
      (\<exists>k < length log. s = FormatInt (int k) \<and>
         (\<forall>j \<le> k. settled cd archived log (ar_table (fold (ar_step cd enc mysql_SaveMessageBatch log) evs (ar_init t))) j))) \<and>
    (\<forall>s. ar_cursor (fold (ar_step cd enc mongo_SaveMessageBatch log) evs (ar_init c)) = Some s \<longrightarrow>
      (\<exists>k < length log. s = FormatInt (int k) \<and>
         (\<forall>j \<le> k. settled cd mongo_archived log (ar_table (fold (ar_step cd enc mongo_SaveMessageBatch log) evs (ar_init c))) j)))"
  using my.run_ok [OF assms] mg.run_ok [OF assms] unfolding cursor_ok_def by blast


section \<open>Witnesses\<close>

definition sample_codec :: codec where
  "sample_codec = table_codec [(to_chat_message sample_envelope, ''x'')]"

definition sample_flush :: flush_run where
  "sample_flush = \<lparr>fl_store = (\<lambda>_. False), fl_sent = 0, fl_now = 0, fl_offset = False\<rparr>"

lemma sample_decodes: "Unmarshal sample_codec now ''x'' = Inr sample_envelope"
proof -
  have "pb_laws sample_codec" unfolding sample_codec_def by (rule table_codec_laws) simp_all
  moreover have "Marshal sample_codec sample_envelope = Inr ''x''" by (simp add: Marshal_def sample_codec_def table_codec_def)
  moreover have "wire_normal now sample_envelope = sample_envelope" by (rule wire_normal_id) (simp_all add: sample_envelope_def)
  moreover have "int8_range (env_Type sample_envelope)" "env_RoomID sample_envelope \<noteq> 0"
    by (simp_all add: sample_envelope_def int8_range_1)
  ultimately show ?thesis using Unmarshal_Marshal by metis
qed

theorem archive_no_loss_witness:
  "\<exists>k < 1. ''0'' = FormatInt (int k) \<and> (\<forall>j \<le> k. settled sample_codec archived [''x'']
     (ar_table (fold (ar_step sample_codec (\<lambda>_. None) mysql_SaveMessageBatch [''x''])
        [AStart False False, ARead 3 sample_flush, ATick sample_flush] (ar_init []))) j)"
proof -
  have c: "ar_cursor (fold (ar_step sample_codec (\<lambda>_. None) mysql_SaveMessageBatch [''x''])
      [AStart False False, ARead 3 sample_flush, ATick sample_flush] (ar_init [])) = Some ''0''" by code_simp
  have l: "length [''x''] < 2 ^ 63" by simp
  show ?thesis
    using spec [OF conjunct1 [OF archive_no_loss [OF l, of sample_codec "\<lambda>_. None"
            "[AStart False False, ARead 3 sample_flush, ATick sample_flush]" "[]" "[]"]], of "''0''", THEN mp, OF c]
    unfolding list.size by simp
qed


end
