(* ===== verification/AdminControl.thy ===== *)
theory AdminControl
  imports Rooms
begin

text \<open>
  How the administration reaches the running hub: the interface \<^verbatim>\<open>RuntimeController\<close>
  (\<^verbatim>\<open>services/admin/application/runtime.go\<close>), its local implementation (\<^verbatim>\<open>control/local.go\<close>) and the gRPC client and
  server that carry it to another process (\<^verbatim>\<open>control/grpc_client.go\<close>, \<^verbatim>\<open>control/grpc_server.go\<close>).

  The locale \<open>runtime_controller\<close> states what the services may rely on: a call that reports success has had
  exactly its effect on the hub, a call that reports an error has had its effect or none. It is interpreted on
  both implementations. What the network does to a remote call is the argument \<open>wire\<close>.
\<close>

section \<open>The local controller\<close>

text \<open>The hub of a process, if it has one; a call without a hub is an error.\<close>

datatype control_call = CallClose string | CallKick int | CallDisband int | CallRemoveMember int int

fun call_effect :: "control_call \<Rightarrow> Hub \<Rightarrow> Hub" where
  "call_effect (CallClose connID) h = CloseConnection connID h"
| "call_effect (CallKick userID) h = Kick userID h"
| "call_effect (CallDisband roomID) h = DisbandRoom roomID h"
| "call_effect (CallRemoveMember roomID userID) h = LeaveRoom userID roomID h"

definition lc_CloseConnection :: "string \<Rightarrow> Hub option \<Rightarrow> bool \<times> Hub option" where
  "lc_CloseConnection connectionID hub = (case hub of None \<Rightarrow> (False, None) | Some h \<Rightarrow> (True, Some (CloseConnection connectionID h)))"

definition lc_KickUser :: "int \<Rightarrow> Hub option \<Rightarrow> bool \<times> Hub option" where
  "lc_KickUser userID hub = (case hub of None \<Rightarrow> (False, None) | Some h \<Rightarrow> (True, Some (Kick userID h)))"

definition lc_DisbandRoom :: "int \<Rightarrow> Hub option \<Rightarrow> bool \<times> Hub option" where
  "lc_DisbandRoom roomID hub = (case hub of None \<Rightarrow> (False, None) | Some h \<Rightarrow> (True, Some (DisbandRoom roomID h)))"

definition lc_RemoveRoomMember :: "int \<Rightarrow> int \<Rightarrow> Hub option \<Rightarrow> bool \<times> Hub option" where
  "lc_RemoveRoomMember roomID userID hub = (case hub of None \<Rightarrow> (False, None) | Some h \<Rightarrow> (True, Some (LeaveRoom userID roomID h)))"

definition lc_ListConnections :: "Hub option \<Rightarrow> ConnectionSnapshot list" where
  "lc_ListConnections hub = (case hub of None \<Rightarrow> [] | Some h \<Rightarrow> Connections h)"

definition lc_HubStats :: "Hub option \<Rightarrow> HubStats option" where
  "lc_HubStats hub = map_option Stats hub"

fun local_call :: "control_call \<Rightarrow> Hub option \<Rightarrow> bool \<times> Hub option" where
  "local_call (CallClose connID) hub = lc_CloseConnection connID hub"
| "local_call (CallKick userID) hub = lc_KickUser userID hub"
| "local_call (CallDisband roomID) hub = lc_DisbandRoom roomID hub"
| "local_call (CallRemoveMember roomID userID) hub = lc_RemoveRoomMember roomID userID hub"

section \<open>The remote controller\<close>

text \<open>
  \<open>values\<close> are the values of the token header of a request. A server without a token lets every call through.
\<close>

definition withToken :: "string \<Rightarrow> string list" where
  "withToken token = (if token = [] then [] else [token])"

definition controlTokenInterceptor :: "string \<Rightarrow> string list \<Rightarrow> bool" where
  "controlTokenInterceptor token values \<longleftrightarrow> token = [] \<or> (values \<noteq> [] \<and> hd values = token)"

datatype wire = Delivered | RequestLost | ReplyLost

definition grpc_call ::
    "string \<Rightarrow> string \<Rightarrow> wire \<Rightarrow> control_call \<Rightarrow> Hub option \<Rightarrow> bool \<times> Hub option" where
  "grpc_call clientToken serverToken w call hub =
     (if w = RequestLost \<or> \<not> controlTokenInterceptor serverToken (withToken clientToken) then (False, hub)
      else
        (case local_call call hub of
           (ok, hub') \<Rightarrow> (ok \<and> w \<noteq> ReplyLost, hub')))"

section \<open>The interface\<close>

type_synonym controller = "control_call \<Rightarrow> Hub option \<Rightarrow> bool \<times> Hub option"

locale runtime_controller =
  fixes call :: controller
  assumes call_done: "call c hub = (True, hub') \<Longrightarrow> hub \<noteq> None \<and> hub' = map_option (call_effect c) hub"
    and call_failed: "call c hub = (False, hub') \<Longrightarrow> hub' = hub \<or> hub' = map_option (call_effect c) hub"
begin

lemma call_cases:
  assumes "call c (Some h) = (ok, hub')"
  shows "hub' = Some (call_effect c h) \<or> (\<not> ok \<and> hub' = Some h)"
  using call_done [of c "Some h"] call_failed [of c "Some h"] assms by (cases ok) auto

lemma call_keeps_hub:
  assumes "call c (Some h) = (ok, hub')"
  obtains h' where "hub' = Some h'"
  using call_cases [OF assms] that by blast

end

lemma local_call_effect:
  "local_call c hub = (hub \<noteq> None, map_option (call_effect c) hub)"
  by (cases c; cases hub)
    (simp_all add: lc_CloseConnection_def lc_KickUser_def lc_DisbandRoom_def lc_RemoveRoomMember_def)

interpretation lc: runtime_controller local_call
  by unfold_locales (auto simp: local_call_effect)

interpretation rc: runtime_controller "grpc_call clientToken serverToken w" for clientToken serverToken w
  by unfold_locales (auto simp: grpc_call_def local_call_effect split: if_splits)

lemma control_token_needed:
  assumes "serverToken \<noteq> []" "clientToken \<noteq> serverToken"
  shows "grpc_call clientToken serverToken w call hub = (False, hub)"
  using assms by (simp add: grpc_call_def controlTokenInterceptor_def withToken_def)

lemma remote_is_local:
  assumes "serverToken = [] \<or> clientToken = serverToken"
  shows "grpc_call clientToken serverToken Delivered = local_call"
  using assms by (intro ext) (auto simp: grpc_call_def controlTokenInterceptor_def withToken_def split: prod.splits)

end
