(* ===== verification/ModerationModel.thy ===== *)
theory ModerationModel
  imports Prelude
begin

text \<open>
  The rows of the moderation log, \<^verbatim>\<open>services/admin/models/moderation_event.go\<close>, and the items that the administration shows
  of them (\<^verbatim>\<open>moderation_dashboard.go\<close>). A \<^verbatim>\<open>float64\<close> that is only copied is carried as its 64 bits.
\<close>

type_synonym float64_bits = int

record ModerationEvent =
  me_ID :: int
  me_MessageID :: int
  me_RoomID :: int
  me_UserID :: int
  me_Username :: string
  me_RoomName :: string
  me_OriginalMsg :: string
  me_Category :: string
  me_RiskLevel :: string
  me_RiskScore :: float64_bits
  me_ModelName :: string
  me_ModelResult :: string
  me_ModelReason :: string
  me_ToolParams :: string
  me_ToolResult :: string
  me_PenaltyStatus :: string
  me_ReviewStatus :: string
  me_ReviewedBy :: int
  me_ReviewedAt :: "time option"
  me_CreatedAt :: time
  me_UpdatedAt :: time

record ModerationEventItem =
  mi_ID :: int
  mi_MessageID :: int
  mi_RoomID :: int
  mi_UserID :: int
  mi_Username :: string
  mi_RoomName :: string
  mi_OriginalMsg :: string
  mi_Category :: string
  mi_RiskLevel :: string
  mi_RiskScore :: float64_bits
  mi_ModelName :: string
  mi_ModelResult :: string
  mi_ModelReason :: string
  mi_ToolParams :: string
  mi_ToolResult :: string
  mi_PenaltyStatus :: string
  mi_ReviewStatus :: string
  mi_CreatedAt :: time

definition moderationItem :: "ModerationEvent \<Rightarrow> ModerationEventItem" where
  "moderationItem item =
     \<lparr>mi_ID = me_ID item, mi_MessageID = me_MessageID item, mi_RoomID = me_RoomID item, mi_UserID = me_UserID item,
      mi_Username = me_Username item, mi_RoomName = me_RoomName item, mi_OriginalMsg = me_OriginalMsg item,
      mi_Category = me_Category item, mi_RiskLevel = me_RiskLevel item, mi_RiskScore = me_RiskScore item,
      mi_ModelName = me_ModelName item, mi_ModelResult = me_ModelResult item, mi_ModelReason = me_ModelReason item,
      mi_ToolParams = me_ToolParams item, mi_ToolResult = me_ToolResult item, mi_PenaltyStatus = me_PenaltyStatus item,
      mi_ReviewStatus = me_ReviewStatus item, mi_CreatedAt = me_CreatedAt item\<rparr>"

definition moderationItems :: "ModerationEvent list \<Rightarrow> ModerationEventItem list" where
  "moderationItems events = map moderationItem events"

text \<open>\<open>startOfDay off value\<close> is midnight before \<open>value\<close> in a zone that is \<open>off\<close> nanoseconds ahead of UTC.\<close>

definition day_length :: time where
  "day_length = 86400000000000"

definition startOfDay :: "time \<Rightarrow> time \<Rightarrow> time" where
  "startOfDay off value = (value + off) div day_length * day_length - off"

lemma startOfDay_bounds: "startOfDay off t \<le> t \<and> t < startOfDay off t + day_length"
proof -
  have "(t + off) div day_length * day_length = t + off - (t + off) mod day_length" by (simp add: minus_mod_eq_div_mult)
  moreover have "0 \<le> (t + off) mod day_length" "(t + off) mod day_length < day_length"
    by (simp_all add: day_length_def)
  ultimately show ?thesis by (simp add: startOfDay_def)
qed

end
