(* ===== verification/AdminState.thy ===== *)
theory AdminState
  imports AdminControl Auth Cache ModerationModel
begin

text \<open>
  The state of the administration and its audit log, \<^verbatim>\<open>services/admin/application/audit.go\<close>.

  The state is the database, the hub, the presence keys and the audit log, oldest entry first. JSON encoding of the
  audited values is the parameter \<open>json\<close>.
\<close>

section \<open>Requests\<close>

text \<open>
  What the handlers of the administration read from a request: the path parameter, the headers the audit log keeps and
  the query parameters. The number of a page starts at 1.
\<close>

record admin_request =
  rq_id :: string
  rq_RequestID :: string
  rq_RemoteIP :: string
  rq_UserAgent :: string

definition admin_name :: "gin_context \<Rightarrow> string" where
  "admin_name c = FormatInt (case cx_user_id c of None \<Rightarrow> 0 | Some i \<Rightarrow> i)"

definition admin_id :: "gin_context \<Rightarrow> int" where
  "admin_id c = (case cx_user_id c of None \<Rightarrow> 0 | Some i \<Rightarrow> i)"

record AuditAction =
  aa_AdminUserID :: int
  aa_AdminName :: string
  aa_RequestID :: string
  aa_RemoteIP :: string
  aa_UserAgent :: string

definition adminAuditAction :: "gin_context \<Rightarrow> admin_request \<Rightarrow> AuditAction" where
  "adminAuditAction c rq =
     \<lparr>aa_AdminUserID = admin_id c, aa_AdminName = admin_name c, aa_RequestID = rq_RequestID rq,
      aa_RemoteIP = rq_RemoteIP rq, aa_UserAgent = rq_UserAgent rq\<rparr>"

definition DefaultQuery :: "string option \<Rightarrow> string \<Rightarrow> string" where
  "DefaultQuery q def = (case q of None \<Rightarrow> def | Some v \<Rightarrow> v)"

definition page_params :: "string option \<Rightarrow> string option \<Rightarrow> int \<times> int" where
  "page_params page pageSize =
     (let p = fst (ParseInt (DefaultQuery page ''1''));
          n = fst (ParseInt (DefaultQuery pageSize ''20''))
      in (if p < 1 then 1 else p, if n < 1 \<or> n > 100 then 20 else n))"

text \<open>
  \<^verbatim>\<open>Offset((page - 1) * pageSize).Limit(pageSize)\<close> on the rows of a query: the product wraps, and an offset that is not
  positive is left out.
\<close>

definition page_of :: "int \<Rightarrow> int \<Rightarrow> 'a list \<Rightarrow> 'a list" where
  "page_of page pageSize rows = take (nat pageSize) (drop (nat (wrap64 ((page - 1) * pageSize))) rows)"

lemma page_params_bounds:
  "page_params p n = (page, pageSize) \<Longrightarrow> 1 \<le> page \<and> 1 \<le> pageSize \<and> pageSize \<le> 100"
  by (auto simp: page_params_def Let_def split: if_splits)

text \<open>Consecutive pages make up the rows.\<close>

lemma page_of_nth:
  assumes "int (m * n) < 2 ^ 63"
  shows "page_of (int m + 1) (int n) xs = take n (drop (m * n) xs)"
proof -
  have "- (2 ^ 63) \<le> int (m * n)" by (rule order_trans [of _ 0]) simp_all
  with assms have r: "int64_range (int (m * n))" unfolding int64_range_def by blast
  have e: "int m * int n = int (m * n)" by simp
  have "nat (wrap64 (int m * int n)) = m * n" unfolding e wrap64_id [OF r] by (rule nat_int)
  then show ?thesis by (simp add: page_of_def)
qed

lemma concat_pages:
  assumes "int (m * n) < 2 ^ 63"
  shows "concat (map (\<lambda>k. page_of (int k + 1) (int n) xs) [0..<m]) = take (m * n) xs"
  using assms
proof (induction m)
  case (Suc m)
  have lt: "int (m * n) < 2 ^ 63" using Suc.prems by simp
  show ?case using Suc.IH [OF lt] page_of_nth [OF lt, of xs] by (simp add: take_add add.commute [of n])
qed simp

section \<open>The audit log\<close>

datatype audit_value =
    ANil
  | AString string
  | AUser int string int int
  | ARoom int string bool bool int
  | AModeration ModerationEventItem

record AuditEntry =
  ae_AdminUserID :: int
  ae_AdminUsername :: string
  ae_Action :: string
  ae_TargetType :: string
  ae_TargetID :: string
  ae_BeforeData :: audit_value
  ae_AfterData :: audit_value
  ae_RequestID :: string
  ae_RemoteIP :: string
  ae_UserAgent :: string
  ae_Result :: string
  ae_ErrorMessage :: string

record AdminAuditLog =
  al_ID :: int
  al_AdminUserID :: int
  al_AdminUsername :: string
  al_Action :: string
  al_TargetType :: string
  al_TargetID :: string
  al_BeforeData :: string
  al_AfterData :: string
  al_RequestID :: string
  al_RemoteIP :: string
  al_UserAgent :: string
  al_Result :: string
  al_ErrorMessage :: string
  al_CreatedAt :: time

record admin_state =
  as_db :: DB
  as_hub :: "Hub option"
  as_presence :: presence
  as_audit :: "AdminAuditLog list"
  as_nextAudit :: int

definition marshalAuditData :: "(audit_value \<Rightarrow> string option) \<Rightarrow> audit_value \<Rightarrow> string" where
  "marshalAuditData json data =
     (case data of
        ANil \<Rightarrow> []
      | AString v \<Rightarrow> v
      | _ \<Rightarrow> (case json data of None \<Rightarrow> [] | Some raw \<Rightarrow> raw))"

definition audit_Log :: "(audit_value \<Rightarrow> string option) \<Rightarrow> bool \<Rightarrow> time \<Rightarrow> AuditEntry \<Rightarrow> admin_state \<Rightarrow> bool \<times> admin_state" where
  "audit_Log json fault now entry s =
     (if fault then (False, s)
      else
        (let record =
               \<lparr>al_ID = as_nextAudit s, al_AdminUserID = ae_AdminUserID entry, al_AdminUsername = ae_AdminUsername entry,
                al_Action = ae_Action entry, al_TargetType = ae_TargetType entry, al_TargetID = ae_TargetID entry,
                al_BeforeData = marshalAuditData json (ae_BeforeData entry),
                al_AfterData = marshalAuditData json (ae_AfterData entry),
                al_RequestID = ae_RequestID entry, al_RemoteIP = ae_RemoteIP entry, al_UserAgent = ae_UserAgent entry,
                al_Result = ae_Result entry, al_ErrorMessage = ae_ErrorMessage entry, al_CreatedAt = now\<rparr>
         in (True, s\<lparr>as_audit := as_audit s @ [record], as_nextAudit := as_nextAudit s + 1\<rparr>)))"

definition success_entry :: "string \<Rightarrow> string \<Rightarrow> string \<Rightarrow> audit_value \<Rightarrow> audit_value \<Rightarrow> AuditAction \<Rightarrow> AuditEntry" where
  "success_entry what ttype target before aft action =
     \<lparr>ae_AdminUserID = aa_AdminUserID action, ae_AdminUsername = aa_AdminName action, ae_Action = what,
      ae_TargetType = ttype, ae_TargetID = target, ae_BeforeData = before, ae_AfterData = aft,
      ae_RequestID = aa_RequestID action, ae_RemoteIP = aa_RemoteIP action, ae_UserAgent = aa_UserAgent action,
      ae_Result = ''success'', ae_ErrorMessage = []\<rparr>"

record AuditListQuery =
  aq_Page :: int
  aq_PageSize :: int
  aq_Keyword :: string
  aq_AdminUserID :: int
  aq_Action :: string
  aq_TargetType :: string
  aq_TargetID :: string
  aq_Result :: string
  aq_Start :: time
  aq_End :: time

text \<open>\<open>like\<close> is the collation's test for the pattern \<^verbatim>\<open>keyword%\<close>. The page and its size are positive.\<close>

definition audit_match :: "(string \<Rightarrow> string \<Rightarrow> bool) \<Rightarrow> AuditListQuery \<Rightarrow> AdminAuditLog \<Rightarrow> bool" where
  "audit_match like q a \<longleftrightarrow>
     (aq_Keyword q \<noteq> [] \<longrightarrow> like (aq_Keyword q) (al_Action a) \<or> like (aq_Keyword q) (al_TargetType a) \<or>
        like (aq_Keyword q) (al_TargetID a) \<or> like (aq_Keyword q) (al_AdminUsername a)) \<and>
     (aq_AdminUserID q > 0 \<longrightarrow> al_AdminUserID a = aq_AdminUserID q) \<and>
     (aq_Action q \<noteq> [] \<longrightarrow> al_Action a = aq_Action q) \<and>
     (aq_TargetType q \<noteq> [] \<longrightarrow> al_TargetType a = aq_TargetType q) \<and>
     (aq_TargetID q \<noteq> [] \<longrightarrow> al_TargetID a = aq_TargetID q) \<and>
     (aq_Result q \<noteq> [] \<longrightarrow> al_Result a = aq_Result q) \<and>
     (\<not> IsZero (aq_Start q) \<longrightarrow> aq_Start q \<le> al_CreatedAt a) \<and>
     (\<not> IsZero (aq_End q) \<longrightarrow> al_CreatedAt a < aq_End q)"

definition audit_List ::
    "(string \<Rightarrow> string \<Rightarrow> bool) \<Rightarrow> bool \<Rightarrow> AuditListQuery \<Rightarrow> admin_state \<Rightarrow> db_error + (AdminAuditLog list \<times> nat)" where
  "audit_List like fault q s =
     (if fault then Inl DBFailure
      else
        (let rows = filter (audit_match like q) (as_audit s)
         in Inr (page_of (aq_Page q) (aq_PageSize q) (rev (sort_key al_ID rows)), length rows)))"

text \<open>The query parameters of the listing; the times are parsed already, a text that is none is the zero time.\<close>

record audit_params =
  ap_page :: "string option"
  ap_pageSize :: "string option"
  ap_keyword :: string
  ap_adminUserID :: "string option"
  ap_action :: string
  ap_targetType :: string
  ap_targetID :: string
  ap_result :: string
  ap_start :: time
  ap_end :: time

definition AdminAuditList ::
    "(string \<Rightarrow> string \<Rightarrow> bool) \<Rightarrow> bool \<Rightarrow> bool \<Rightarrow> audit_params \<Rightarrow> admin_state \<Rightarrow>
     http_status \<times> (AdminAuditLog list \<times> nat) option" where
  "AdminAuditList like up fault p s =
     (if \<not> up then (Unavailable, None)
      else
        (let (page, pageSize) = page_params (ap_page p) (ap_pageSize p)
         in case audit_List like fault
                   \<lparr>aq_Page = page, aq_PageSize = pageSize, aq_Keyword = ap_keyword p,
                    aq_AdminUserID = fst (ParseInt (DefaultQuery (ap_adminUserID p) ''0'')), aq_Action = ap_action p,
                    aq_TargetType = ap_targetType p, aq_TargetID = ap_targetID p, aq_Result = ap_result p,
                    aq_Start = ap_start p, aq_End = ap_end p\<rparr> s of
              Inl _ \<Rightarrow> (ServerError, None)
            | Inr r \<Rightarrow> (OK, Some r)))"

lemma AdminAuditList_page:
  assumes "AdminAuditList like up fault p s = (OK, Some (items, n))"
  shows "length items \<le> 100 \<and> length items \<le> n \<and> set items \<subseteq> set (as_audit s) \<and> n \<le> length (as_audit s)"
proof -
  obtain page pageSize where pp: "page_params (ap_page p) (ap_pageSize p) = (page, pageSize)" by (rule prod.exhaust)
  have b: "pageSize \<le> 100" using page_params_bounds [OF pp] by simp
  obtain q where i: "items = page_of page pageSize (rev (sort_key al_ID (filter (audit_match like q) (as_audit s))))"
    and n: "n = length (filter (audit_match like q) (as_audit s))"
    using assms by (auto simp: AdminAuditList_def pp audit_List_def Let_def split: if_splits)
  have "set items \<subseteq> set (as_audit s)" unfolding i page_of_def
    by (auto dest!: in_set_takeD in_set_dropD)
  moreover have "length items \<le> nat pageSize" "length items \<le> n" unfolding i n page_of_def by simp_all
  ultimately show ?thesis using b by (simp add: n)
qed

section \<open>Entries\<close>

text \<open>The entry that the audit log owes to an action.\<close>

definition entry_for :: "(audit_value \<Rightarrow> string option) \<Rightarrow> AuditEntry \<Rightarrow> AdminAuditLog \<Rightarrow> bool" where
  "entry_for json e row \<longleftrightarrow> al_AdminUserID row = ae_AdminUserID e \<and> al_AdminUsername row = ae_AdminUsername e \<and>
     al_Action row = ae_Action e \<and> al_TargetType row = ae_TargetType e \<and> al_TargetID row = ae_TargetID e \<and>
     al_BeforeData row = marshalAuditData json (ae_BeforeData e) \<and> al_AfterData row = marshalAuditData json (ae_AfterData e) \<and>
     al_RequestID row = ae_RequestID e \<and> al_RemoteIP row = ae_RemoteIP e \<and> al_UserAgent row = ae_UserAgent e \<and>
     al_Result row = ae_Result e"

lemma audit_Log_cases:
  "audit_Log json fault now e s = (b, s') \<Longrightarrow>
    as_db s' = as_db s \<and> as_hub s' = as_hub s \<and> as_presence s' = as_presence s \<and>
    (if b then \<exists>row. as_audit s' = as_audit s @ [row] \<and> entry_for json e row else s' = s)"
  by (auto simp: audit_Log_def Let_def entry_for_def split: if_splits)

section \<open>A sample request\<close>

text \<open>The administrator with number 1 on the object with number 7.\<close>

definition sample_admin :: gin_context where
  "sample_admin = \<lparr>cx_user_id = Some 1, cx_user_role = Some RoleSuperAdmin, cx_admin_role = None\<rparr>"

definition sample_admin_request :: admin_request where
  "sample_admin_request = \<lparr>rq_id = ''7'', rq_RequestID = ''q'', rq_RemoteIP = ''10.0.0.1'', rq_UserAgent = ''ua''\<rparr>"

lemma parse_7: "ParseInt ''7'' = (7, None)"
proof -
  have "FormatInt 7 = ''7''" by code_simp
  moreover have "int64_range 7" by (simp add: int64_range_def)
  ultimately show ?thesis using ParseInt_FormatInt by metis
qed


end
