(* ===== verification/AdminActions.thy ===== *)
theory AdminActions
  imports AdminState
begin

text \<open>
  What administrators do to users and rooms: \<^verbatim>\<open>ApplyAction\<close> of \<^verbatim>\<open>services/admin/application/user_service.go\<close> and
  \<^verbatim>\<open>room_service.go\<close> and the handlers with their permissions (\<^verbatim>\<open>services/admin/api\<close>). \<open>fault n\<close> says that
  the n-th call to the database fails; \<open>rt\<close> is the runtime controller, if the service has one, and its result is
  judged by the contract of \<open>runtime_controller\<close>. JSON encoding of the audited values is the parameter \<open>json\<close>.
\<close>

section \<open>Users\<close>

datatype action_error =
    LookupFailed db_error
  | UnsupportedAction
  | SaveFailed
  | RuntimeFailed
  | AuditFailed

record UserAction =
  ua_Action :: string
  ua_AdminUserID :: int
  ua_AdminName :: string
  ua_RequestID :: string
  ua_RemoteIP :: string
  ua_UserAgent :: string

definition userAuditItem :: "User \<Rightarrow> audit_value" where
  "userAuditItem user = AUser (us_ID user) (us_Username user) (us_Role user) (us_Status user)"

definition writeUserAudit ::
    "(audit_value \<Rightarrow> string option) \<Rightarrow> bool \<Rightarrow> time \<Rightarrow> User \<Rightarrow> User \<Rightarrow> UserAction \<Rightarrow> admin_state \<Rightarrow> bool \<times> admin_state" where
  "writeUserAudit json fault now before aft action s =
     audit_Log json fault now
       \<lparr>ae_AdminUserID = ua_AdminUserID action, ae_AdminUsername = ua_AdminName action,
        ae_Action = ''user.'' @ ua_Action action, ae_TargetType = ''user'', ae_TargetID = FormatInt (us_ID before),
        ae_BeforeData = userAuditItem before, ae_AfterData = userAuditItem aft, ae_RequestID = ua_RequestID action,
        ae_RemoteIP = ua_RemoteIP action, ae_UserAgent = ua_UserAgent action, ae_Result = ''success'', ae_ErrorMessage = []\<rparr> s"

text \<open>The update that an action makes to the row; \<open>None\<close> for an unknown action.\<close>

definition user_change :: "string \<Rightarrow> User \<Rightarrow> User option" where
  "user_change action user =
     (if action = ''ban'' then Some (user\<lparr>us_Status := 1\<rparr>)
      else if action = ''unban'' then Some (user\<lparr>us_Status := 0\<rparr>)
      else if action = ''role_super_admin'' then Some (user\<lparr>us_Role := RoleSuperAdmin\<rparr>)
      else if action = ''role_moderator'' then Some (user\<lparr>us_Role := RoleModerator\<rparr>)
      else if action = ''role_operator'' then Some (user\<lparr>us_Role := RoleOperator\<rparr>)
      else if action = ''role_user'' then Some (user\<lparr>us_Role := RoleUser\<rparr>)
      else None)"

definition save_user :: "User \<Rightarrow> DB \<Rightarrow> DB" where
  "save_user user db = db\<lparr>db_users := map (\<lambda>u. if us_ID u = us_ID user \<and> us_DeletedAt u = 0 then user else u) (db_users db)\<rparr>"

text \<open>
  \<open>ApplyAction\<close> of the user service. A kick that fails ends the action after the row was saved, without an audit
  entry. The removal of the presence key may fail silently (\<open>redisFault\<close>).
\<close>

definition user_ApplyAction ::
    "(audit_value \<Rightarrow> string option) \<Rightarrow> controller option \<Rightarrow> (nat \<Rightarrow> bool) \<Rightarrow> bool \<Rightarrow> time \<Rightarrow> int \<Rightarrow> UserAction \<Rightarrow> admin_state \<Rightarrow>
     action_error option \<times> admin_state" where
  "user_ApplyAction json rt fault redisFault now userID action s =
     (case GetByID (fault 0) userID (as_db s) of
        Inl e \<Rightarrow> (Some (LookupFailed e), s)
      | Inr before \<Rightarrow>
          (case user_change (ua_Action action) before of
             None \<Rightarrow> (Some UnsupportedAction, s)
           | Some user \<Rightarrow>
               if fault 1 then (Some SaveFailed, s)
               else
                 (let s1 = s\<lparr>as_db := save_user user (as_db s)\<rparr>;
                      kicked =
                        (if ua_Action action = ''ban''
                         then (case rt of
                                 None \<Rightarrow> (True, s1)
                               | Some call \<Rightarrow>
                                   (case call (CallKick userID) (as_hub s1) of
                                      (False, hub') \<Rightarrow> (False, s1\<lparr>as_hub := hub'\<rparr>)
                                    | (True, hub') \<Rightarrow>
                                        (True, s1\<lparr>as_hub := hub', as_presence := SetUserOffline redisFault userID (as_presence s1)\<rparr>)))
                         else (True, s1))
                  in case kicked of
                       (False, s2) \<Rightarrow> (Some RuntimeFailed, s2)
                     | (True, s2) \<Rightarrow>
                         (case writeUserAudit json (fault 2) now before user action s2 of
                            (False, s3) \<Rightarrow> (Some AuditFailed, s3)
                          | (True, s3) \<Rightarrow> (None, s3)))))"

definition adminHasPermission :: "gin_context \<Rightarrow> permission \<Rightarrow> bool" where
  "adminHasPermission c p = (case cx_user_role c of None \<Rightarrow> False | Some role \<Rightarrow> HasPermission role p)"

definition userActionPermission :: "string \<Rightarrow> permission option" where
  "userActionPermission action =
     (if action \<in> set [''ban'', ''unban''] then Some PermUserBan
      else if action \<in> set [''role_super_admin'', ''role_moderator'', ''role_operator'', ''role_user''] then Some PermUserRoleUpdate
      else None)"

text \<open>The body of a request is \<open>None\<close> when it does not bind; a required field is not empty.\<close>

definition AdminUserAction ::
    "(audit_value \<Rightarrow> string option) \<Rightarrow> controller option \<Rightarrow> (nat \<Rightarrow> bool) \<Rightarrow> bool \<Rightarrow> time \<Rightarrow> gin_context \<Rightarrow> admin_request \<Rightarrow>
     string option \<Rightarrow> admin_state \<Rightarrow> http_status \<times> admin_state" where
  "AdminUserAction json rt fault redisFault now c rq body s =
     (case ParseInt (rq_id rq) of
        (_, Some _) \<Rightarrow> (BadRequest, s)
      | (userID, None) \<Rightarrow>
          (case body of
             None \<Rightarrow> (BadRequest, s)
           | Some action \<Rightarrow>
               if action = [] then (BadRequest, s)
               else
                 (case userActionPermission action of
                    None \<Rightarrow> (BadRequest, s)
                  | Some p \<Rightarrow>
                      if \<not> adminHasPermission c p then (Forbidden, s)
                      else
                        (case user_ApplyAction json rt fault redisFault now userID
                                \<lparr>ua_Action = action, ua_AdminUserID = admin_id c, ua_AdminName = admin_name c,
                                 ua_RequestID = rq_RequestID rq, ua_RemoteIP = rq_RemoteIP rq, ua_UserAgent = rq_UserAgent rq\<rparr> s of
                           (Some _, s') \<Rightarrow> (ServerError, s')
                         | (None, s') \<Rightarrow> (OK, s')))))"

section \<open>Rooms\<close>

record RoomAction =
  ra_Action :: string
  ra_AdminUserID :: int
  ra_AdminName :: string
  ra_RequestID :: string
  ra_RemoteIP :: string
  ra_UserAgent :: string
  ra_TargetUserID :: int

definition roomAuditItem :: "Room \<Rightarrow> audit_value" where
  "roomAuditItem room = ARoom (ro_ID room) (ro_Name room) (ro_AgentEnabled room) (ro_ModerationEnabled room) (ro_Status room)"

definition writeRoomAudit ::
    "(audit_value \<Rightarrow> string option) \<Rightarrow> bool \<Rightarrow> time \<Rightarrow> int \<Rightarrow> audit_value \<Rightarrow> audit_value \<Rightarrow> RoomAction \<Rightarrow> admin_state \<Rightarrow>
     bool \<times> admin_state" where
  "writeRoomAudit json fault now roomID before aft action s =
     audit_Log json fault now
       \<lparr>ae_AdminUserID = ra_AdminUserID action, ae_AdminUsername = ra_AdminName action,
        ae_Action = ''room.'' @ ra_Action action, ae_TargetType = ''room'', ae_TargetID = FormatInt roomID,
        ae_BeforeData = before, ae_AfterData = aft, ae_RequestID = ra_RequestID action,
        ae_RemoteIP = ra_RemoteIP action, ae_UserAgent = ra_UserAgent action, ae_Result = ''success'', ae_ErrorMessage = []\<rparr> s"

definition audited :: "bool \<times> admin_state \<Rightarrow> action_error option \<times> admin_state" where
  "audited r = (case r of (False, s) \<Rightarrow> (Some AuditFailed, s) | (True, s) \<Rightarrow> (None, s))"

definition save_room :: "Room \<Rightarrow> DB \<Rightarrow> DB" where
  "save_room room db = db\<lparr>db_rooms := map (\<lambda>r. if ro_ID r = ro_ID room \<and> ro_DeletedAt r = 0 then room else r) (db_rooms db)\<rparr>"

text \<open>A delete by condition succeeds also when no row matches.\<close>

definition delete_member :: "bool \<Rightarrow> int \<Rightarrow> int \<Rightarrow> int \<Rightarrow> DB \<Rightarrow> bool \<times> DB" where
  "delete_member fault now roomID userID db =
     (case repo_RemoveMember fault now roomID userID db of
        (None, db') \<Rightarrow> (True, db')
      | (Some e, db') \<Rightarrow> (e = RecordNotFound, db'))"

definition set_member_role :: "int \<Rightarrow> int \<Rightarrow> int \<Rightarrow> DB \<Rightarrow> DB" where
  "set_member_role roomID userID role db =
     db\<lparr>db_members := map (\<lambda>m. if is_row roomID userID m \<and> mb_DeletedAt m = 0 then m\<lparr>mb_Role := role\<rparr> else m) (db_members db)\<rparr>"

definition updateMemberRole ::
    "(audit_value \<Rightarrow> string option) \<Rightarrow> bool \<Rightarrow> bool \<Rightarrow> time \<Rightarrow> int \<Rightarrow> int \<Rightarrow> int \<Rightarrow> RoomAction \<Rightarrow> admin_state \<Rightarrow>
     action_error option \<times> admin_state" where
  "updateMemberRole json fault auditFault now roomID userID role action s =
     (if fault then (Some SaveFailed, s)
      else audited (writeRoomAudit json auditFault now roomID (ARoom roomID [] False False 0) (ARoom roomID [] False False 0) action
             (s\<lparr>as_db := set_member_role roomID userID role (as_db s)\<rparr>)))"

definition run_runtime :: "controller option \<Rightarrow> control_call \<Rightarrow> admin_state \<Rightarrow> bool \<times> admin_state" where
  "run_runtime rt c s =
     (case rt of
        None \<Rightarrow> (True, s)
      | Some call \<Rightarrow> (case call c (as_hub s) of (ok, hub') \<Rightarrow> (ok, s\<lparr>as_hub := hub'\<rparr>)))"

text \<open>The row after an action that only edits it.\<close>

definition room_change :: "string \<Rightarrow> Room \<Rightarrow> Room" where
  "room_change action room =
     (if action = ''freeze'' then room\<lparr>ro_Status := 1\<rparr>
      else if action = ''unfreeze'' then room\<lparr>ro_Status := 0\<rparr>
      else if action = ''moderation_enable'' then room\<lparr>ro_ModerationEnabled := True\<rparr>
      else if action = ''moderation_disable'' then room\<lparr>ro_ModerationEnabled := False\<rparr>
      else room)"

text \<open>
  \<open>ApplyAction\<close> of the room service. The actions on a member without a target fall through to the save of the
  unchanged row. A transfer writes two audit entries and ignores an error of the first.
\<close>

definition room_ApplyAction ::
    "(audit_value \<Rightarrow> string option) \<Rightarrow> controller option \<Rightarrow> (nat \<Rightarrow> bool) \<Rightarrow> time \<Rightarrow> int \<Rightarrow> RoomAction \<Rightarrow> admin_state \<Rightarrow>
     action_error option \<times> admin_state" where
  "room_ApplyAction json rt fault now roomID action s =
     (case GetRoomByID (fault 0) roomID (as_db s) of
        Inl e \<Rightarrow> (Some (LookupFailed e), s)
      | Inr before \<Rightarrow>
          (let act = ra_Action action; target = ra_TargetUserID action;
               audit = (\<lambda>f room s'. audited (writeRoomAudit json f now (ro_ID room) (roomAuditItem before) (roomAuditItem room) action s'))
           in if act = ''disband'' then
                (case SoftDeleteRoom (fault 1) (UnixMilli now) roomID (as_db s) of
                   (Some _, db') \<Rightarrow> (Some SaveFailed, s\<lparr>as_db := db'\<rparr>)
                 | (None, db') \<Rightarrow>
                     (case run_runtime rt (CallDisband roomID) (s\<lparr>as_db := db'\<rparr>) of
                        (False, s2) \<Rightarrow> (Some RuntimeFailed, s2)
                      | (True, s2) \<Rightarrow> audit (fault 2) before s2))
              else if act = ''agent_enable'' \<or> act = ''agent_disable'' then (Some UnsupportedAction, s)
              else if act = ''remove_member'' \<and> target > 0 then
                (case delete_member (fault 1) (UnixMilli now) roomID target (as_db s) of
                   (False, db') \<Rightarrow> (Some SaveFailed, s\<lparr>as_db := db'\<rparr>)
                 | (True, db') \<Rightarrow>
                     (case run_runtime rt (CallRemoveMember roomID target) (s\<lparr>as_db := db'\<rparr>) of
                        (False, s2) \<Rightarrow> (Some RuntimeFailed, s2)
                      | (True, s2) \<Rightarrow> audit (fault 2) before s2))
              else if act = ''set_admin'' \<and> target > 0 then
                updateMemberRole json (fault 1) (fault 2) now roomID target 2 action s
              else if act = ''transfer_owner'' \<and> target > 0 then
                (if fault 1 then (Some SaveFailed, s)
                 else
                   (let room = before\<lparr>ro_CreatorID := target\<rparr>;
                        s1 = s\<lparr>as_db := save_room room (as_db s)\<rparr>;
                        s2 = snd (updateMemberRole json (fault 2) (fault 3) now roomID target 3 action s1)
                    in audit (fault 4) room s2))
              else if act \<in> set [''freeze'', ''unfreeze'', ''moderation_enable'', ''moderation_disable'',
                                 ''remove_member'', ''set_admin'', ''transfer_owner''] then
                (let room = room_change act before
                 in if fault 1 then (Some SaveFailed, s)
                    else audit (fault 2) room (s\<lparr>as_db := save_room room (as_db s)\<rparr>))
              else (Some UnsupportedAction, s)))"

definition roomActionPermission :: "string \<Rightarrow> permission option" where
  "roomActionPermission action =
     (if action \<in> set [''freeze'', ''unfreeze'', ''remove_member'', ''set_admin'', ''transfer_owner''] then Some PermRoomFreeze
      else if action = ''disband'' then Some PermRoomDelete
      else if action \<in> set [''agent_enable'', ''agent_disable''] then Some PermAgentConfig
      else if action \<in> set [''moderation_enable'', ''moderation_disable''] then Some PermModerationReview
      else None)"

definition AdminRoomAction ::
    "(audit_value \<Rightarrow> string option) \<Rightarrow> controller option \<Rightarrow> (nat \<Rightarrow> bool) \<Rightarrow> time \<Rightarrow> gin_context \<Rightarrow> admin_request \<Rightarrow>
     (string \<times> int) option \<Rightarrow> admin_state \<Rightarrow> http_status \<times> admin_state" where
  "AdminRoomAction json rt fault now c rq body s =
     (case ParseInt (rq_id rq) of
        (_, Some _) \<Rightarrow> (BadRequest, s)
      | (roomID, None) \<Rightarrow>
          (case body of
             None \<Rightarrow> (BadRequest, s)
           | Some (action, target) \<Rightarrow>
               if action = [] then (BadRequest, s)
               else
                 (case roomActionPermission action of
                    None \<Rightarrow> (BadRequest, s)
                  | Some p \<Rightarrow>
                      if \<not> adminHasPermission c p then (Forbidden, s)
                      else
                        (case room_ApplyAction json rt fault now roomID
                                \<lparr>ra_Action = action, ra_AdminUserID = admin_id c, ra_AdminName = admin_name c,
                                 ra_RequestID = rq_RequestID rq, ra_RemoteIP = rq_RemoteIP rq, ra_UserAgent = rq_UserAgent rq,
                                 ra_TargetUserID = target\<rparr> s of
                           (Some _, s') \<Rightarrow> (ServerError, s')
                         | (None, s') \<Rightarrow> (OK, s')))))"

section \<open>Deletions\<close>

definition AdminDeleteRoom ::
    "(audit_value \<Rightarrow> string option) \<Rightarrow> controller option \<Rightarrow> (nat \<Rightarrow> bool) \<Rightarrow> time \<Rightarrow> gin_context \<Rightarrow> admin_request \<Rightarrow>
     admin_state \<Rightarrow> http_status \<times> admin_state" where
  "AdminDeleteRoom json rt fault now c rq s =
     (case ParseInt (rq_id rq) of
        (_, Some _) \<Rightarrow> (BadRequest, s)
      | (roomID, None) \<Rightarrow>
          (case room_ApplyAction json rt fault now roomID
                  \<lparr>ra_Action = ''disband'', ra_AdminUserID = admin_id c, ra_AdminName = admin_name c,
                   ra_RequestID = rq_RequestID rq, ra_RemoteIP = rq_RemoteIP rq, ra_UserAgent = rq_UserAgent rq,
                   ra_TargetUserID = 0\<rparr> s of
             (Some _, s') \<Rightarrow> (ServerError, s')
           | (None, s') \<Rightarrow> (OK, s')))"

text \<open>The handler ignores the errors of the kick, of the presence key and of the audit log.\<close>

definition AdminDeleteUser ::
    "(audit_value \<Rightarrow> string option) \<Rightarrow> controller option \<Rightarrow> (nat \<Rightarrow> bool) \<Rightarrow> bool \<Rightarrow> time \<Rightarrow> gin_context \<Rightarrow> admin_request \<Rightarrow>
     admin_state \<Rightarrow> http_status \<times> admin_state" where
  "AdminDeleteUser json rt fault redisFault now c rq s =
     (case ParseInt (rq_id rq) of
        (_, Some _) \<Rightarrow> (BadRequest, s)
      | (targetUserID, None) \<Rightarrow>
          if targetUserID = admin_id c then (BadRequest, s)
          else
            (case SoftDeleteUser (fault 0) (UnixMilli now) targetUserID (as_db s) of
               (Some _, db') \<Rightarrow> (ServerError, s\<lparr>as_db := db'\<rparr>)
             | (None, db') \<Rightarrow>
                 (let s2 = snd (run_runtime rt (CallKick targetUserID) (s\<lparr>as_db := db'\<rparr>));
                      s3 = s2\<lparr>as_presence := SetUserOffline redisFault targetUserID (as_presence s2)\<rparr>
                  in (OK, snd (audit_Log json (fault 1) now
                            \<lparr>ae_AdminUserID = admin_id c, ae_AdminUsername = [], ae_Action = ''user.delete'',
                             ae_TargetType = ''user'', ae_TargetID = FormatInt targetUserID, ae_BeforeData = ANil,
                             ae_AfterData = ANil, ae_RequestID = rq_RequestID rq, ae_RemoteIP = rq_RemoteIP rq,
                             ae_UserAgent = rq_UserAgent rq, ae_Result = ''success'', ae_ErrorMessage = []\<rparr> s3)))))"

section \<open>Actions on users\<close>

definition user_entry :: "UserAction \<Rightarrow> User \<Rightarrow> User \<Rightarrow> AuditEntry" where
  "user_entry action before aft =
     \<lparr>ae_AdminUserID = ua_AdminUserID action, ae_AdminUsername = ua_AdminName action,
      ae_Action = ''user.'' @ ua_Action action, ae_TargetType = ''user'', ae_TargetID = FormatInt (us_ID before),
      ae_BeforeData = userAuditItem before, ae_AfterData = userAuditItem aft, ae_RequestID = ua_RequestID action,
      ae_RemoteIP = ua_RemoteIP action, ae_UserAgent = ua_UserAgent action, ae_Result = ''success'', ae_ErrorMessage = []\<rparr>"

definition user_done ::
    "(audit_value \<Rightarrow> string option) \<Rightarrow> UserAction \<Rightarrow> User \<Rightarrow> User \<Rightarrow> admin_state \<Rightarrow> action_error option \<Rightarrow> admin_state \<Rightarrow> bool" where
  "user_done json action before user s e s' \<longleftrightarrow>
     as_db s' = save_user user (as_db s) \<and>
     (if e = None then \<exists>row. as_audit s' = as_audit s @ [row] \<and> entry_for json (user_entry action before user) row
      else as_audit s' = as_audit s)"

lemma user_action_cases:
  assumes "user_ApplyAction json rt fault redisFault now userID action s = (e, s')"
  shows "s' = s \<and> e \<noteq> None \<or>
    (\<exists>before user. GetByID (fault 0) userID (as_db s) = Inr before \<and> user_change (ua_Action action) before = Some user \<and>
       user_done json action before user s e s')"
proof (cases "GetByID (fault 0) userID (as_db s)")
  case (Inl x)
  with assms show ?thesis by (auto simp: user_ApplyAction_def)
next
  case (Inr before)
  show ?thesis
  proof (cases "user_change (ua_Action action) before")
    case None
    with assms Inr show ?thesis by (auto simp: user_ApplyAction_def)
  next
    case (Some user)
    define s1 where "s1 = s\<lparr>as_db := save_user user (as_db s)\<rparr>"
    define kicked where "kicked = (if ua_Action action = ''ban''
                         then (case rt of
                                 None \<Rightarrow> (True, s1)
                               | Some call \<Rightarrow>
                                   (case call (CallKick userID) (as_hub s1) of
                                      (False, hub') \<Rightarrow> (False, s1\<lparr>as_hub := hub'\<rparr>)
                                    | (True, hub') \<Rightarrow>
                                        (True, s1\<lparr>as_hub := hub', as_presence := SetUserOffline redisFault userID (as_presence s1)\<rparr>)))
                         else (True, s1))"
    obtain k s2 where k: "kicked = (k, s2)" by (rule prod.exhaust)
    then have s2: "as_db s2 = save_user user (as_db s)" "as_audit s2 = as_audit s"
      unfolding kicked_def s1_def by (auto split: if_splits option.splits prod.splits bool.splits)
    obtain b s3 where w: "writeUserAudit json (fault 2) now before user action s2 = (b, s3)" by (rule prod.exhaust)
    have r: "(e, s') = (if fault 1 then (Some SaveFailed, s) else if \<not> k then (Some RuntimeFailed, s2)
        else if \<not> b then (Some AuditFailed, s3) else (None, s3))"
      unfolding assms [symmetric] user_ApplyAction_def Inr Some sum.case option.case Let_def s1_def [symmetric]
        kicked_def [symmetric] k prod.case w by (simp split: bool.splits)
    have "if b then \<exists>row. as_audit s3 = as_audit s2 @ [row] \<and> entry_for json (user_entry action before user) row else s3 = s2"
      "as_db s3 = as_db s2"
      using audit_Log_cases [OF w [unfolded writeUserAudit_def]] unfolding user_entry_def by blast+
    with r s2 have "\<not> fault 1 \<Longrightarrow> user_done json action before user s e s'" "fault 1 \<Longrightarrow> s' = s \<and> e \<noteq> None"
      unfolding user_done_def by (auto split: if_splits)
    with Inr Some show ?thesis by blast
  qed
qed

text \<open>What a request of a role may change in a row of the user table.\<close>

definition allowed_change :: "int option \<Rightarrow> User \<Rightarrow> User \<Rightarrow> bool" where
  "allowed_change role u v \<longleftrightarrow> v = u \<or>
     (v = u\<lparr>us_Status := us_Status v\<rparr> \<and> (role = Some RoleSuperAdmin \<or> role = Some RoleModerator)) \<or>
     (v = u\<lparr>us_Role := us_Role v\<rparr> \<and> role = Some RoleSuperAdmin)"

lemma allowed_change_refl [simp]: "allowed_change role u u"
  by (simp add: allowed_change_def)

lemma user_change_allowed:
  assumes "user_change action u = Some v" "userActionPermission action = Some p" "HasPermission role p"
  shows "allowed_change (Some role) u v" "us_ID v = us_ID u"
proof -
  have "HasPermission role PermUserBan \<Longrightarrow> role = RoleSuperAdmin \<or> role = RoleModerator"
    "HasPermission role PermUserRoleUpdate \<Longrightarrow> role = RoleSuperAdmin"
    by (auto simp: HasPermission_def role_defs rolePermissionMap_def map_get_def split: if_splits option.splits)
  with assms show "allowed_change (Some role) u v"
    by (auto simp: user_change_def userActionPermission_def allowed_change_def split: if_splits)
  show "us_ID v = us_ID u" using assms(1) by (auto simp: user_change_def split: if_splits)
qed

lemma GetByID_Inr:
  "GetByID f i db = Inr u \<Longrightarrow> u \<in> set (db_users db) \<and> us_ID u = i \<and> us_DeletedAt u = 0"
  by (auto simp: GetByID_def live_users_def dest: find_SomeD split: if_splits option.splits)

lemma save_user_pointwise:
  assumes "db_inv db" "u \<in> set (db_users db)" "us_ID v = us_ID u" "P u v" "\<And>x. P x x"
  shows "list_all2 P (db_users db) (db_users (save_user v db))"
proof -
  have "x = u" if "x \<in> set (db_users db)" "us_ID x = us_ID v" for x
    using assms(1-3) that by (auto simp: db_inv_def distinct_map inj_on_def)
  then have "P x (if us_ID x = us_ID v \<and> us_DeletedAt x = 0 then v else x)" if "x \<in> set (db_users db)" for x
    using assms(4,5) that by fastforce
  moreover have "db_users (save_user v db) = map (\<lambda>u. if us_ID u = us_ID v \<and> us_DeletedAt u = 0 then v else u) (db_users db)"
    by (simp add: save_user_def)
  ultimately show ?thesis by (simp only: list_all2_map2) (rule list.rel_refl_strong, blast)
qed

text \<open>
  C30: what administrators can do to users. Whatever its outcome, a request changes at most the status or the role of
  rows of the user table, the status only for a super administrator or a moderator, the role only for a super
  administrator, and neither rooms nor memberships; the audit log only grows, by one entry exactly when the request
  succeeds, and that entry names the administrator, the action and the target.
\<close>

theorem admin_user_action:
  assumes "AdminUserAction json rt fault redisFault now c rq body s = (st, s')" "db_inv (as_db s)"
  shows "list_all2 (allowed_change (cx_user_role c)) (db_users (as_db s)) (db_users (as_db s')) \<and>
    db_rooms (as_db s') = db_rooms (as_db s) \<and> db_members (as_db s') = db_members (as_db s) \<and>
    (if st = OK
     then \<exists>row action. as_audit s' = as_audit s @ [row] \<and> body = Some action \<and> al_AdminUserID row = admin_id c \<and>
       al_Action row = ''user.'' @ action \<and> al_TargetType row = ''user'' \<and> al_TargetID row = FormatInt (fst (ParseInt (rq_id rq)))
     else as_audit s' = as_audit s)"
proof (cases "s' = s \<and> st \<noteq> OK")
  case True
  then show ?thesis by (simp add: list_all2_refl)
next
  case False
  obtain userID x where id: "ParseInt (rq_id rq) = (userID, x)" by (rule prod.exhaust)
  obtain action p where a: "x = None" "body = Some action" "userActionPermission action = Some p" "adminHasPermission c p"
    using assms(1) False id by (auto simp: AdminUserAction_def split: option.splits if_splits)
  let ?ua = "\<lparr>ua_Action = action, ua_AdminUserID = admin_id c, ua_AdminName = admin_name c,
              ua_RequestID = rq_RequestID rq, ua_RemoteIP = rq_RemoteIP rq, ua_UserAgent = rq_UserAgent rq\<rparr>"
  obtain e where e: "user_ApplyAction json rt fault redisFault now userID ?ua s = (e, s')" "st = (if e = None then OK else ServerError)"
    using assms(1) False id a by (auto simp: AdminUserAction_def split: option.splits if_splits prod.splits)
  obtain before user where u: "GetByID (fault 0) userID (as_db s) = Inr before" "user_change action before = Some user"
    "user_done json ?ua before user s e s'"
    using user_action_cases [OF e(1)] e(2) False by (auto split: if_splits)
  obtain role where role: "cx_user_role c = Some role" "HasPermission role p"
    using a(4) by (auto simp: adminHasPermission_def split: option.splits)
  note ch = user_change_allowed [OF u(2) a(3) role(2)]
  note b = GetByID_Inr [OF u(1)]
  have "list_all2 (allowed_change (cx_user_role c)) (db_users (as_db s)) (db_users (save_user user (as_db s)))"
    using save_user_pointwise [OF assms(2), of before user] b ch role(1) by simp
  with u(3) e(2) a(2) id b show ?thesis
    by (auto simp: user_done_def entry_for_def user_entry_def save_user_def)
qed

section \<open>Actions on rooms\<close>

lemma save_room_facts:
  assumes "ro_ID room = ro_ID before" "ro_DeletedAt room = ro_DeletedAt before" "before \<in> set (db_rooms db)" "db_inv db"
  shows "room_live (save_room room db) = room_live db" "member (save_room room db) = member db"
    "db_nextRoom (save_room room db) = db_nextRoom db" "db_inv (save_room room db)"
proof -
  let ?g = "\<lambda>r. if ro_ID r = ro_ID room \<and> ro_DeletedAt r = 0 then room else r"
  have g: "ro_ID (?g r) = ro_ID r \<and> ro_DeletedAt (?g r) = ro_DeletedAt r" if "r \<in> set (db_rooms db)" for r
    using that assms by (auto simp: db_inv_def distinct_map inj_on_def)
  then have ids: "map ro_ID (map ?g (db_rooms db)) = map ro_ID (db_rooms db)" by simp
  have "(\<exists>x \<in> set (db_rooms db). ro_DeletedAt (?g x) = 0 \<and> ro_ID (?g x) = r) \<longleftrightarrow>
      (\<exists>x \<in> set (db_rooms db). ro_DeletedAt x = 0 \<and> ro_ID x = r)" for r
    using g by metis
  moreover have rows: "db_rooms (save_room room db) = map ?g (db_rooms db)" by (simp add: save_room_def)
  ultimately show "room_live (save_room room db) = room_live db"
    by (simp only: room_live_alt rows bex_map fun_eq_iff simp_thms)
  show "member (save_room room db) = member db" by (simp add: member_alt save_room_def fun_eq_iff)
  show "db_nextRoom (save_room room db) = db_nextRoom db" by (simp add: save_room_def)
  have "\<forall>x \<in> set (db_rooms db). ro_ID (?g x) < db_nextRoom db" using g assms(4) by (simp add: db_inv_def)
  with ids assms(4) show "db_inv (save_room room db)" by (auto simp: db_inv_def save_room_def simp del: map_map)
qed

lemma set_member_role_facts:
  "room_live (set_member_role r u role db) = room_live db" "member (set_member_role r u role db) = member db"
  "db_nextRoom (set_member_role r u role db) = db_nextRoom db" "db_inv db \<Longrightarrow> db_inv (set_member_role r u role db)"
proof -
  let ?g = "\<lambda>m. if is_row r u m \<and> mb_DeletedAt m = 0 then m\<lparr>mb_Role := role\<rparr> else m"
  have g: "is_row a b (?g m) = is_row a b m" "mb_DeletedAt (?g m) = mb_DeletedAt m" "mb_RoomID (?g m) = mb_RoomID m" "mb_UserID (?g m) = mb_UserID m"
    for m a b by (simp_all add: is_row_def)
  have k: "map (\<lambda>m. (mb_RoomID m, mb_UserID m, mb_DeletedAt m)) (map ?g ms) = map (\<lambda>m. (mb_RoomID m, mb_UserID m, mb_DeletedAt m)) ms" for ms
    by (simp add: g)
  have rows: "db_members (set_member_role r u role db) = map ?g (db_members db)" "db_rooms (set_member_role r u role db) = db_rooms db"
    "db_users (set_member_role r u role db) = db_users db" "db_nextUser (set_member_role r u role db) = db_nextUser db"
    by (simp_all add: set_member_role_def)
  show "room_live (set_member_role r u role db) = room_live db" by (simp only: room_live_alt rows fun_eq_iff) simp
  show "member (set_member_role r u role db) = member db" by (simp only: member_alt rows bex_map g fun_eq_iff) simp
  show "db_nextRoom (set_member_role r u role db) = db_nextRoom db" by (simp add: set_member_role_def)
  moreover have "\<forall>m \<in> set (db_members db). mb_RoomID (?g m) < db_nextRoom db" if "db_inv db" using that by (simp add: g db_inv_def)
  ultimately show "db_inv db \<Longrightarrow> db_inv (set_member_role r u role db)"
    unfolding db_inv_def rows k by (auto simp del: map_map)
qed

definition state_ok :: "admin_state \<Rightarrow> bool" where
  "state_ok s \<longleftrightarrow> (\<exists>h. as_hub s = Some h \<and> system_ok (as_db s, h))"

lemma audited_state_ok:
  assumes "audited (audit_Log json f now e s) = (r, s')" "state_ok s"
  shows "state_ok s'"
proof -
  obtain b s1 where b: "audit_Log json f now e s = (b, s1)" by (rule prod.exhaust)
  with audit_Log_cases [OF b] assms show ?thesis by (cases b) (auto simp: audited_def state_ok_def)
qed

lemma write_audit_state_ok:
  assumes "audited (writeRoomAudit json f now i x y action s) = (r, s')" "state_ok s"
  shows "state_ok s'"
  using assms unfolding writeRoomAudit_def by (rule audited_state_ok)

lemma saved_state_ok:
  assumes "state_ok s" "before \<in> set (db_rooms (as_db s))" "ro_ID room = ro_ID before" "ro_DeletedAt room = ro_DeletedAt before"
  shows "state_ok (s\<lparr>as_db := save_room room (as_db s)\<rparr>)"
proof -
  obtain h where h: "as_hub s = Some h" "system_ok (as_db s, h)" using assms(1) by (auto simp: state_ok_def)
  have "db_inv (as_db s)" using h(2) by (simp add: system_ok_def)
  from save_room_facts [OF assms(3,4,2) this] show ?thesis using h same_view_system_ok [OF h(2)] by (auto simp: state_ok_def)
qed

lemma role_state_ok:
  assumes "state_ok s"
  shows "state_ok (s\<lparr>as_db := set_member_role r u role (as_db s)\<rparr>)"
proof -
  obtain h where h: "as_hub s = Some h" "system_ok (as_db s, h)" using assms by (auto simp: state_ok_def)
  have "db_inv (as_db s)" using h(2) by (simp add: system_ok_def)
  from set_member_role_facts(4) [OF this] show ?thesis
    using h same_view_system_ok [OF h(2) set_member_role_facts(1-3)] by (auto simp: state_ok_def)
qed

lemma updateMemberRole_state_ok:
  assumes "updateMemberRole json f af now r u role action s = (e, s')" "state_ok s"
  shows "state_ok s'"
  using assms write_audit_state_ok [OF _ role_state_ok [OF assms(2)]]
  by (auto simp: updateMemberRole_def split: if_splits)

context runtime_controller
begin

text \<open>A change of the database followed by its call of the runtime and the audit entry.\<close>

lemma withdraw_state_ok:
  assumes "(case run_runtime (Some call) c (s\<lparr>as_db := db'\<rparr>) of
      (False, s2) \<Rightarrow> (Some RuntimeFailed, s2)
    | (True, s2) \<Rightarrow> audited (writeRoomAudit json f now i x y action s2)) = (e, s')"
    and "as_hub s = Some h" "system_ok (db', call_effect c h)" "e \<noteq> Some RuntimeFailed"
  shows "state_ok s'"
proof -
  obtain ok hub' where r: "call c (Some h) = (ok, hub')" by (rule prod.exhaust)
  let ?s2 = "s\<lparr>as_db := db', as_hub := hub'\<rparr>"
  have "ok" "audited (writeRoomAudit json f now i x y action ?s2) = (e, s')"
    using assms(1,2,4) r by (auto simp: run_runtime_def split: bool.splits)
  moreover have "hub' = Some (call_effect c h)" using call_done r \<open>ok\<close> by auto
  moreover from this have "state_ok ?s2" using assms(3) by (simp add: state_ok_def)
  ultimately show ?thesis using write_audit_state_ok by blast
qed

lemma disband_state_ok:
  assumes "room_ApplyAction json (Some call) fault now roomID action s = (e, s')" "state_ok s" "UnixMilli now \<noteq> 0"
    and "e \<noteq> Some RuntimeFailed" "GetRoomByID (fault 0) roomID (as_db s) = Inr before" "ra_Action action = ''disband''"
  shows "state_ok s'"
proof -
  obtain h where h: "as_hub s = Some h" "system_ok (as_db s, h)" using assms(2) by (auto simp: state_ok_def)
  obtain de db' where d: "SoftDeleteRoom (fault 1) (UnixMilli now) roomID (as_db s) = (de, db')" by (rule prod.exhaust)
  show ?thesis
  proof (cases de)
    case (Some x)
    with d repo_failure_unchanged(3) have "db' = as_db s" by blast
    with Some d assms(1,2,5,6) show ?thesis by (auto simp: room_ApplyAction_def Let_def)
  next
    case None
    have sys: "system_ok (db', call_effect (CallDisband roomID) h)"
      using disbanded_system_ok [OF h(2) d [unfolded None] assms(3)] by (simp add: deliver_notifications_def notify_def)
    show ?thesis
      by (rule withdraw_state_ok [OF _ h(1) sys assms(4)]) (use None d assms(1,5,6) in \<open>simp add: room_ApplyAction_def Let_def\<close>)
  qed
qed

lemma remove_state_ok:
  assumes "room_ApplyAction json (Some call) fault now roomID action s = (e, s')" "state_ok s" "UnixMilli now \<noteq> 0"
    and "e \<noteq> Some RuntimeFailed" "GetRoomByID (fault 0) roomID (as_db s) = Inr before"
    and "ra_Action action = ''remove_member''" "ra_TargetUserID action > 0"
  shows "state_ok s'"
proof -
  let ?t = "ra_TargetUserID action"
  obtain h where h: "as_hub s = Some h" "system_ok (as_db s, h)" using assms(2) by (auto simp: state_ok_def)
  obtain de db' where d: "repo_RemoveMember (fault 1) (UnixMilli now) roomID ?t (as_db s) = (de, db')" by (rule prod.exhaust)
  show ?thesis
  proof (cases "de = None \<or> de = Some RecordNotFound")
    case False
    with d repo_failure_unchanged(2) have "db' = as_db s" by (cases de) auto
    with False d assms(1,2,5-7) show ?thesis by (auto simp: room_ApplyAction_def Let_def delete_member_def split: bool.splits)
  next
    case True
    have sys: "system_ok (db', call_effect (CallRemoveMember roomID ?t) h)"
    proof (cases de)
      case None
      then show ?thesis using removed_system_ok [OF h(2) d [unfolded None] assms(3)] by (simp add: deliver_notifications_def notify_def)
    next
      case (Some x)
      then have "db' = as_db s" "\<not> member (as_db s) roomID ?t"
        using True d by (auto simp: repo_RemoveMember_def member_def split: if_splits)
      then show ?thesis using stays_out_system_ok [OF h(2), of roomID ?t] by simp
    qed
    show ?thesis
      by (rule withdraw_state_ok [OF _ h(1) sys assms(4)])
        (use True d assms(1,5-7) in \<open>auto simp: room_ApplyAction_def Let_def delete_member_def\<close>)
  qed
qed

lemma room_action_state_ok:
  assumes "room_ApplyAction json (Some call) fault now roomID action s = (e, s')" "state_ok s" "UnixMilli now \<noteq> 0"
    and "e \<noteq> Some RuntimeFailed"
  shows "state_ok s'"
proof (cases "GetRoomByID (fault 0) roomID (as_db s)")
  case (Inl x)
  with assms(1,2) show ?thesis by (auto simp: room_ApplyAction_def)
next
  case (Inr before)
  have before: "before \<in> set (db_rooms (as_db s))" using GetRoomByID_Inr [OF Inr] by blast
  let ?act = "ra_Action action" and ?t = "ra_TargetUserID action"
  consider (disband) "?act = ''disband''" | (remove) "?act = ''remove_member''" "?t > 0" | (admin) "?act = ''set_admin''" "?t > 0"
    | (owner) "?act = ''transfer_owner''" "?t > 0"
    | (rest) "?act \<noteq> ''disband''" "?act = ''remove_member'' \<or> ?act = ''set_admin'' \<or> ?act = ''transfer_owner'' \<Longrightarrow> \<not> ?t > 0"
    by blast
  then show ?thesis
  proof cases
    case disband
    then show ?thesis by (rule disband_state_ok [OF assms Inr])
  next
    case remove
    then show ?thesis by (rule remove_state_ok [OF assms Inr])
  next
    case admin
    with Inr assms(1) have "updateMemberRole json (fault 1) (fault 2) now roomID ?t 2 action s = (e, s')"
      by (simp add: room_ApplyAction_def Let_def)
    then show ?thesis using assms(2) by (rule updateMemberRole_state_ok)
  next
    case owner
    define s1 where "s1 = s\<lparr>as_db := save_room (before\<lparr>ro_CreatorID := ?t\<rparr>) (as_db s)\<rparr>"
    have "state_ok s1" unfolding s1_def by (rule saved_state_ok [OF assms(2) before]) simp_all
    then have "state_ok (snd (updateMemberRole json (fault 2) (fault 3) now roomID ?t 3 action s1))"
      using updateMemberRole_state_ok by (metis prod.collapse)
    with write_audit_state_ok owner Inr assms(1,2) show ?thesis
      by (auto simp: room_ApplyAction_def Let_def s1_def split: if_splits)
  next
    case rest
    have "state_ok (s\<lparr>as_db := save_room (room_change ?act before) (as_db s)\<rparr>)"
      by (rule saved_state_ok [OF assms(2) before]) (simp_all add: room_change_def)
    with write_audit_state_ok have w: "audited (writeRoomAudit json f now i x y action
        (s\<lparr>as_db := save_room (room_change ?act before) (as_db s)\<rparr>)) = (e, s') \<Longrightarrow> state_ok s'" for f i x y by blast
    from rest Inr assms(1,2) show ?thesis
      unfolding room_ApplyAction_def by (auto simp: Let_def intro: w split: if_splits)
  qed
qed

end

section \<open>The whole system with its administrators\<close>

text \<open>
  What happens to a gateway whose administrators work in the same process: calls of the room service and of the
  connection layer, and actions on rooms through \<open>LocalRuntimeController\<close>.
\<close>

datatype admin_call =
    ASystem system_call
  | ARoomAction int RoomAction

definition run_admin_call ::
    "(audit_value \<Rightarrow> string option) \<Rightarrow> (nat \<Rightarrow> bool) \<times> time \<times> admin_call \<Rightarrow> admin_state \<Rightarrow> admin_state" where
  "run_admin_call json x s =
     (case x of (fault, now, call) \<Rightarrow>
        (case call of
           ASystem c \<Rightarrow>
             (case as_hub s of
                None \<Rightarrow> s
              | Some h \<Rightarrow> (case run_call fault now c (as_db s, h) of (db', h') \<Rightarrow> s\<lparr>as_db := db', as_hub := Some h'\<rparr>))
         | ARoomAction roomID action \<Rightarrow> snd (room_ApplyAction json (Some local_call) fault now roomID action s)))"

definition admin_start :: "int \<Rightarrow> string \<Rightarrow> string \<Rightarrow> admin_state" where
  "admin_start n t b = \<lparr>as_db = empty_db, as_hub = Some (NewHubWithShards n t b), as_presence = [], as_audit = [], as_nextAudit = 1\<rparr>"

lemma run_runtime_local:
  "as_hub s = Some h \<Longrightarrow> run_runtime (Some local_call) c s = (True, s\<lparr>as_hub := Some (call_effect c h)\<rparr>)"
  by (simp add: run_runtime_def local_call_effect)

lemma audited_error: "audited (writeRoomAudit json f now i x y action s) \<noteq> (Some RuntimeFailed, s')"
  by (auto simp: audited_def split: prod.splits bool.splits)

lemma local_never_fails:
  assumes "room_ApplyAction json (Some local_call) fault now roomID action s = (e, s')" "as_hub s = Some h"
  shows "e \<noteq> Some RuntimeFailed"
proof
  assume "e = Some RuntimeFailed"
  with assms show False
    by (auto simp: room_ApplyAction_def Let_def updateMemberRole_def run_runtime_local audited_error
        split: sum.splits option.splits prod.splits bool.splits if_splits)
qed

lemma run_admin_call_ok:
  assumes "state_ok s" "UnixMilli (fst (snd x)) \<noteq> 0"
  shows "state_ok (run_admin_call json x s)"
proof -
  obtain fault now call where x: "x = (fault, now, call)" by (rule prod_cases3)
  obtain h where h: "as_hub s = Some h" "system_ok (as_db s, h)" using assms(1) by (auto simp: state_ok_def)
  show ?thesis
  proof (cases call)
    case (ASystem c)
    obtain db' h' where r: "run_call fault now c (as_db s, h) = (db', h')" by (rule prod.exhaust)
    have "system_ok (db', h')" using run_call_ok [OF h(2), of now fault c] assms(2) r x by simp
    with x ASystem h(1) r show ?thesis by (simp add: run_admin_call_def state_ok_def)
  next
    case (ARoomAction roomID action)
    obtain e s' where r: "room_ApplyAction json (Some local_call) fault now roomID action s = (e, s')" by (rule prod.exhaust)
    have "state_ok s'"
      by (rule lc.room_action_state_ok [OF r assms(1) _ local_never_fails [OF r h(1)]]) (use assms(2) x in simp)
    with x ARoomAction r show ?thesis by (simp add: run_admin_call_def)
  qed
qed

lemma run_admin_calls_ok:
  "state_ok s \<Longrightarrow> \<forall>x \<in> set calls. UnixMilli (fst (snd x)) \<noteq> 0 \<Longrightarrow> state_ok (fold (run_admin_call json) calls s)"
  by (induction calls arbitrary: s) (simp_all add: run_admin_call_ok)

lemma admin_start_ok: "state_ok (admin_start n t b)"
  using system_start_ok by (simp add: state_ok_def admin_start_def)


section \<open>What an action on a room touches\<close>

definition row_of :: "int \<Rightarrow> RoomAction \<Rightarrow> AdminAuditLog \<Rightarrow> bool" where
  "row_of roomID action row \<longleftrightarrow> al_AdminUserID row = ra_AdminUserID action \<and> al_Action row = ''room.'' @ ra_Action action \<and>
     al_TargetType row = ''room'' \<and> al_TargetID row = FormatInt roomID"

definition room_frame :: "int \<Rightarrow> RoomAction \<Rightarrow> admin_state \<Rightarrow> admin_state \<Rightarrow> bool" where
  "room_frame roomID action s s' \<longleftrightarrow> db_users (as_db s') = db_users (as_db s) \<and>
     filter (\<lambda>r. ro_ID r \<noteq> roomID) (db_rooms (as_db s')) = filter (\<lambda>r. ro_ID r \<noteq> roomID) (db_rooms (as_db s)) \<and>
     filter (\<lambda>m. mb_RoomID m \<noteq> roomID) (db_members (as_db s')) = filter (\<lambda>m. mb_RoomID m \<noteq> roomID) (db_members (as_db s)) \<and>
     (\<exists>new. as_audit s' = as_audit s @ new \<and> (\<forall>row \<in> set new. row_of roomID action row))"

lemma room_frame_refl [simp]: "room_frame roomID action s s"
  by (simp add: room_frame_def)

lemma room_frame_trans: "room_frame i a s s' \<Longrightarrow> room_frame i a s' s'' \<Longrightarrow> room_frame i a s s''"
  unfolding room_frame_def by fastforce

lemma filter_map_other:
  assumes "\<And>x. x \<in> set xs \<Longrightarrow> \<not> P x \<Longrightarrow> g x = x" "\<And>x. x \<in> set xs \<Longrightarrow> P x \<Longrightarrow> P (g x)"
  shows "filter (\<lambda>x. \<not> P x) (map g xs) = filter (\<lambda>x. \<not> P x) xs"
  using assms by (induction xs) auto

lemma room_frame_db:
  assumes "db_users db' = db_users (as_db s)"
    and "filter (\<lambda>r. ro_ID r \<noteq> i) (db_rooms db') = filter (\<lambda>r. ro_ID r \<noteq> i) (db_rooms (as_db s))"
    and "filter (\<lambda>m. mb_RoomID m \<noteq> i) (db_members db') = filter (\<lambda>m. mb_RoomID m \<noteq> i) (db_members (as_db s))"
  shows "room_frame i a s (s\<lparr>as_db := db'\<rparr>)"
  using assms by (simp add: room_frame_def)

lemma frame_save_room: "ro_ID room = i \<Longrightarrow> room_frame i a s (s\<lparr>as_db := save_room room (as_db s)\<rparr>)"
  by (rule room_frame_db) (auto simp: save_room_def intro!: filter_map_other)

lemma frame_set_role: "room_frame i a s (s\<lparr>as_db := set_member_role i u role (as_db s)\<rparr>)"
  by (rule room_frame_db) (auto simp: set_member_role_def is_row_def intro!: filter_map_other)

lemma frame_SoftDeleteRoom: "SoftDeleteRoom f ms i (as_db s) = (e, db') \<Longrightarrow> room_frame i a s (s\<lparr>as_db := db'\<rparr>)"
  by (rule room_frame_db) (auto simp: SoftDeleteRoom_def intro!: filter_map_other split: if_splits)

lemma frame_delete_member: "delete_member f ms i u (as_db s) = (e, db') \<Longrightarrow> room_frame i a s (s\<lparr>as_db := db'\<rparr>)"
  by (rule room_frame_db)
    (auto simp: delete_member_def repo_RemoveMember_def is_row_def intro!: filter_map_other split: if_splits option.splits prod.splits)

lemma frame_runtime: "run_runtime rt c s = (ok, s') \<Longrightarrow> room_frame i a s s'"
  by (auto simp: run_runtime_def room_frame_def split: option.splits prod.splits)

lemma frame_audited:
  assumes "audited (writeRoomAudit json f now i x y action s) = (e, s')"
  shows "room_frame i action s s'" "e = None \<Longrightarrow> length (as_audit s) < length (as_audit s')"
proof -
  obtain b s1 where b: "writeRoomAudit json f now i x y action s = (b, s1)" by (rule prod.exhaust)
  with assms have "s1 = s'" "e = (if b then None else Some AuditFailed)" by (auto simp: audited_def split: bool.splits)
  with audit_Log_cases [OF b [unfolded writeRoomAudit_def]]
  show "room_frame i action s s'" "e = None \<Longrightarrow> length (as_audit s) < length (as_audit s')"
    by (auto simp: room_frame_def row_of_def entry_for_def split: if_splits)
qed

lemma frame_length: "room_frame i a s s' \<Longrightarrow> length (as_audit s) \<le> length (as_audit s')"
  by (auto simp: room_frame_def)

lemma frame_then_audited:
  assumes "room_frame i action s s1" "audited (writeRoomAudit json f now i x y action s1) = (e, s')"
  shows "room_frame i action s s' \<and> (e = None \<longrightarrow> length (as_audit s) < length (as_audit s'))"
  using room_frame_trans [OF assms(1) frame_audited(1) [OF assms(2)]] frame_audited(2) [OF assms(2)] frame_length [OF assms(1)] by auto

lemma frame_withdraw:
  assumes "room_frame i action s s1"
    and "(case run_runtime rt c s1 of (False, s2) \<Rightarrow> (Some RuntimeFailed, s2)
          | (True, s2) \<Rightarrow> audited (writeRoomAudit json f now i x y action s2)) = (e, s')"
  shows "room_frame i action s s' \<and> (e = None \<longrightarrow> length (as_audit s) < length (as_audit s'))"
proof -
  obtain ok s2 where r: "run_runtime rt c s1 = (ok, s2)" by (rule prod.exhaust)
  note f = room_frame_trans [OF assms(1) frame_runtime [OF r]]
  show ?thesis
  proof (cases ok)
    case True
    with assms(2) r frame_then_audited [OF f] show ?thesis by simp
  next
    case False
    with assms(2) r f show ?thesis by auto
  qed
qed

lemma frame_updateMemberRole:
  assumes "updateMemberRole json f af now i u role action s = (e, s')"
  shows "room_frame i action s s' \<and> (e = None \<longrightarrow> length (as_audit s) < length (as_audit s'))"
  using assms frame_then_audited [OF frame_set_role] by (auto simp: updateMemberRole_def split: if_splits)

lemma room_action_frame:
  assumes "room_ApplyAction json rt fault now roomID action s = (e, s')"
  shows "room_frame roomID action s s' \<and> (e = None \<longrightarrow> length (as_audit s) < length (as_audit s'))"
proof (cases "GetRoomByID (fault 0) roomID (as_db s)")
  case (Inl x)
  with assms show ?thesis by (auto simp: room_ApplyAction_def)
next
  case (Inr before)
  then have id: "ro_ID before = roomID" using GetRoomByID_Inr [OF Inr] by blast
  let ?act = "ra_Action action" and ?t = "ra_TargetUserID action"
  consider (disband) "?act = ''disband''" | (remove) "?act = ''remove_member''" "?t > 0" | (admin) "?act = ''set_admin''" "?t > 0"
    | (owner) "?act = ''transfer_owner''" "?t > 0"
    | (rest) "?act \<noteq> ''disband''" "?act = ''remove_member'' \<or> ?act = ''set_admin'' \<or> ?act = ''transfer_owner'' \<Longrightarrow> \<not> ?t > 0"
    by blast
  then show ?thesis
  proof cases
    case disband
    obtain de db' where d: "SoftDeleteRoom (fault 1) (UnixMilli now) roomID (as_db s) = (de, db')" by (rule prod.exhaust)
    note f = frame_SoftDeleteRoom [OF d, of action]
    show ?thesis
      using disband Inr assms d f frame_withdraw [OF f] id
      by (cases de) (auto simp: room_ApplyAction_def Let_def)
  next
    case remove
    obtain de db' where d: "delete_member (fault 1) (UnixMilli now) roomID ?t (as_db s) = (de, db')" by (rule prod.exhaust)
    note f = frame_delete_member [OF d, of action]
    show ?thesis
      using remove Inr assms d f frame_withdraw [OF f] id
      by (cases de) (auto simp: room_ApplyAction_def Let_def)
  next
    case admin
    with Inr assms have "updateMemberRole json (fault 1) (fault 2) now roomID ?t 2 action s = (e, s')"
      by (simp add: room_ApplyAction_def Let_def)
    then show ?thesis by (rule frame_updateMemberRole)
  next
    case owner
    let ?s1 = "s\<lparr>as_db := save_room (before\<lparr>ro_CreatorID := ?t\<rparr>) (as_db s)\<rparr>"
    have "room_frame roomID action ?s1 (snd (updateMemberRole json (fault 2) (fault 3) now roomID ?t 3 action ?s1))"
      using frame_updateMemberRole by (metis prod.collapse)
    with frame_save_room [of "before\<lparr>ro_CreatorID := ?t\<rparr>" roomID action s] id
    have f: "room_frame roomID action s (snd (updateMemberRole json (fault 2) (fault 3) now roomID ?t 3 action ?s1))"
      using room_frame_trans by (metis Room.select_convs(1) Room.surjective Room.update_convs(4))
    show ?thesis using owner Inr assms frame_then_audited [OF f] id
      by (auto simp: room_ApplyAction_def Let_def split: if_splits)
  next
    case rest
    have f: "room_frame roomID action s (s\<lparr>as_db := save_room (room_change ?act before) (as_db s)\<rparr>)"
      by (rule frame_save_room) (simp add: room_change_def id)
    have i: "ro_ID (room_change ?act before) = roomID" by (simp add: room_change_def id)
    from rest Inr assms show ?thesis
      using frame_then_audited [OF f] unfolding room_ApplyAction_def by (auto simp: Let_def i split: if_splits)
  qed
qed

text \<open>
  C31: what administrators can do to rooms. Whatever its outcome, a request changes only the addressed room and its
  memberships, never a user, and only when it comes from a super administrator or a moderator; the audit log only
  grows, by entries that name the administrator, the action and the room, and by at least one when the
  request succeeds.
\<close>

theorem admin_room_action:
  assumes "AdminRoomAction json rt fault now c rq body s = (st, s')"
  shows "s' = s \<and> st \<noteq> OK \<or>
    (cx_user_role c = Some RoleSuperAdmin \<or> cx_user_role c = Some RoleModerator) \<and>
    (\<exists>action. room_frame (fst (ParseInt (rq_id rq))) action s s' \<and> ra_AdminUserID action = admin_id c \<and>
       map_option fst body = Some (ra_Action action)) \<and>
    (st = OK \<longrightarrow> length (as_audit s) < length (as_audit s'))"
proof (cases "s' = s \<and> st \<noteq> OK")
  case False
  obtain roomID x where id: "ParseInt (rq_id rq) = (roomID, x)" by (rule prod.exhaust)
  obtain action target p where a: "x = None" "body = Some (action, target)" "roomActionPermission action = Some p" "adminHasPermission c p"
    using assms(1) False id by (auto simp: AdminRoomAction_def split: option.splits if_splits)
  let ?ra = "\<lparr>ra_Action = action, ra_AdminUserID = admin_id c, ra_AdminName = admin_name c, ra_RequestID = rq_RequestID rq,
              ra_RemoteIP = rq_RemoteIP rq, ra_UserAgent = rq_UserAgent rq, ra_TargetUserID = target\<rparr>"
  obtain e where e: "room_ApplyAction json rt fault now roomID ?ra s = (e, s')" "st = (if e = None then OK else ServerError)"
    using assms(1) False id a by (auto simp: AdminRoomAction_def split: option.splits if_splits prod.splits)
  obtain role where role: "cx_user_role c = Some role" "HasPermission role p"
    using a(4) by (auto simp: adminHasPermission_def split: option.splits)
  have "p \<in> {PermRoomFreeze, PermRoomDelete, PermAgentConfig, PermModerationReview}"
    using a(3) by (auto simp: roomActionPermission_def split: if_splits)
  then have "role = RoleSuperAdmin \<or> role = RoleModerator" using role(2) by (auto simp: HasPermission_cases role_defs)
  moreover have "\<exists>action. room_frame (fst (ParseInt (rq_id rq))) action s s' \<and> ra_AdminUserID action = admin_id c \<and>
       map_option fst body = Some (ra_Action action)"
    using room_action_frame [OF e(1)] id a(2) by (intro exI [of _ ?ra]) simp
  ultimately show ?thesis using room_action_frame [OF e(1)] e(2) role(1) by auto
qed simp

section \<open>Witnesses\<close>

definition sample_admin_state :: admin_state where
  "sample_admin_state = (admin_start 2 [] [])\<lparr>as_db := sample_users\<rparr>"

theorem admin_user_action_witness:
  "\<exists>row. as_audit (snd (AdminUserAction (\<lambda>_. None) (Some local_call) (\<lambda>_. False) False 5 sample_admin sample_admin_request
       (Some ''ban'') sample_admin_state)) = [row] \<and> al_AdminUserID row = 1 \<and> al_Action row = ''user.ban''"
proof -
  let ?r = "AdminUserAction (\<lambda>_. None) (Some local_call) (\<lambda>_. False) False 5 sample_admin sample_admin_request (Some ''ban'') sample_admin_state"
  let ?ua = "\<lparr>ua_Action = ''ban'', ua_AdminUserID = admin_id sample_admin, ua_AdminName = admin_name sample_admin,
              ua_RequestID = ''q'', ua_RemoteIP = ''10.0.0.1'', ua_UserAgent = ''ua''\<rparr>"
  have ok: "fst (user_ApplyAction (\<lambda>_. None) (Some local_call) (\<lambda>_. False) False 5 7 ?ua sample_admin_state) = None" by code_simp
  have p: "userActionPermission ''ban'' = Some PermUserBan" "adminHasPermission sample_admin PermUserBan" by code_simp+
  have "fst ?r = OK"
    using ok p by (auto simp: AdminUserAction_def sample_admin_request_def parse_7 split: option.splits prod.splits)
  then have r: "?r = (OK, snd ?r)" by (metis prod.collapse)
  have inv: "db_inv (as_db sample_admin_state)"
    by (simp add: sample_admin_state_def db_inv_def sample_users_def)
  have e: "as_audit sample_admin_state = []" "admin_id sample_admin = 1" by code_simp+
  from admin_user_action [OF r inv] e show ?thesis by auto
qed

definition sample_room_action :: RoomAction where
  "sample_room_action = \<lparr>ra_Action = ''remove_member'', ra_AdminUserID = 1, ra_AdminName = ''1'', ra_RequestID = [], ra_RemoteIP = [],
     ra_UserAgent = [], ra_TargetUserID = 8\<rparr>"

definition sample_admin_calls :: "((nat \<Rightarrow> bool) \<times> time \<times> admin_call) list" where
  "sample_admin_calls = map (\<lambda>c. (\<lambda>_. False, 5000000, c))
     [ASystem (CCreate ''ab'' 7), ASystem (CJoin 1 8), ASystem (CConnect 0 8), ARoomAction 1 sample_room_action]"

definition sample_admin_end :: admin_state where
  "sample_admin_end = fold (run_admin_call (\<lambda>_. None)) sample_admin_calls (admin_start 2 [] [])"

definition sample_check :: "admin_state \<Rightarrow> bool" where
  "sample_check s \<longleftrightarrow> (case as_hub s of None \<Rightarrow> False | Some h \<Rightarrow> users h 8 = Some 0) \<and>
     room_live (as_db s) 1 \<and> \<not> member (as_db s) 1 8"

lemma sample_admin_end_facts: "sample_check sample_admin_end"
  by code_simp


definition sample_room_state :: admin_state where
  "sample_room_state = (admin_start 2 [] [])\<lparr>as_db := empty_db\<lparr>db_rooms := [\<lparr>ro_ID = 7, ro_Type = 2, ro_Name = ''r'', ro_CreatorID = 3,
     ro_AgentEnabled = False, ro_ModerationEnabled = True, ro_Status = 0, ro_LastActiveAt = 1, ro_BotUserID = 0, ro_CreatedAt = 1,
     ro_DeletedAt = 0\<rparr>], db_nextRoom := 8\<rparr>\<rparr>"

theorem admin_room_action_witness:
  "as_audit sample_room_state = [] \<and>
   as_audit (snd (AdminRoomAction (\<lambda>_. None) (Some local_call) (\<lambda>_. False) 5 sample_admin sample_admin_request
     (Some (''freeze'', 0)) sample_room_state)) \<noteq> []"
proof -
  let ?r = "AdminRoomAction (\<lambda>_. None) (Some local_call) (\<lambda>_. False) 5 sample_admin sample_admin_request (Some (''freeze'', 0)) sample_room_state"
  let ?ra = "\<lparr>ra_Action = ''freeze'', ra_AdminUserID = admin_id sample_admin, ra_AdminName = admin_name sample_admin,
              ra_RequestID = ''q'', ra_RemoteIP = ''10.0.0.1'', ra_UserAgent = ''ua'', ra_TargetUserID = 0\<rparr>"
  have ok: "fst (room_ApplyAction (\<lambda>_. None) (Some local_call) (\<lambda>_. False) 5 7 ?ra sample_room_state) = None" by code_simp
  have p: "roomActionPermission ''freeze'' = Some PermRoomFreeze" "adminHasPermission sample_admin PermRoomFreeze" by code_simp+
  have "fst ?r = OK"
    using ok p by (auto simp: AdminRoomAction_def sample_admin_request_def parse_7 split: option.splits prod.splits)
  then have r: "?r = (OK, snd ?r)" by (metis prod.collapse)
  have e: "as_audit sample_room_state = []" by code_simp
  from admin_room_action [OF r] e show ?thesis by auto
qed

end
