(* ===== verification/AgentConfig.thy ===== *)
theory AgentConfig
  imports AdminState
begin

text \<open>
  The global configuration of the agents: \<^verbatim>\<open>services/admin/application/agent_config_service.go\<close> with its row types
  \<^verbatim>\<open>services/agent/models/global_agent_config.go\<close> and its handlers \<^verbatim>\<open>services/admin/api/admin_agent_config.go\<close>.

  The table holds one row, or none before the first use; every change appends the JSON text of the configuration
  before and after it to a history, and a rollback takes the text before the last change back. Floating-point
  values are of a type \<open>'f\<close>; the environment says which are positive, what a \<^verbatim>\<open>decimal(3,2)\<close> column keeps of them, and
  how a configuration is encoded and decoded. The transaction keeps both writes or none.
\<close>

section \<open>Rows\<close>

record 'f GlobalAgentConfig =
  gc_ID :: int
  gc_GlobalEnabled :: bool
  gc_DefaultModel :: string
  gc_EmbeddingModel :: string
  gc_Temperature :: 'f
  gc_MaxTokens :: int
  gc_RAGTopK :: int
  gc_RAGSimilarityThreshold :: 'f
  gc_ChunkSize :: int
  gc_ChunkOverlap :: int
  gc_ModerationEnabled :: bool
  gc_ModerationModel :: string
  gc_ModerationThreshold :: 'f
  gc_ToolCallingEnabled :: bool
  gc_AutoKickEnabled :: bool
  gc_AutoBanEnabled :: bool
  gc_SystemPrompt :: string
  gc_ModerationPrompt :: string
  gc_RAGPrompt :: string
  gc_ToolCallingPrompt :: string
  gc_UpdatedAt :: time
  gc_CreatedAt :: time

record 'f GlobalAgentConfigInput =
  gi_GlobalEnabled :: "bool option"
  gi_DefaultModel :: string
  gi_EmbeddingModel :: string
  gi_Temperature :: 'f
  gi_MaxTokens :: int
  gi_RAGTopK :: int
  gi_RAGSimilarityThreshold :: 'f
  gi_ChunkSize :: int
  gi_ChunkOverlap :: int
  gi_ModerationEnabled :: "bool option"
  gi_ModerationModel :: string
  gi_ModerationThreshold :: 'f
  gi_ToolCallingEnabled :: "bool option"
  gi_AutoKickEnabled :: "bool option"
  gi_AutoBanEnabled :: "bool option"
  gi_SystemPrompt :: string
  gi_ModerationPrompt :: string
  gi_RAGPrompt :: string
  gi_ToolCallingPrompt :: string

record AgentConfigHistory =
  ah_ID :: int
  ah_ConfigID :: int
  ah_Version :: int
  ah_BeforeData :: string
  ah_AfterData :: string
  ah_AdminUserID :: int
  ah_AdminUsername :: string
  ah_CreatedAt :: time

text \<open>\<open>en_070\<close> and \<open>en_075\<close> are the two constants of the default configuration.\<close>

record 'f agent_env =
  en_pos :: "'f \<Rightarrow> bool"
  en_col :: "'f \<Rightarrow> 'f"
  en_enc :: "'f GlobalAgentConfig \<Rightarrow> string option"
  en_dec :: "string \<Rightarrow> 'f GlobalAgentConfig \<Rightarrow> 'f GlobalAgentConfig option"
  en_070 :: 'f
  en_075 :: 'f

record 'f agent_state =
  ag_config :: "'f GlobalAgentConfig option"
  ag_history :: "AgentConfigHistory list"
  ag_nextHistory :: int
  ag_admin :: admin_state

datatype config_error = ConfigFault | NoHistory | NoSnapshot | BadSnapshot

definition defaultGlobalAgentConfig :: "'f agent_env \<Rightarrow> 'f GlobalAgentConfig" where
  "defaultGlobalAgentConfig E =
     \<lparr>gc_ID = 1, gc_GlobalEnabled = True, gc_DefaultModel = ''deepseek-chat'', gc_EmbeddingModel = ''text-embedding-v3'',
      gc_Temperature = en_070 E, gc_MaxTokens = 4096, gc_RAGTopK = 5, gc_RAGSimilarityThreshold = en_070 E,
      gc_ChunkSize = 800, gc_ChunkOverlap = 120, gc_ModerationEnabled = True, gc_ModerationModel = ''deepseek-chat'',
      gc_ModerationThreshold = en_075 E, gc_ToolCallingEnabled = True, gc_AutoKickEnabled = False, gc_AutoBanEnabled = False,
      gc_SystemPrompt = [], gc_ModerationPrompt = [], gc_RAGPrompt = [], gc_ToolCallingPrompt = [],
      gc_UpdatedAt = zero_time, gc_CreatedAt = zero_time\<rparr>"

section \<open>The service\<close>

text \<open>What the columns keep of a configuration.\<close>

definition columns :: "'f agent_env \<Rightarrow> 'f GlobalAgentConfig \<Rightarrow> 'f GlobalAgentConfig" where
  "columns E cfg = cfg\<lparr>gc_Temperature := en_col E (gc_Temperature cfg),
     gc_RAGSimilarityThreshold := en_col E (gc_RAGSimilarityThreshold cfg),
     gc_ModerationThreshold := en_col E (gc_ModerationThreshold cfg)\<rparr>"

definition getOrCreate ::
    "'f agent_env \<Rightarrow> (nat \<Rightarrow> bool) \<Rightarrow> time \<Rightarrow> 'f agent_state \<Rightarrow> (config_error + 'f GlobalAgentConfig) \<times> 'f agent_state" where
  "getOrCreate E fault now s =
     (if fault 0 then (Inl ConfigFault, s)
      else
        (case ag_config s of
           Some cfg \<Rightarrow> (Inr cfg, s)
         | None \<Rightarrow>
             if fault 1 then (Inl ConfigFault, s)
             else
               (let defaults = (defaultGlobalAgentConfig E)\<lparr>gc_UpdatedAt := now, gc_CreatedAt := now\<rparr>
                in (Inr defaults, s\<lparr>ag_config := Some (columns E defaults)\<rparr>))))"

definition config_Get ::
    "'f agent_env \<Rightarrow> (nat \<Rightarrow> bool) \<Rightarrow> time \<Rightarrow> 'f agent_state \<Rightarrow> (config_error + 'f GlobalAgentConfig) \<times> 'f agent_state" where
  "config_Get E fault now s = getOrCreate E fault now s"

definition overlay :: "'f agent_env \<Rightarrow> 'f GlobalAgentConfigInput \<Rightarrow> 'f GlobalAgentConfig \<Rightarrow> 'f GlobalAgentConfig" where
  "overlay E i c =
     (let flag = (\<lambda>o' old. case o' of None \<Rightarrow> old | Some b \<Rightarrow> b);
          text = (\<lambda>new old. if new \<noteq> [] then new else old);
          num = (\<lambda>new old. if new > (0::int) then new else old);
          dec = (\<lambda>new old. if en_pos E new then new else old)
      in c\<lparr>gc_GlobalEnabled := flag (gi_GlobalEnabled i) (gc_GlobalEnabled c),
           gc_DefaultModel := text (gi_DefaultModel i) (gc_DefaultModel c),
           gc_EmbeddingModel := text (gi_EmbeddingModel i) (gc_EmbeddingModel c),
           gc_Temperature := dec (gi_Temperature i) (gc_Temperature c),
           gc_MaxTokens := num (gi_MaxTokens i) (gc_MaxTokens c),
           gc_RAGTopK := num (gi_RAGTopK i) (gc_RAGTopK c),
           gc_RAGSimilarityThreshold := dec (gi_RAGSimilarityThreshold i) (gc_RAGSimilarityThreshold c),
           gc_ChunkSize := num (gi_ChunkSize i) (gc_ChunkSize c),
           gc_ChunkOverlap := num (gi_ChunkOverlap i) (gc_ChunkOverlap c),
           gc_ModerationEnabled := flag (gi_ModerationEnabled i) (gc_ModerationEnabled c),
           gc_ModerationModel := text (gi_ModerationModel i) (gc_ModerationModel c),
           gc_ModerationThreshold := dec (gi_ModerationThreshold i) (gc_ModerationThreshold c),
           gc_ToolCallingEnabled := flag (gi_ToolCallingEnabled i) (gc_ToolCallingEnabled c),
           gc_AutoKickEnabled := flag (gi_AutoKickEnabled i) (gc_AutoKickEnabled c),
           gc_AutoBanEnabled := flag (gi_AutoBanEnabled i) (gc_AutoBanEnabled c),
           gc_SystemPrompt := text (gi_SystemPrompt i) (gc_SystemPrompt c),
           gc_ModerationPrompt := text (gi_ModerationPrompt i) (gc_ModerationPrompt c),
           gc_RAGPrompt := text (gi_RAGPrompt i) (gc_RAGPrompt c),
           gc_ToolCallingPrompt := text (gi_ToolCallingPrompt i) (gc_ToolCallingPrompt c)\<rparr>)"

definition afterJSON :: "'f agent_env \<Rightarrow> 'f GlobalAgentConfig \<Rightarrow> string" where
  "afterJSON E cfg = (case en_enc E cfg of None \<Rightarrow> [] | Some raw \<Rightarrow> raw)"

definition maxVersion :: "int \<Rightarrow> AgentConfigHistory list \<Rightarrow> int" where
  "maxVersion configID hs = fold (\<lambda>h m. if ah_ConfigID h = configID then max m (ah_Version h) else m) hs 0"

definition appendHistory ::
    "(nat \<Rightarrow> bool) \<Rightarrow> time \<Rightarrow> int \<Rightarrow> string \<Rightarrow> string \<Rightarrow> AuditAction \<Rightarrow> 'f agent_state \<Rightarrow> bool \<times> 'f agent_state" where
  "appendHistory fault now configID before aft action s =
     (if fault 3 \<or> fault 4 then (False, s)
      else
        (let record =
               \<lparr>ah_ID = ag_nextHistory s, ah_ConfigID = configID, ah_Version = maxVersion configID (ag_history s) + 1,
                ah_BeforeData = before, ah_AfterData = aft, ah_AdminUserID = aa_AdminUserID action,
                ah_AdminUsername = aa_AdminName action, ah_CreatedAt = now\<rparr>
         in (True, s\<lparr>ag_history := ag_history s @ [record], ag_nextHistory := ag_nextHistory s + 1\<rparr>)))"

text \<open>The transaction that both changes share: the row and its history entry.\<close>

definition save_version ::
    "'f agent_env \<Rightarrow> (nat \<Rightarrow> bool) \<Rightarrow> time \<Rightarrow> string \<Rightarrow> 'f GlobalAgentConfig \<Rightarrow> AuditAction \<Rightarrow> 'f agent_state \<Rightarrow>
     (config_error + 'f GlobalAgentConfig) \<times> 'f agent_state" where
  "save_version E fault now before cfg action s =
     (if fault 2 then (Inl ConfigFault, s)
      else
        (let cfg' = cfg\<lparr>gc_UpdatedAt := now\<rparr>
         in case appendHistory fault now (gc_ID cfg') before (afterJSON E cfg') action (s\<lparr>ag_config := Some (columns E cfg')\<rparr>) of
              (False, _) \<Rightarrow> (Inl ConfigFault, s)
            | (True, s') \<Rightarrow> if fault 5 then (Inl ConfigFault, s) else (Inr cfg', s')))"

definition config_audit ::
    "(audit_value \<Rightarrow> string option) \<Rightarrow> bool \<Rightarrow> time \<Rightarrow> string \<Rightarrow> string \<Rightarrow> audit_value \<Rightarrow> audit_value \<Rightarrow> AuditAction \<Rightarrow>
     'f agent_state \<Rightarrow> 'f agent_state" where
  "config_audit json fault now what target before aft action s =
     s\<lparr>ag_admin := snd (audit_Log json fault now
       (success_entry what ''global_agent_config'' target before aft action) (ag_admin s))\<rparr>"

definition config_Update ::
    "(audit_value \<Rightarrow> string option) \<Rightarrow> 'f agent_env \<Rightarrow> (nat \<Rightarrow> bool) \<Rightarrow> time \<Rightarrow> 'f GlobalAgentConfigInput \<Rightarrow> AuditAction \<Rightarrow>
     'f agent_state \<Rightarrow> (config_error + 'f GlobalAgentConfig) \<times> 'f agent_state" where
  "config_Update json E fault now input action s =
     (case getOrCreate E fault now s of
        (Inl e, s1) \<Rightarrow> (Inl e, s1)
      | (Inr cfg, s1) \<Rightarrow>
          (case save_version E fault now (afterJSON E cfg) (overlay E input cfg) action s1 of
             (Inl e, s2) \<Rightarrow> (Inl e, s2)
           | (Inr cfg', s2) \<Rightarrow>
               (Inr cfg', config_audit json (fault 6) now ''agent.config.update'' (FormatInt (gc_ID cfg'))
                  (AString (afterJSON E cfg)) (AString (afterJSON E cfg')) action s2)))"

definition config_Rollback ::
    "(audit_value \<Rightarrow> string option) \<Rightarrow> 'f agent_env \<Rightarrow> bool \<Rightarrow> (nat \<Rightarrow> bool) \<Rightarrow> time \<Rightarrow> AuditAction \<Rightarrow>
     'f agent_state \<Rightarrow> (config_error + 'f GlobalAgentConfig) \<times> 'f agent_state" where
  "config_Rollback json E readFault fault now action s =
     (if readFault then (Inl ConfigFault, s)
      else
        (case rev (sort_key ah_ID (filter (\<lambda>h. ah_ConfigID h = 1) (ag_history s))) of
           [] \<Rightarrow> (Inl NoHistory, s)
         | latest # _ \<Rightarrow>
             if ah_BeforeData latest = [] then (Inl NoSnapshot, s)
             else
               (case getOrCreate E fault now s of
                  (Inl e, s1) \<Rightarrow> (Inl e, s1)
                | (Inr cfg, s1) \<Rightarrow>
                    (case en_dec E (ah_BeforeData latest) cfg of
                       None \<Rightarrow> (Inl BadSnapshot, s1)
                     | Some old \<Rightarrow>
                         (case save_version E fault now (afterJSON E cfg) (old\<lparr>gc_ID := 1\<rparr>) action s1 of
                            (Inl e, s2) \<Rightarrow> (Inl e, s2)
                          | (Inr cfg', s2) \<Rightarrow>
                              (Inr cfg', config_audit json (fault 6) now ''agent.config.rollback'' ''1'' ANil ANil action s2))))))"

definition config_History ::
    "bool \<Rightarrow> int \<Rightarrow> int \<Rightarrow> 'f agent_state \<Rightarrow> config_error + (AgentConfigHistory list \<times> nat)" where
  "config_History fault page pageSize s =
     (if fault then Inl ConfigFault
      else
        (let rows = filter (\<lambda>h. ah_ConfigID h = 1) (ag_history s)
         in Inr (page_of page pageSize (rev (sort_key ah_ID rows)), length rows)))"

section \<open>Invariant\<close>

definition agent_ok :: "'f agent_env \<Rightarrow> 'f agent_state \<Rightarrow> bool" where
  "agent_ok E s \<longleftrightarrow>
     (\<forall>cfg. ag_config s = Some cfg \<longrightarrow> gc_ID cfg = 1 \<and> columns E cfg = cfg) \<and>
     (\<forall>h \<in> set (ag_history s). ah_ConfigID h = 1 \<and> ah_ID h < ag_nextHistory s) \<and>
     sorted_wrt (<) (map ah_ID (ag_history s)) \<and>
     map ah_Version (ag_history s) = map int [1..<Suc (length (ag_history s))]"

text \<open>
  What the encoding and the columns do: a column keeps what it holds, the two default values fit, a stored
  configuration can be encoded, and its text is not empty and decodes to it.
\<close>

definition env_laws :: "'f agent_env \<Rightarrow> bool" where
  "env_laws E \<longleftrightarrow> (\<forall>x. en_col E (en_col E x) = en_col E x) \<and> en_col E (en_070 E) = en_070 E \<and> en_col E (en_075 E) = en_075 E \<and>
     (\<forall>c. columns E c = c \<longrightarrow> en_enc E c \<noteq> None) \<and>
     (\<forall>c c' j. columns E c = c \<longrightarrow> en_enc E c = Some j \<longrightarrow> j \<noteq> [] \<and> en_dec E j c' = Some c)"

lemma columns_idem: "env_laws E \<Longrightarrow> columns E (columns E c) = columns E c"
  by (simp add: columns_def env_laws_def)

lemma columns_updates [simp]:
  "columns E (c\<lparr>gc_UpdatedAt := t\<rparr>) = (columns E c)\<lparr>gc_UpdatedAt := t\<rparr>"
  "columns E (c\<lparr>gc_CreatedAt := t\<rparr>) = (columns E c)\<lparr>gc_CreatedAt := t\<rparr>"
  "gc_ID (columns E c) = gc_ID c"
  by (simp_all add: columns_def)

lemma columns_default: "env_laws E \<Longrightarrow> columns E (defaultGlobalAgentConfig E) = defaultGlobalAgentConfig E"
  by (simp add: columns_def defaultGlobalAgentConfig_def env_laws_def)

lemma default_ID: "gc_ID (defaultGlobalAgentConfig E) = 1"
  by (simp add: defaultGlobalAgentConfig_def)

lemma overlay_ID [simp]: "gc_ID (overlay E i c) = gc_ID c"
  by (simp add: overlay_def Let_def)

lemma maxVersion_snoc:
  "maxVersion i (hs @ [h]) = (if ah_ConfigID h = i then max (maxVersion i hs) (ah_Version h) else maxVersion i hs)"
  by (simp add: maxVersion_def)

lemma maxVersion_dense:
  assumes "\<forall>h \<in> set hs. ah_ConfigID h = 1" "map ah_Version hs = map int [1..<Suc (length hs)]"
  shows "maxVersion 1 hs = int (length hs)"
  using assms
proof (induction hs rule: rev_induct)
  case Nil
  show ?case by (simp add: maxVersion_def)
next
  case (snoc h hs)
  then show ?case by (simp add: maxVersion_snoc)
qed

definition stored_config :: "'f agent_env \<Rightarrow> time \<Rightarrow> 'f agent_state \<Rightarrow> 'f GlobalAgentConfig" where
  "stored_config E now s = (case ag_config s of Some r \<Rightarrow> r
     | None \<Rightarrow> (defaultGlobalAgentConfig E)\<lparr>gc_UpdatedAt := now, gc_CreatedAt := now\<rparr>)"

lemma stored_config_ok:
  assumes "env_laws E" "agent_ok E s"
  shows "gc_ID (stored_config E now s) = 1" "columns E (stored_config E now s) = stored_config E now s"
  using assms columns_default [OF assms(1)] default_ID [of E]
  by (simp_all add: stored_config_def agent_ok_def split: option.splits)

lemma getOrCreate_Inr:
  assumes "env_laws E" "agent_ok E s" "getOrCreate E fault now s = (Inr cfg, s1)"
  shows "cfg = stored_config E now s" "s1 = s\<lparr>ag_config := Some (stored_config E now s)\<rparr>" "agent_ok E s1"
proof -
  have "cfg = stored_config E now s \<and> s1 = s\<lparr>ag_config := Some (columns E (stored_config E now s))\<rparr>"
    using assms(3) stored_config_ok [OF assms(1,2), of now]
    by (cases "ag_config s") (auto simp: getOrCreate_def stored_config_def Let_def split: if_splits)
  then show c: "cfg = stored_config E now s" "s1 = s\<lparr>ag_config := Some (stored_config E now s)\<rparr>"
    using stored_config_ok [OF assms(1,2), of now] by simp_all
  show "agent_ok E s1" using c(2) stored_config_ok [OF assms(1,2), of now] assms(2) by (simp add: agent_ok_def)
qed

lemma getOrCreate_ok: "env_laws E \<Longrightarrow> agent_ok E s \<Longrightarrow> agent_ok E (snd (getOrCreate E fault now s))"
  using getOrCreate_Inr [of E s fault now] by (cases "getOrCreate E fault now s"; cases "fst (getOrCreate E fault now s)")
    (auto simp: getOrCreate_def Let_def split: if_splits option.splits)

text \<open>What a successful transaction leaves.\<close>

definition saved ::
    "'f agent_env \<Rightarrow> time \<Rightarrow> string \<Rightarrow> 'f GlobalAgentConfig \<Rightarrow> 'f agent_state \<Rightarrow> 'f agent_state \<Rightarrow> bool" where
  "saved E now before cfg s s' \<longleftrightarrow> ag_config s' = Some (columns E (cfg\<lparr>gc_UpdatedAt := now\<rparr>)) \<and>
     (\<exists>h. ag_history s' = ag_history s @ [h] \<and> ah_BeforeData h = before) \<and> agent_ok E s'"

lemma save_version_cases:
  assumes "env_laws E" "agent_ok E s" "gc_ID cfg = 1" "save_version E fault now before cfg action s = (res, s')"
  shows "(\<exists>e. res = Inl e \<and> s' = s) \<or> (res = Inr (cfg\<lparr>gc_UpdatedAt := now\<rparr>) \<and> saved E now before cfg s s')"
    "fault = (\<lambda>_. False) \<Longrightarrow> res = Inr (cfg\<lparr>gc_UpdatedAt := now\<rparr>)"
proof -
  let ?c = "cfg\<lparr>gc_UpdatedAt := now\<rparr>"
  let ?h = "\<lparr>ah_ID = ag_nextHistory s, ah_ConfigID = 1, ah_Version = int (length (ag_history s)) + 1,
      ah_BeforeData = before, ah_AfterData = afterJSON E ?c, ah_AdminUserID = aa_AdminUserID action,
      ah_AdminUsername = aa_AdminName action, ah_CreatedAt = now\<rparr>"
  let ?s = "s\<lparr>ag_config := Some (columns E ?c), ag_history := ag_history s @ [?h], ag_nextHistory := ag_nextHistory s + 1\<rparr>"
  have v: "maxVersion 1 (ag_history s) = int (length (ag_history s))"
    using assms(2) by (intro maxVersion_dense) (simp_all add: agent_ok_def)
  have r: "(res, s') = (if fault 2 \<or> fault 3 \<or> fault 4 \<or> fault 5 then (Inl ConfigFault, s) else (Inr ?c, ?s))"
    using assms(3,4) v by (auto simp: save_version_def appendHistory_def Let_def split: if_splits)
  have "agent_ok E ?s"
    using assms(2,3) columns_idem [OF assms(1)] by (auto simp: agent_ok_def sorted_wrt_append less_imp_le)
  then have "saved E now before cfg s ?s" by (simp add: saved_def)
  with r show "(\<exists>e. res = Inl e \<and> s' = s) \<or> (res = Inr ?c \<and> saved E now before cfg s s')" by (auto split: if_splits)
  show "fault = (\<lambda>_. False) \<Longrightarrow> res = Inr ?c" using r by simp
qed

lemma config_audit_keeps [simp]:
  "ag_config (config_audit json f now w t b a action s) = ag_config s"
  "ag_history (config_audit json f now w t b a action s) = ag_history s"
  "agent_ok E (config_audit json f now w t b a action s) = agent_ok E s"
  by (simp_all add: config_audit_def agent_ok_def)

lemma latest_history:
  assumes "agent_ok E s"
  shows "rev (sort_key ah_ID (filter (\<lambda>h. ah_ConfigID h = 1) (ag_history s))) = rev (ag_history s)"
proof -
  have "filter (\<lambda>h. ah_ConfigID h = 1) (ag_history s) = ag_history s" using assms by (simp add: agent_ok_def)
  moreover have "sorted (map ah_ID (ag_history s))"
    using assms strict_sorted_iff by (auto simp: agent_ok_def)
  ultimately show ?thesis by (simp add: sort_key_id_if_sorted)
qed

lemma Update_cases:
  assumes "env_laws E" "agent_ok E s" "config_Update json E fault now input action s = (res, s')"
  shows "agent_ok E s'"
    "res = Inr cfg \<Longrightarrow> ag_config s' = Some (columns E (overlay E input (stored_config E now s)\<lparr>gc_UpdatedAt := now\<rparr>)) \<and>
      (\<exists>h. ag_history s' = ag_history s @ [h] \<and> ah_BeforeData h = afterJSON E (stored_config E now s))"
    "res = Inl e \<Longrightarrow> ag_history s' = ag_history s"
proof -
  obtain r s1 where g: "getOrCreate E fault now s = (r, s1)" by (rule prod.exhaust)
  have ok1: "agent_ok E s1" using getOrCreate_ok [OF assms(1,2), of fault now] g by simp
  have h1: "ag_history s1 = ag_history s" using g by (auto simp: getOrCreate_def Let_def split: if_splits option.splits)
  have "agent_ok E s' \<and> (res = Inr cfg \<longrightarrow> ag_config s' = Some (columns E (overlay E input (stored_config E now s)\<lparr>gc_UpdatedAt := now\<rparr>)) \<and>
      (\<exists>h. ag_history s' = ag_history s @ [h] \<and> ah_BeforeData h = afterJSON E (stored_config E now s))) \<and>
    (res = Inl e \<longrightarrow> ag_history s' = ag_history s)"
  proof (cases r)
    case (Inl x)
    with assms(3) g ok1 h1 show ?thesis by (auto simp: config_Update_def)
  next
    case (Inr c)
    have c: "c = stored_config E now s" using getOrCreate_Inr [OF assms(1,2)] g Inr by blast
    have id: "gc_ID (overlay E input c) = 1" using stored_config_ok(1) [OF assms(1,2)] c by simp
    obtain q s2 where q: "save_version E fault now (afterJSON E c) (overlay E input c) action s1 = (q, s2)" by (rule prod.exhaust)
    from save_version_cases(1) [OF assms(1) ok1 id q] show ?thesis
    proof (elim disjE conjE exE)
      fix x assume "q = Inl x" "s2 = s1"
      with assms(3) g Inr q ok1 h1 show ?thesis by (auto simp: config_Update_def)
    next
      assume "q = Inr (overlay E input c\<lparr>gc_UpdatedAt := now\<rparr>)" "saved E now (afterJSON E c) (overlay E input c) s1 s2"
      with assms(3) g Inr q h1 c show ?thesis by (auto simp: config_Update_def saved_def)
    qed
  qed
  then show "agent_ok E s'"
    "res = Inr cfg \<Longrightarrow> ag_config s' = Some (columns E (overlay E input (stored_config E now s)\<lparr>gc_UpdatedAt := now\<rparr>)) \<and>
      (\<exists>h. ag_history s' = ag_history s @ [h] \<and> ah_BeforeData h = afterJSON E (stored_config E now s))"
    "res = Inl e \<Longrightarrow> ag_history s' = ag_history s" by blast+
qed

lemma Rollback_last:
  assumes "agent_ok E s" "ag_history s = hs @ [h]" "ah_BeforeData h \<noteq> []"
  shows "config_Rollback json E False fault now action s =
    (case getOrCreate E fault now s of
       (Inl e, s1) \<Rightarrow> (Inl e, s1)
     | (Inr cfg, s1) \<Rightarrow>
         (case en_dec E (ah_BeforeData h) cfg of
            None \<Rightarrow> (Inl BadSnapshot, s1)
          | Some old \<Rightarrow>
              (case save_version E fault now (afterJSON E cfg) (old\<lparr>gc_ID := 1\<rparr>) action s1 of
                 (Inl e, s2) \<Rightarrow> (Inl e, s2)
               | (Inr cfg', s2) \<Rightarrow>
                   (Inr cfg', config_audit json (fault 6) now ''agent.config.rollback'' ''1'' ANil ANil action s2))))"
  unfolding config_Rollback_def unfolding latest_history [OF assms(1)] unfolding assms(2) using assms(3) by simp

lemma Rollback_refused:
  assumes "agent_ok E s" "rf \<or> ag_history s = [] \<or> ah_BeforeData (last (ag_history s)) = []"
  shows "\<exists>e. config_Rollback json E rf fault now action s = (Inl e, s)"
  using assms(2) unfolding config_Rollback_def unfolding latest_history [OF assms(1)]
  by (cases "ag_history s" rule: rev_cases) auto

lemma Rollback_ok:
  assumes "env_laws E" "agent_ok E s" "config_Rollback json E rf fault now action s = (res, s')"
  shows "agent_ok E s'" "length (ag_history s') = length (ag_history s) + (case res of Inl _ \<Rightarrow> 0 | Inr _ \<Rightarrow> 1)"
proof -
  have "agent_ok E s' \<and> length (ag_history s') = length (ag_history s) + (case res of Inl _ \<Rightarrow> 0 | Inr _ \<Rightarrow> 1)"
  proof (cases "rf \<or> ag_history s = [] \<or> ah_BeforeData (last (ag_history s)) = []")
    case True
    with Rollback_refused [OF assms(2), of rf json fault now action] assms(2,3) show ?thesis by auto
  next
    case False
    then obtain hs h where l: "ag_history s = hs @ [h]" "ah_BeforeData h \<noteq> []" by (cases "ag_history s" rule: rev_cases) auto
    have rb: "config_Rollback json E False fault now action s = (res, s')" using assms(3) False by simp
    note eq = rb [unfolded Rollback_last [OF assms(2) l]]
    obtain r s1 where g: "getOrCreate E fault now s = (r, s1)" by (rule prod.exhaust)
    have ok1: "agent_ok E s1" using getOrCreate_ok [OF assms(1,2), of fault now] g by simp
    have h1: "length (ag_history s1) = length (ag_history s)"
      using g by (auto simp: getOrCreate_def Let_def split: if_splits option.splits)
    show ?thesis
    proof (cases "\<exists>c old. r = Inr c \<and> en_dec E (ah_BeforeData h) c = Some old")
      case no: False
      with eq g ok1 h1 show ?thesis by (cases r) auto
    next
      case True
      then obtain c old where d: "r = Inr c" "en_dec E (ah_BeforeData h) c = Some old" by blast
      obtain q s2 where q: "save_version E fault now (afterJSON E c) (old\<lparr>gc_ID := 1\<rparr>) action s1 = (q, s2)" by (rule prod.exhaust)
      have id: "gc_ID (old\<lparr>gc_ID := 1\<rparr>) = 1" by simp
      from save_version_cases(1) [OF assms(1) ok1 id q] show ?thesis
      proof (elim disjE conjE exE)
        fix x assume "q = Inl x" "s2 = s1"
        with eq g d q ok1 h1 show ?thesis by auto
      next
        assume "q = Inr (old\<lparr>gc_ID := 1\<rparr>\<lparr>gc_UpdatedAt := now\<rparr>)" "saved E now (afterJSON E c) (old\<lparr>gc_ID := 1\<rparr>) s1 s2"
        with eq g d q h1 show ?thesis by (auto simp: saved_def)
      qed
    qed
  qed
  then show "agent_ok E s'" "length (ag_history s') = length (ag_history s) + (case res of Inl _ \<Rightarrow> 0 | Inr _ \<Rightarrow> 1)" by auto
qed

lemma Rollback_restores:
  assumes "env_laws E" "agent_ok E s" "ag_config s = Some row" "ag_history s = hs @ [h]" "ah_BeforeData h = afterJSON E old"
    and "columns E old = old" "gc_ID old = 1"
  shows "\<exists>cfg s'. config_Rollback json E False (\<lambda>_. False) now action s = (Inr cfg, s') \<and>
    ag_config s' = Some (old\<lparr>gc_UpdatedAt := now\<rparr>) \<and> agent_ok E s' \<and>
    (\<exists>h'. ag_history s' = ag_history s @ [h'] \<and> ah_BeforeData h' = afterJSON E row)"
proof -
  obtain j where j: "en_enc E old = Some j" "j \<noteq> []" "\<And>c. en_dec E j c = Some old"
    using assms(1,6) unfolding env_laws_def by blast
  have g: "getOrCreate E (\<lambda>_. False) now s = (Inr row, s)" using assms(3) by (simp add: getOrCreate_def)
  obtain q s2 where q: "save_version E (\<lambda>_. False) now (afterJSON E row) (old\<lparr>gc_ID := 1\<rparr>) action s = (q, s2)" by (rule prod.exhaust)
  have old: "old\<lparr>gc_ID := 1\<rparr> = old" using assms(7) by simp
  note sv = save_version_cases [OF assms(1,2) assms(7) q [unfolded old]]
  have s2: "q = Inr (old\<lparr>gc_UpdatedAt := now\<rparr>)" "saved E now (afterJSON E row) old s s2" using sv by auto
  have bd: "ah_BeforeData h = j" using assms(5) j(1) by (simp add: afterJSON_def)
  have r: "config_Rollback json E False (\<lambda>_. False) now action s =
      (Inr (old\<lparr>gc_UpdatedAt := now\<rparr>), config_audit json False now ''agent.config.rollback'' ''1'' ANil ANil action s2)"
    using Rollback_last [OF assms(2,4)] j(2,3) g q s2(1) bd by simp
  show ?thesis unfolding r using s2(2) assms(6) by (simp add: saved_def)
qed


section \<open>Reachable states\<close>

text \<open>A request of the administrator interface that reaches the service, with what fails during it and its time.\<close>

datatype 'f config_call =
  CGet "nat \<Rightarrow> bool" time
  | CUpdate "nat \<Rightarrow> bool" time "'f GlobalAgentConfigInput" AuditAction
  | CRollback bool "nat \<Rightarrow> bool" time AuditAction

fun run_config_call ::
    "(audit_value \<Rightarrow> string option) \<Rightarrow> 'f agent_env \<Rightarrow> 'f config_call \<Rightarrow> 'f agent_state \<Rightarrow>
     (config_error + 'f GlobalAgentConfig) \<times> 'f agent_state" where
  "run_config_call json E (CGet fault now) s = config_Get E fault now s"
| "run_config_call json E (CUpdate fault now input action) s = config_Update json E fault now input action s"
| "run_config_call json E (CRollback rf fault now action) s = config_Rollback json E rf fault now action s"

fun is_change :: "'f config_call \<Rightarrow> bool" where
  "is_change (CGet _ _) = False"
| "is_change (CUpdate _ _ _ _) = True"
| "is_change (CRollback _ _ _ _) = True"

text \<open>The state after a sequence of calls, and the number of changes that succeeded.\<close>

fun run_config ::
    "(audit_value \<Rightarrow> string option) \<Rightarrow> 'f agent_env \<Rightarrow> 'f config_call list \<Rightarrow> 'f agent_state \<Rightarrow> nat \<times> 'f agent_state" where
  "run_config json E [] s = (0, s)"
| "run_config json E (c # cs) s =
     (case run_config_call json E c s of
        (res, s1) \<Rightarrow> (case run_config json E cs s1 of (n, s2) \<Rightarrow> (n + (if is_change c \<and> \<not> isl res then 1 else 0), s2)))"

definition empty_agent :: "admin_state \<Rightarrow> 'f agent_state" where
  "empty_agent adm = \<lparr>ag_config = None, ag_history = [], ag_nextHistory = 1, ag_admin = adm\<rparr>"

lemma empty_agent_ok [simp]: "agent_ok E (empty_agent adm)"
  by (simp add: empty_agent_def agent_ok_def)

lemma Update_length:
  assumes "env_laws E" "agent_ok E s" "config_Update json E fault now input action s = (res, s')"
  shows "length (ag_history s') = length (ag_history s) + (if \<not> isl res then 1 else 0)"
proof (cases res)
  case (Inl e)
  with Update_cases(3) [OF assms Inl] show ?thesis by simp
next
  case (Inr cfg)
  with Update_cases(2) [OF assms Inr] show ?thesis by auto
qed

lemma Get_length:
  "config_Get E fault now s = (res, s') \<Longrightarrow> ag_history s' = ag_history s"
  by (auto simp: config_Get_def getOrCreate_def Let_def split: if_splits option.splits)

lemma run_config_call_ok:
  assumes "env_laws E" "agent_ok E s" "run_config_call json E c s = (res, s')"
  shows "agent_ok E s'" "length (ag_history s') = length (ag_history s) + (if is_change c \<and> \<not> isl res then 1 else 0)"
proof -
  have "agent_ok E s' \<and> length (ag_history s') = length (ag_history s) + (if is_change c \<and> \<not> isl res then 1 else 0)"
  proof (cases c)
    case (CGet fault now)
    then show ?thesis
      using assms(3) getOrCreate_ok [OF assms(1,2), of fault now] Get_length [of E fault now s]
      by (auto simp: config_Get_def)
  next
    case (CUpdate fault now input action)
    then have "config_Update json E fault now input action s = (res, s')" using assms(3) by simp
    from Update_cases(1) [OF assms(1,2) this] Update_length [OF assms(1,2) this] CUpdate show ?thesis by simp
  next
    case (CRollback rf fault now action)
    then have "config_Rollback json E rf fault now action s = (res, s')" using assms(3) by simp
    from Rollback_ok [OF assms(1,2) this] CRollback show ?thesis by (cases res) simp_all
  qed
  then show "agent_ok E s'" "length (ag_history s') = length (ag_history s) + (if is_change c \<and> \<not> isl res then 1 else 0)" by auto
qed

lemma run_config_ok:
  assumes "env_laws E" "agent_ok E s" "run_config json E cs s = (n, s')"
  shows "agent_ok E s' \<and> length (ag_history s') = length (ag_history s) + n"
  using assms(2,3)
proof (induction cs arbitrary: s n)
  case (Cons c cs)
  obtain res s1 where c: "run_config_call json E c s = (res, s1)" by (rule prod.exhaust)
  obtain m s2 where m: "run_config json E cs s1 = (m, s2)" by (rule prod.exhaust)
  have e: "s' = s2" "n = m + (if is_change c \<and> \<not> isl res then 1 else 0)" using Cons.prems(2) c m by auto
  note ok = run_config_call_ok [OF assms(1) Cons.prems(1) c]
  from Cons.IH [OF ok(1) m [folded e(1)]] show ?case using e ok(2) by simp
qed simp

text \<open>
  The history of the agent configuration is complete and gap free: after any sequence of reads, updates and
  rollbacks, with any database faults in between, starting from empty tables, there is exactly one history entry per
  change that the service reported as successful, the entries are numbered 1, 2, 3 and so on in the order they were
  made, and the stored row, if there is one, is the row with identifier 1.
\<close>

lemma config_history_versions:
  assumes "env_laws E" "run_config json E cs (empty_agent adm) = (n, s)"
  shows "map ah_Version (ag_history s) = map int [1..<Suc n] \<and> (\<forall>row. ag_config s = Some row \<longrightarrow> gc_ID row = 1)"
proof -
  have ok: "agent_ok E s" and len: "length (ag_history s) = n"
    using run_config_ok [OF assms(1) empty_agent_ok assms(2)] by (simp_all add: empty_agent_def)
  have "map ah_Version (ag_history s) = map int [1..<Suc n]" using ok len by (simp add: agent_ok_def)
  moreover have "\<forall>row. ag_config s = Some row \<longrightarrow> gc_ID row = 1" using ok by (simp add: agent_ok_def)
  ultimately show ?thesis by blast
qed

text \<open>
  C32: A rollback right after an update undoes it: the row is again what it was before the update (only its update time
  differs). A second rollback right after the first does not go one version further back, it redoes the update: the
  row is what the update had stored. Both hold when the database does not fail during the rollbacks.
\<close>

theorem rollback_undoes_update:
  assumes "env_laws E" "agent_ok E s"
    and "config_Update json E fault now input action s = (Inr cfg, s1)"
    and "config_Rollback json E False (\<lambda>_. False) now2 action2 s1 = (res2, s2)"
    and "config_Rollback json E False (\<lambda>_. False) now3 action3 s2 = (res3, s3)"
  shows "\<not> isl res2 \<and> ag_config s2 = Some ((stored_config E now s)\<lparr>gc_UpdatedAt := now2\<rparr>) \<and>
    \<not> isl res3 \<and> (\<exists>row. ag_config s1 = Some row \<and> ag_config s3 = Some (row\<lparr>gc_UpdatedAt := now3\<rparr>))"
proof -
  let ?old = "stored_config E now s" and ?row = "columns E (overlay E input (stored_config E now s)\<lparr>gc_UpdatedAt := now\<rparr>)"
  note u = Update_cases [OF assms(1-3)]
  have ok1: "agent_ok E s1" by (rule u(1))
  obtain h where h: "ag_config s1 = Some ?row" "ag_history s1 = ag_history s @ [h]" "ah_BeforeData h = afterJSON E ?old"
    using u(2) [OF refl] by blast
  note so = stored_config_ok [OF assms(1,2), of now]
  obtain h2 where h2: "\<not> isl res2" "ag_config s2 = Some (?old\<lparr>gc_UpdatedAt := now2\<rparr>)" "agent_ok E s2"
      "ag_history s2 = ag_history s1 @ [h2]" "ah_BeforeData h2 = afterJSON E ?row"
    using Rollback_restores [OF assms(1) ok1 h so(2,1), of json now2 action2] assms(4) by auto
  have row: "columns E ?row = ?row" "gc_ID ?row = 1" using columns_idem [OF assms(1)] so(1) by simp_all
  have "\<not> isl res3 \<and> (\<exists>row. ag_config s1 = Some row \<and> ag_config s3 = Some (row\<lparr>gc_UpdatedAt := now3\<rparr>))"
    using Rollback_restores [OF assms(1) h2(3,2,4,5) row, of json now3 action3] assms(5) h(1) by auto
  then show ?thesis using h2(1,2) by simp
qed


section \<open>Handlers\<close>

text \<open>
  The handlers of \<^verbatim>\<open>admin_agent_config.go\<close>. \<open>up\<close> says that the service was set at start-up; a body that does not bind is
  \<open>None\<close>.
\<close>

definition AdminAgentConfigGet ::
    "bool \<Rightarrow> 'f agent_env \<Rightarrow> (nat \<Rightarrow> bool) \<Rightarrow> time \<Rightarrow> 'f agent_state \<Rightarrow> (http_status \<times> 'f GlobalAgentConfig option) \<times> 'f agent_state" where
  "AdminAgentConfigGet up E fault now s =
     (if \<not> up then ((Unavailable, None), s)
      else
        (case config_Get E fault now s of
           (Inl _, s') \<Rightarrow> ((ServerError, None), s')
         | (Inr cfg, s') \<Rightarrow> ((OK, Some cfg), s')))"

definition AdminAgentConfigUpdate ::
    "bool \<Rightarrow> (audit_value \<Rightarrow> string option) \<Rightarrow> 'f agent_env \<Rightarrow> (nat \<Rightarrow> bool) \<Rightarrow> time \<Rightarrow> gin_context \<Rightarrow> admin_request \<Rightarrow>
     'f GlobalAgentConfigInput option \<Rightarrow> 'f agent_state \<Rightarrow> (http_status \<times> 'f GlobalAgentConfig option) \<times> 'f agent_state" where
  "AdminAgentConfigUpdate up json E fault now c rq body s =
     (if \<not> up then ((Unavailable, None), s)
      else
        (case body of
           None \<Rightarrow> ((BadRequest, None), s)
         | Some req \<Rightarrow>
             (case config_Update json E fault now req (adminAuditAction c rq) s of
                (Inl _, s') \<Rightarrow> ((ServerError, None), s')
              | (Inr cfg, s') \<Rightarrow> ((OK, Some cfg), s'))))"

definition AdminAgentConfigRollback ::
    "bool \<Rightarrow> (audit_value \<Rightarrow> string option) \<Rightarrow> 'f agent_env \<Rightarrow> bool \<Rightarrow> (nat \<Rightarrow> bool) \<Rightarrow> time \<Rightarrow> gin_context \<Rightarrow> admin_request \<Rightarrow>
     'f agent_state \<Rightarrow> (http_status \<times> 'f GlobalAgentConfig option) \<times> 'f agent_state" where
  "AdminAgentConfigRollback up json E readFault fault now c rq s =
     (if \<not> up then ((Unavailable, None), s)
      else
        (case config_Rollback json E readFault fault now (adminAuditAction c rq) s of
           (Inl _, s') \<Rightarrow> ((ServerError, None), s')
         | (Inr cfg, s') \<Rightarrow> ((OK, Some cfg), s')))"

definition AdminAgentConfigHistory ::
    "bool \<Rightarrow> bool \<Rightarrow> string option \<Rightarrow> string option \<Rightarrow> 'f agent_state \<Rightarrow> http_status \<times> (AgentConfigHistory list \<times> nat) option" where
  "AdminAgentConfigHistory up fault pageQ sizeQ s =
     (if \<not> up then (Unavailable, None)
      else
        (let (page, pageSize) = page_params pageQ sizeQ
         in case config_History fault page pageSize s of
              Inl _ \<Rightarrow> (ServerError, None)
            | Inr r \<Rightarrow> (OK, Some r)))"

section \<open>A codec that keeps the laws\<close>

text \<open>
  The laws on the environment can be met: an encoding that marks every character of a text, counts an integer in unary
  and writes the fields one after the other decodes to what it encoded.
\<close>

fun enc_text :: "string \<Rightarrow> string" where
  "enc_text [] = ''.''"
| "enc_text (c # cs) = CHR ''x'' # c # enc_text cs"

fun dec_text :: "string \<Rightarrow> string \<times> string" where
  "dec_text (m # c # r) = (if m = CHR ''x'' then (let (s, r') = dec_text r in (c # s, r')) else ([], c # r))"
| "dec_text r = ([], [])"

lemma dec_enc_text [simp]: "dec_text (enc_text s @ r) = (s, r)"
proof (induction s)
  case Nil
  show ?case by (cases r) simp_all
qed simp

definition enc_num :: "int \<Rightarrow> string" where
  "enc_num i = enc_text ((if i < 0 then ''-'' else ''+'') @ replicate (nat \<bar>i\<bar>) CHR ''1'')"

definition dec_num :: "string \<Rightarrow> int \<times> string" where
  "dec_num t = (case dec_text t of (s, r) \<Rightarrow> ((if hd s = CHR ''-'' then - int (length s - 1) else int (length s - 1)), r))"

lemma dec_enc_num [simp]: "dec_num (enc_num i @ r) = (i, r)"
  by (simp add: enc_num_def dec_num_def)

definition enc_flag :: "bool \<Rightarrow> string" where
  "enc_flag b = enc_num (if b then 1 else 0)"

definition dec_flag :: "string \<Rightarrow> bool \<times> string" where
  "dec_flag t = (case dec_num t of (i, r) \<Rightarrow> (i = 1, r))"

lemma dec_enc_flag [simp]: "dec_flag (enc_flag b @ r) = (b, r)"
  by (simp add: enc_flag_def dec_flag_def)

definition sample_enc :: "int GlobalAgentConfig \<Rightarrow> string" where
  "sample_enc c = enc_num (gc_ID c) @ enc_flag (gc_GlobalEnabled c) @ enc_text (gc_DefaultModel c) @
     enc_text (gc_EmbeddingModel c) @ enc_num (gc_Temperature c) @ enc_num (gc_MaxTokens c) @ enc_num (gc_RAGTopK c) @
     enc_num (gc_RAGSimilarityThreshold c) @ enc_num (gc_ChunkSize c) @ enc_num (gc_ChunkOverlap c) @
     enc_flag (gc_ModerationEnabled c) @ enc_text (gc_ModerationModel c) @ enc_num (gc_ModerationThreshold c) @
     enc_flag (gc_ToolCallingEnabled c) @ enc_flag (gc_AutoKickEnabled c) @ enc_flag (gc_AutoBanEnabled c) @
     enc_text (gc_SystemPrompt c) @ enc_text (gc_ModerationPrompt c) @ enc_text (gc_RAGPrompt c) @
     enc_text (gc_ToolCallingPrompt c) @ enc_num (gc_UpdatedAt c) @ enc_num (gc_CreatedAt c) @ ''}''"

definition sample_dec :: "string \<Rightarrow> int GlobalAgentConfig" where
  "sample_dec t0 =
     (let (a1, t1) = dec_num t0; (a2, t2) = dec_flag t1; (a3, t3) = dec_text t2; (a4, t4) = dec_text t3;
          (a5, t5) = dec_num t4; (a6, t6) = dec_num t5; (a7, t7) = dec_num t6; (a8, t8) = dec_num t7;
          (a9, t9) = dec_num t8; (a10, t10) = dec_num t9; (a11, t11) = dec_flag t10; (a12, t12) = dec_text t11;
          (a13, t13) = dec_num t12; (a14, t14) = dec_flag t13; (a15, t15) = dec_flag t14; (a16, t16) = dec_flag t15;
          (a17, t17) = dec_text t16; (a18, t18) = dec_text t17; (a19, t19) = dec_text t18; (a20, t20) = dec_text t19;
          (a21, t21) = dec_num t20; (a22, t22) = dec_num t21
      in \<lparr>gc_ID = a1, gc_GlobalEnabled = a2, gc_DefaultModel = a3, gc_EmbeddingModel = a4, gc_Temperature = a5,
          gc_MaxTokens = a6, gc_RAGTopK = a7, gc_RAGSimilarityThreshold = a8, gc_ChunkSize = a9, gc_ChunkOverlap = a10,
          gc_ModerationEnabled = a11, gc_ModerationModel = a12, gc_ModerationThreshold = a13, gc_ToolCallingEnabled = a14,
          gc_AutoKickEnabled = a15, gc_AutoBanEnabled = a16, gc_SystemPrompt = a17, gc_ModerationPrompt = a18,
          gc_RAGPrompt = a19, gc_ToolCallingPrompt = a20, gc_UpdatedAt = a21, gc_CreatedAt = a22\<rparr>)"

lemma sample_dec_enc: "sample_dec (sample_enc c) = c"
  by (simp add: sample_dec_def sample_enc_def)

text \<open>Values in hundredths; a column keeps two digits before and after the point.\<close>

definition sample_env :: "int agent_env" where
  "sample_env = \<lparr>en_pos = (\<lambda>x. 0 < x), en_col = (\<lambda>x. max (- 999) (min 999 x)), en_enc = (\<lambda>c. Some (sample_enc c)),
     en_dec = (\<lambda>t _. Some (sample_dec t)), en_070 = 70, en_075 = 75\<rparr>"

lemma sample_env_laws: "env_laws sample_env"
proof -
  have "sample_enc c \<noteq> []" for c by (simp add: sample_enc_def)
  then show ?thesis by (simp add: env_laws_def sample_env_def sample_dec_enc)
qed


definition sample_input :: "int GlobalAgentConfigInput" where
  "sample_input =
     \<lparr>gi_GlobalEnabled = Some False, gi_DefaultModel = ''m'', gi_EmbeddingModel = [], gi_Temperature = 0, gi_MaxTokens = 0,
      gi_RAGTopK = 0, gi_RAGSimilarityThreshold = 0, gi_ChunkSize = 0, gi_ChunkOverlap = 0, gi_ModerationEnabled = None,
      gi_ModerationModel = [], gi_ModerationThreshold = 0, gi_ToolCallingEnabled = None, gi_AutoKickEnabled = None,
      gi_AutoBanEnabled = None, gi_SystemPrompt = [], gi_ModerationPrompt = [], gi_RAGPrompt = [], gi_ToolCallingPrompt = []\<rparr>"

definition sample_action :: AuditAction where
  "sample_action = \<lparr>aa_AdminUserID = 1, aa_AdminName = ''1'', aa_RequestID = [], aa_RemoteIP = [], aa_UserAgent = []\<rparr>"

definition sample_config_calls :: "int config_call list" where
  "sample_config_calls =
     [CUpdate (\<lambda>_. False) 5 sample_input sample_action, CUpdate (\<lambda>n. n = 4) 6 sample_input sample_action,
      CUpdate (\<lambda>_. False) 7 sample_input sample_action]"

definition sample_agent :: "int agent_state" where
  "sample_agent = empty_agent \<lparr>as_db = \<lparr>db_users = [], db_rooms = [], db_members = [], db_nextUser = 1, db_nextRoom = 1,
     db_nextMember = 1\<rparr>,
     as_hub = None, as_presence = [], as_audit = [], as_nextAudit = 1\<rparr>"

lemma Update_fault_free:
  "\<exists>cfg s'. config_Update json E (\<lambda>_. False) now input action s = (Inr cfg, s')"
  by (simp add: config_Update_def getOrCreate_def save_version_def appendHistory_def Let_def split: option.split)

lemma Update_history_fault:
  "\<exists>e s'. config_Update json E (\<lambda>n. n = 4) now input action s = (Inl e, s')"
  by (simp add: config_Update_def getOrCreate_def save_version_def appendHistory_def Let_def split: option.split)

lemma sample_config_run: "fst (run_config (\<lambda>_. None) sample_env sample_config_calls sample_agent) = 2"
proof -
  obtain c1 s1 where 1: "config_Update (\<lambda>_. None) sample_env (\<lambda>_. False) 5 sample_input sample_action sample_agent = (Inr c1, s1)"
    using Update_fault_free by blast
  obtain e s2 where 2: "config_Update (\<lambda>_. None) sample_env (\<lambda>n. n = 4) 6 sample_input sample_action s1 = (Inl e, s2)"
    using Update_history_fault by blast
  obtain c3 s3 where 3: "config_Update (\<lambda>_. None) sample_env (\<lambda>_. False) 7 sample_input sample_action s2 = (Inr c3, s3)"
    using Update_fault_free by blast
  show ?thesis by (simp add: sample_config_calls_def 1 2 3)
qed

lemma config_history_versions_example:
  "map ah_Version (ag_history (snd (run_config (\<lambda>_. None) sample_env sample_config_calls sample_agent))) = [1, 2]"
proof -
  obtain n s where r: "run_config (\<lambda>_. None) sample_env sample_config_calls sample_agent = (n, s)" by (rule prod.exhaust)
  have "n = 2" using sample_config_run r by simp
  with config_history_versions [OF sample_env_laws r [unfolded sample_agent_def]] r show ?thesis
    by (simp add: upt_rec)
qed

theorem rollback_undoes_update_witness:
  "\<exists>s1 s2 s3. config_Update (\<lambda>_. None) sample_env (\<lambda>_. False) 5 sample_input sample_action sample_agent = s1 \<and>
     config_Rollback (\<lambda>_. None) sample_env False (\<lambda>_. False) 6 sample_action (snd s1) = s2 \<and>
     config_Rollback (\<lambda>_. None) sample_env False (\<lambda>_. False) 7 sample_action (snd s2) = s3 \<and>
     ag_config (snd s2) = Some ((defaultGlobalAgentConfig sample_env)\<lparr>gc_CreatedAt := 5, gc_UpdatedAt := 6\<rparr>) \<and>
     map_option gc_DefaultModel (ag_config (snd s3)) = Some ''m''"
proof -
  let ?u = "config_Update (\<lambda>_. None) sample_env (\<lambda>_. False) 5 sample_input sample_action sample_agent"
  obtain cfg s1 where 1: "?u = (Inr cfg, s1)" using Update_fault_free by blast
  obtain r2 s2 where 2: "config_Rollback (\<lambda>_. None) sample_env False (\<lambda>_. False) 6 sample_action s1 = (r2, s2)" by (rule prod.exhaust)
  obtain r3 s3 where 3: "config_Rollback (\<lambda>_. None) sample_env False (\<lambda>_. False) 7 sample_action s2 = (r3, s3)" by (rule prod.exhaust)
  have ok: "agent_ok sample_env sample_agent" by (simp add: sample_agent_def)
  note th = rollback_undoes_update [OF sample_env_laws ok 1 2 3]
  have st: "stored_config sample_env 5 sample_agent = (defaultGlobalAgentConfig sample_env)\<lparr>gc_UpdatedAt := 5, gc_CreatedAt := 5\<rparr>"
    by (simp add: stored_config_def sample_agent_def empty_agent_def)
  have m: "map_option gc_DefaultModel (ag_config s1) = Some ''m''"
    using Update_cases(2) [OF sample_env_laws ok 1, of cfg] by (simp add: columns_def overlay_def sample_input_def Let_def)
  have "ag_config s2 = Some ((defaultGlobalAgentConfig sample_env)\<lparr>gc_CreatedAt := 5, gc_UpdatedAt := 6\<rparr>)"
    using th st by simp
  moreover have "map_option gc_DefaultModel (ag_config s3) = Some ''m''" using th m by auto
  ultimately show ?thesis using 1 2 3 by simp
qed

end
