(* ===== verification/Gateway.thy ===== *)
theory Gateway
  imports Producer Rooms Cache MessageStore "HOL-Library.Multiset"
begin

text \<open>
  The doors of the gateway besides HTTP: the WebSocket endpoint, \<^verbatim>\<open>services/gateway/handlers/ws_handler.go\<close>, and the gRPC
  service that the agent calls, \<^verbatim>\<open>services/gateway/grpc/server.go\<close>.

  \<open>ws_open\<close> is \<^verbatim>\<open>WsEndpoint\<close> up to the start of the pumps, \<open>load_username\<close> the goroutine it starts and \<open>ws_close\<close> its
  deferred function. The address of a new client, the outcome of the upgrade and the clock readings are arguments;
  \<open>fault n\<close> says that the n-th call fails.
\<close>

section \<open>The WebSocket endpoint\<close>

record gateway =
  gw_db :: DB
  gw_hub :: Hub
  gw_presence :: presence

record ws_request =
  wr_user_id :: "int option"
  wr_RemoteIP :: string
  wr_UserAgent :: string
  wr_ClientVersion :: string

record ws_clock =
  wc_id :: time
  wc_connected :: time
  wc_online :: time

datatype ws_result = Refused http_status | UpgradeFailed | Ready string

definition ws_open ::
    "string \<Rightarrow> (nat \<Rightarrow> bool) \<Rightarrow> bool \<Rightarrow> ws_clock \<Rightarrow> nat \<Rightarrow> ws_request \<Rightarrow> gateway \<Rightarrow> ws_result \<times> gateway" where
  "ws_open node fault upgraded ck c rq g =
     (case wr_user_id rq of
        None \<Rightarrow> (Refused Unauthorized, g)
      | Some userID \<Rightarrow>
          (case GetUserRoomIDs (fault 0) userID (gw_db g) of
             Inl _ \<Rightarrow> (Refused ServerError, g)
           | Inr roomIDs \<Rightarrow>
               if \<not> upgraded then (UpgradeFailed, g)
               else
                 (let connID = conn_id userID (UnixNano (wc_id ck));
                      cl = new_client userID connID (wr_RemoteIP rq) (wr_UserAgent rq) (wr_ClientVersion rq) (wc_connected ck)
                  in (Ready connID,
                      g\<lparr>gw_hub := Register c roomIDs (set_client c cl (gw_hub g)),
                        gw_presence := SetUserConnectionOnline (fault 1) (wc_online ck) userID node connID (gw_presence g)\<rparr>))))"

definition load_username :: "bool \<Rightarrow> nat \<Rightarrow> gateway \<Rightarrow> gateway" where
  "load_username fault c g =
     (case get_client c (gw_hub g) of
        None \<Rightarrow> g
      | Some cl \<Rightarrow>
          (case GetByID fault (cl_UserID cl) (gw_db g) of
             Inl _ \<Rightarrow> g
           | Inr user \<Rightarrow> g\<lparr>gw_hub := set_client c (SetUsername (us_Username user) cl) (gw_hub g)\<rparr>))"

definition ws_close :: "string \<Rightarrow> bool \<Rightarrow> time \<Rightarrow> nat \<Rightarrow> gateway \<Rightarrow> gateway" where
  "ws_close node fault now c g =
     (case get_client c (gw_hub g) of
        None \<Rightarrow> g
      | Some cl \<Rightarrow>
          g\<lparr>gw_hub := close_conn c (Unregister c (gw_hub g)),
            gw_presence := SetUserConnectionOffline fault now (cl_UserID cl) node (cl_ConnID cl) (gw_presence g)\<rparr>)"

section \<open>The service of the agent\<close>

text \<open>\<open>fetch\<close> is the message store behind \<^verbatim>\<open>GetMessagesByTimeRange\<close>; the limit of a request has 32 bits.\<close>

record MessageRecord =
  mr_MessageId :: int
  mr_SenderId :: int
  mr_SenderName :: string
  mr_Content :: string
  mr_CreatedAtUnixMs :: int

record FetchMessagesRequest =
  fm_RoomId :: int
  fm_StartTimeUnixMs :: int
  fm_EndTimeUnixMs :: int
  fm_Limit :: int

definition time_UnixMilli :: "int \<Rightarrow> time" where
  "time_UnixMilli ms = ms * 1000000"

text \<open>The name of a user that cannot be read is the Chinese word for user with the number.\<close>

definition unknown_user :: "int \<Rightarrow> string" where
  "unknown_user userID = map char_of [0xE7, 0x94, 0xA8, 0xE6, 0x88, 0xB7 :: nat] @ FormatInt userID"

definition user_name :: "(int \<Rightarrow> bool) \<Rightarrow> DB \<Rightarrow> int \<Rightarrow> string" where
  "user_name fault db userID =
     (case GetByID (fault userID) userID db of
        Inl _ \<Rightarrow> unknown_user userID
      | Inr u \<Rightarrow> if us_Username u \<noteq> [] then us_Username u else unknown_user userID)"

definition add_name :: "(int \<Rightarrow> bool) \<Rightarrow> DB \<Rightarrow> Message \<Rightarrow> (int, string) gomap \<Rightarrow> (int, string) gomap" where
  "add_name fault db m names =
     (if map_get names (msg_SenderID m) \<noteq> None then names
      else map_put (msg_SenderID m) (user_name fault db (msg_SenderID m)) names)"

definition resolveUserNames :: "(int \<Rightarrow> bool) \<Rightarrow> DB \<Rightarrow> Message list \<Rightarrow> (int, string) gomap" where
  "resolveUserNames fault db msgs = fold (add_name fault db) msgs []"

definition FetchMessages ::
    "(int \<Rightarrow> time \<Rightarrow> time \<Rightarrow> nat \<Rightarrow> save_error + Message list) \<Rightarrow> (int \<Rightarrow> bool) \<Rightarrow> FetchMessagesRequest \<Rightarrow> DB \<Rightarrow>
     save_error + MessageRecord list" where
  "FetchMessages fetch fault req db =
     (let limit = (if fm_Limit req \<le> 0 \<or> fm_Limit req > 500 then 200 else fm_Limit req);
          start = time_UnixMilli (fm_StartTimeUnixMs req);
          stop = time_UnixMilli (fm_EndTimeUnixMs req)
      in if stop < start then Inr []
         else case fetch (fm_RoomId req) start stop (nat limit) of
           Inl e \<Rightarrow> Inl e
         | Inr msgs \<Rightarrow>
             (let names = resolveUserNames fault db msgs
              in Inr (map (\<lambda>m. \<lparr>mr_MessageId = msg_ID m, mr_SenderId = msg_SenderID m,
                      mr_SenderName = (case map_get names (msg_SenderID m) of None \<Rightarrow> [] | Some n \<Rightarrow> n),
                      mr_Content = msg_Content m, mr_CreatedAtUnixMs = UnixMilli (msg_CreatedAt m)\<rparr>) msgs)))"

definition notifyRoomAction :: "int \<Rightarrow> int \<Rightarrow> string \<Rightarrow> Hub \<Rightarrow> Hub" where
  "notifyRoomAction roomID userID action h =
     (if action = ''join'' then JoinRoom userID roomID h
      else if action = ''leave'' then LeaveRoom userID roomID h
      else if action = ''disband'' then DisbandRoom roomID h
      else h)"

definition disconnectUser :: "int \<Rightarrow> Hub \<Rightarrow> Hub" where
  "disconnectUser userID h = Kick userID h"

definition KickUser :: "bool \<Rightarrow> time \<Rightarrow> int \<Rightarrow> int \<Rightarrow> gateway \<Rightarrow> bool \<times> gateway" where
  "KickUser fault now roomID userID g =
     (case repo_RemoveMember fault (UnixMilli now) roomID userID (gw_db g) of
        (Some _, _) \<Rightarrow> (False, g)
      | (None, db) \<Rightarrow>
          (True, g\<lparr>gw_db := db, gw_hub := disconnectUser userID (notifyRoomAction roomID userID ''leave'' (gw_hub g))\<rparr>))"

text \<open>\<^verbatim>\<open>SendReply\<close> up to the queue of the producer: the reply is an ordinary message of the bot.\<close>

record SendReplyRequest =
  sr_RoomId :: int
  sr_BotUserId :: int
  sr_Content :: string
  sr_MessageId :: string

definition reply_id :: "time \<Rightarrow> SendReplyRequest \<Rightarrow> string" where
  "reply_id now req =
     (if sr_MessageId req = [] then ''agent-'' @ FormatInt (sr_RoomId req) @ ''-'' @ FormatInt (UnixNano now) else sr_MessageId req)"

definition SendReply ::
    "codec \<Rightarrow> bool \<Rightarrow> time \<Rightarrow> time \<Rightarrow> SendReplyRequest \<Rightarrow> producer \<Rightarrow> prod_error option \<times> producer" where
  "SendReply cd cancelled now arrived req p =
     (case prepare_message cd arrived (pr_opts p) (FormatInt (sr_RoomId req)) (sr_BotUserId req) (sr_Content req) (reply_id now req) arrived of
        Inl e \<Rightarrow> (Some e, p)
      | Inr m \<Rightarrow> enqueue cancelled m p)"

section \<open>Fetching messages\<close>

lemma add_name_sound:
  "\<forall>k v. map_get names k = Some v \<longrightarrow> v = user_name fault db k \<Longrightarrow>
    \<forall>k v. map_get (add_name fault db m names) k = Some v \<longrightarrow> v = user_name fault db k"
  by (simp add: add_name_def)

lemma names_sound:
  "\<forall>k v. map_get names k = Some v \<longrightarrow> v = user_name fault db k \<Longrightarrow>
    \<forall>k v. map_get (fold (add_name fault db) ms names) k = Some v \<longrightarrow> v = user_name fault db k"
proof (induction ms arbitrary: names)
  case (Cons m ms)
  from Cons.IH [OF add_name_sound [OF Cons.prems]] show ?case by simp
qed simp

lemma add_name_grows: "map_get names k \<noteq> None \<or> k = msg_SenderID m \<Longrightarrow> map_get (add_name fault db m names) k \<noteq> None"
  by (auto simp: add_name_def)

lemma names_grow:
  "map_get names k \<noteq> None \<or> k \<in> msg_SenderID ` set ms \<Longrightarrow> map_get (fold (add_name fault db) ms names) k \<noteq> None"
proof (induction ms arbitrary: names)
  case (Cons m ms)
  then have "map_get (add_name fault db m names) k \<noteq> None \<or> k \<in> msg_SenderID ` set ms"
    using add_name_grows [of names k m fault db] by (simp only: list.set image_insert insert_iff) blast
  from Cons.IH [OF this] show ?case by simp
qed simp

lemma resolved_names:
  assumes "m \<in> set msgs"
  shows "map_get (resolveUserNames fault db msgs) (msg_SenderID m) = Some (user_name fault db (msg_SenderID m))"
proof -
  obtain v where v: "map_get (resolveUserNames fault db msgs) (msg_SenderID m) = Some v"
    using names_grow [of "[]" "msg_SenderID m" msgs fault db] assms unfolding resolveUserNames_def by auto
  have "\<forall>k v. map_get ([] :: (int, string) gomap) k = Some v \<longrightarrow> v = user_name fault db k" by simp
  from names_sound [OF this, of msgs] v show ?thesis unfolding resolveUserNames_def by blast
qed

section \<open>Replies\<close>

text \<open>A reply that is accepted is one record in the queue, keyed by the room, with the bot as the sender.\<close>

lemma SendReply_accepted:
  assumes "SendReply cd cancelled now arrived req p = (None, p')"
  shows "\<exists>m. pr_queue p' = pr_queue p @ [m] \<and> km_Key m = FormatInt (sr_RoomId req) \<and>
    (\<exists>r. ParseInt (FormatInt (sr_RoomId req)) = (r, None) \<and> Marshal cd \<lparr>env_MessageID = 0, env_RoomSeq = 0, env_RoomID = r,
      env_SenderID = sr_BotUserId req, env_ClientMsgID = reply_id now req, env_Type = 1, env_Content = sr_Content req,
      env_CreatedAt = arrived\<rparr> = Inr (km_Value m))"
proof -
  obtain m where m: "prepare_message cd arrived (pr_opts p) (FormatInt (sr_RoomId req)) (sr_BotUserId req) (sr_Content req) (reply_id now req) arrived = Inr m"
    "enqueue cancelled m p = (None, p')" using assms by (auto simp: SendReply_def split: sum.splits)
  from m(2) have "pr_queue p' = pr_queue p @ [m]" by (auto simp: enqueue_def split: if_splits)
  with prepare_message_Inr [OF m(1)] show ?thesis by auto
qed

lemma SendReply_refused: "SendReply cd cancelled now arrived req p = (Some e, p') \<Longrightarrow> p' = p"
  by (auto simp: SendReply_def enqueue_def split: sum.splits if_splits)

section \<open>Connections keep the hub in step\<close>

definition gateway_ok :: "gateway \<Rightarrow> bool" where
  "gateway_ok g \<longleftrightarrow> system_ok (gw_db g, gw_hub g)"

lemma ws_open_ok:
  assumes "gateway_ok g" "get_client c (gw_hub g) = None"
  shows "gateway_ok (snd (ws_open node fault upgraded ck c rq g))"
  using assms connected_system_ok [of "gw_db g" "gw_hub g" "fault 0"]
  by (auto simp: ws_open_def gateway_ok_def Let_def split: option.splits sum.splits)

lemma SetUsername_client_ok: "client_ok cl \<Longrightarrow> client_ok (SetUsername n cl)"
  by (simp add: client_ok_def SetUsername_def in_room_def)

lemma load_username_ok: "gateway_ok g \<Longrightarrow> gateway_ok (load_username fault c g)"
  by (auto simp: load_username_def gateway_ok_def SetUsername_def
      intro!: client_field_system_ok SetUsername_client_ok [unfolded SetUsername_def] split: option.splits sum.splits)

lemma ws_close_ok: "gateway_ok g \<Longrightarrow> gateway_ok (ws_close node fault now c g)"
  using CDisconnect_ok [of "gw_db g" "gw_hub g" "\<lambda>_. False" 0 c] close_conn_system_ok
  by (auto simp: ws_close_def gateway_ok_def split: option.splits)

lemma KickUser_ok:
  assumes "gateway_ok g" "UnixMilli now \<noteq> 0"
  shows "gateway_ok (snd (KickUser fault now roomID userID g))"
proof -
  obtain e db where r: "repo_RemoveMember fault (UnixMilli now) roomID userID (gw_db g) = (e, db)" by (rule prod.exhaust)
  show ?thesis
  proof (cases e)
    case None
    have "system_ok (db, LeaveRoom userID roomID (gw_hub g))"
      using removed_system_ok [OF assms(1) [unfolded gateway_ok_def] r [unfolded None] assms(2)]
      by (simp add: deliver_notifications_def notify_def)
    from Kick_system_ok [OF this] r None show ?thesis
      by (simp add: KickUser_def gateway_ok_def disconnectUser_def notifyRoomAction_def)
  qed (use r assms in \<open>simp add: KickUser_def\<close>)
qed

section \<open>Properties\<close>

lemma flat_fields: "fl_users (flat_of h) = users h" "fl_clients (flat_of h) c = get_client c h"
  by (simp_all add: flat_of_def)

lemma ws_open_effect:
  assumes "gateway_ok g" "get_client c (gw_hub g) = None" "wr_user_id rq = Some u"
    and "ws_open node fault upgraded ck c rq g = (Ready connID, g')"
  shows "gw_db g' = gw_db g" "connID = conn_id u (UnixNano (wc_id ck))"
    "users (gw_hub g') = (users (gw_hub g))(u \<mapsto> c)"
    "\<exists>cl. get_client c (gw_hub g') = Some cl \<and> cl_UserID cl = u \<and> cl_active cl \<and> cl_ConnID cl = connID"
    "c' \<noteq> c \<Longrightarrow> get_client c' (gw_hub g') = get_client c' (gw_hub g)"
    "gw_presence g' = SetUserConnectionOnline (fault 1) (wc_online ck) u node connID (gw_presence g)"
proof -
  let ?id = "conn_id u (UnixNano (wc_id ck))"
  let ?cl = "new_client u ?id (wr_RemoteIP rq) (wr_UserAgent rq) (wr_ClientVersion rq) (wc_connected ck)"
  obtain rs where g': "connID = ?id" "g' = g\<lparr>gw_hub := Register c rs (set_client c ?cl (gw_hub g)),
      gw_presence := SetUserConnectionOnline (fault 1) (wc_online ck) u node ?id (gw_presence g)\<rparr>"
    using assms(3,4) by (auto simp: ws_open_def Let_def split: sum.splits if_splits)
  have "hub_shape (set_client c ?cl (gw_hub g))" using assms(1) by (simp add: gateway_ok_def system_ok_def)
  from Register_flat [OF this, of c rs]
  have f: "flat_of (gw_hub g') = flat_op (ORegister c rs) (flat_of (set_client c ?cl (gw_hub g)))" by (simp add: g'(2))
  have u: "users (gw_hub g') = fl_users (flat_op (ORegister c rs) (flat_of (set_client c ?cl (gw_hub g))))"
    and k: "get_client c' (gw_hub g') = fl_clients (flat_op (ORegister c rs) (flat_of (set_client c ?cl (gw_hub g)))) c'" for c'
    by (simp_all only: flat_fields [symmetric] f)
  show "gw_db g' = gw_db g" "connID = ?id"
    "gw_presence g' = SetUserConnectionOnline (fault 1) (wc_online ck) u node connID (gw_presence g)"
    by (simp_all add: g')
  show "users (gw_hub g') = (users (gw_hub g))(u \<mapsto> c)" unfolding u by (simp add: new_client_def)
  show "\<exists>cl. get_client c (gw_hub g') = Some cl \<and> cl_UserID cl = u \<and> cl_active cl \<and> cl_ConnID cl = connID"
    using k [of c] by (simp add: new_client_def g'(1))
  show "c' \<noteq> c \<Longrightarrow> get_client c' (gw_hub g') = get_client c' (gw_hub g)"
    using k [of c'] by (simp add: new_client_def)
qed

lemma ws_close_effect:
  assumes "gateway_ok g" "get_client c (gw_hub g) = Some cl" "cl_active cl"
  shows "gw_db (ws_close node fault now c g) = gw_db g"
    "users (gw_hub (ws_close node fault now c g)) =
      (if users (gw_hub g) (cl_UserID cl) = Some c then (users (gw_hub g))(cl_UserID cl := None) else users (gw_hub g))"
    "\<exists>cl'. get_client c (gw_hub (ws_close node fault now c g)) = Some cl' \<and> \<not> cl_active cl'"
    "c' \<noteq> c \<Longrightarrow> get_client c' (gw_hub (ws_close node fault now c g)) = get_client c' (gw_hub g)"
    "gw_presence (ws_close node fault now c g) = SetUserConnectionOffline fault now (cl_UserID cl) node (cl_ConnID cl) (gw_presence g)"
proof -
  let ?h = "Unregister c (gw_hub g)"
  have "hub_shape (gw_hub g)" using assms(1) by (simp add: gateway_ok_def system_ok_def)
  from Unregister_flat [OF this, of c] have f: "flat_of ?h = flat_op (OUnregister c) (flat_of (gw_hub g))" by simp
  have u: "users ?h = fl_users (flat_op (OUnregister c) (flat_of (gw_hub g)))"
    and k: "get_client c' ?h = fl_clients (flat_op (OUnregister c) (flat_of (gw_hub g))) c'" for c'
    by (simp_all only: flat_fields [symmetric] f)
  have g': "ws_close node fault now c g = g\<lparr>gw_hub := close_conn c ?h,
      gw_presence := SetUserConnectionOffline fault now (cl_UserID cl) node (cl_ConnID cl) (gw_presence g)\<rparr>"
    using assms(2) by (simp add: ws_close_def)
  have cc: "users (close_conn c ?h) = users ?h" "c' \<noteq> c \<Longrightarrow> get_client c' (close_conn c ?h) = get_client c' ?h" for c'
    by (simp_all add: close_conn_def split: option.splits)
  obtain cl1 where cl1: "get_client c ?h = Some cl1" "\<not> cl_active cl1" using k [of c] assms(2,3) by simp
  show "gw_db (ws_close node fault now c g) = gw_db g"
    "gw_presence (ws_close node fault now c g) = SetUserConnectionOffline fault now (cl_UserID cl) node (cl_ConnID cl) (gw_presence g)"
    by (simp_all add: g')
  show "users (gw_hub (ws_close node fault now c g)) =
      (if users (gw_hub g) (cl_UserID cl) = Some c then (users (gw_hub g))(cl_UserID cl := None) else users (gw_hub g))"
    using assms(2,3) by (simp add: g' cc(1) u)
  show "\<exists>cl'. get_client c (gw_hub (ws_close node fault now c g)) = Some cl' \<and> \<not> cl_active cl'"
    using cl1 by (simp add: g' close_conn_def split: option.splits)
  show "c' \<noteq> c \<Longrightarrow> get_client c' (gw_hub (ws_close node fault now c g)) = get_client c' (gw_hub g)"
    using k [of c'] assms(2,3) by (simp add: g' cc(2))
qed

lemma closed_not_subscribed:
  assumes "gateway_ok g" "get_client c (gw_hub g) = Some cl" "\<not> cl_active cl"
  shows "c \<notin> members (gw_hub g) r"
proof -
  have "rooms_match (flat_of (gw_hub g))" using assms(1) by (simp add: gateway_ok_def system_ok_def consistent_def)
  with assms(2,3) show ?thesis by (simp add: rooms_match_def)
qed

text \<open>
  C39: A user who reconnects is not hurt by the end of the old connection. After two connections of a user to the same
  node, closing the first leaves the second as the connection of the user, subscribed to exactly the live rooms the user
  is a member of and recorded as online for its sixty seconds; the first is in no room any more. When the second closes
  too, the user has no connection, is in no room and is reported offline.
\<close>

theorem reconnect_survives_close:
  assumes "system_ok (gw_db g, gw_hub g)" "get_client c1 (gw_hub g) = None" "get_client c2 (gw_hub g) = None" "c1 \<noteq> c2"
    and "wr_user_id rq1 = Some u" "wr_user_id rq2 = Some u"
    and "ws_open node f1 True ck1 c1 rq1 g = (Ready id1, g1)" "ws_open node f2 True ck2 c2 rq2 g1 = (Ready id2, g2)"
    and "\<not> f2 1" "UnixNano (wc_id ck1) \<noteq> UnixNano (wc_id ck2)" "now' \<le> at"
  shows "let g3 = ws_close node f now c1 g2; g4 = ws_close node False now' c2 g3 in
    users (gw_hub g3) u = Some c2 \<and> (\<forall>r. c1 \<notin> members (gw_hub g3) r) \<and>
    (\<forall>r. room_live (gw_db g) r \<longrightarrow> (c2 \<in> members (gw_hub g3) r \<longleftrightarrow> member (gw_db g) r u)) \<and>
    CheckUserOnline False at u (gw_presence g3) = (if at < wc_online ck2 + onlineTTL then (True, onlineOwner node id2) else (False, [])) \<and>
    users (gw_hub g4) u = None \<and> (\<forall>r. c2 \<notin> members (gw_hub g4) r) \<and> CheckUserOnline False at u (gw_presence g4) = (False, [])"
proof -
  define g3 where "g3 = ws_close node f now c1 g2"
  define g4 where "g4 = ws_close node False now' c2 g3"
  have ok0: "gateway_ok g" using assms(1) by (simp add: gateway_ok_def)
  have ok1: "gateway_ok g1" using ws_open_ok [OF ok0 assms(2), of node f1 True ck1 rq1] assms(7) by simp
  note e1 = ws_open_effect [OF ok0 assms(2,5,7)]
  have n2: "get_client c2 (gw_hub g1) = None" using e1(5) [of c2] assms(3,4) by simp
  have ok2: "gateway_ok g2" using ws_open_ok [OF ok1 n2, of node f2 True ck2 rq2] assms(8) by simp
  note e2 = ws_open_effect [OF ok1 n2 assms(6,8)]
  obtain cl1 where cl1: "get_client c1 (gw_hub g2) = Some cl1" "cl_UserID cl1 = u" "cl_active cl1" "cl_ConnID cl1 = id1"
    using e1(4) e2(5) [of c1] assms(4) by auto
  have ok3: "gateway_ok g3" unfolding g3_def by (rule ws_close_ok [OF ok2])
  note e3 = ws_close_effect [OF ok2 cl1(1,3), where node = node and fault = f and now = now, folded g3_def]
  obtain cl2 where cl2: "get_client c2 (gw_hub g3) = Some cl2" "cl_UserID cl2 = u" "cl_active cl2" "cl_ConnID cl2 = id2"
    using e2(4) e3(4) [of c2] assms(4) by auto
  have ok4: "gateway_ok g4" unfolding g4_def by (rule ws_close_ok [OF ok3])
  note e4 = ws_close_effect [OF ok3 cl2(1,3), where node = node and fault = False and now = now', folded g4_def]
  have db: "gw_db g3 = gw_db g" using e1(1) e2(1) e3(1) by simp
  have u3: "users (gw_hub g3) u = Some c2" using e3(2) e2(3) cl1(2) assms(4) by auto
  have u4: "users (gw_hub g4) u = None" using e4(2) u3 cl2(2) by simp
  have out1: "c1 \<notin> members (gw_hub g3) r" for r using closed_not_subscribed [OF ok3] e3(3) by blast
  have out2: "c2 \<notin> members (gw_hub g4) r" for r using closed_not_subscribed [OF ok4] e4(3) by blast
  have sub: "room_live (gw_db g) r \<Longrightarrow> c2 \<in> members (gw_hub g3) r \<longleftrightarrow> member (gw_db g) r u" for r
    using subscribed_iff_member [OF ok3 [unfolded gateway_ok_def] u3, of r] by (simp add: db)
  have r: "int64_range (UnixNano t)" for t by (simp add: UnixNano_def wrap64_range)
  have ne: "onlineOwner node id1 \<noteq> onlineOwner node id2" using owner_inj [OF r r] assms(10) e1(2) e2(2) by simp
  let ?e = "(onlineOwner node id2, wc_online ck2 + onlineTTL)"
  have p2: "map_get (gw_presence g2) (online_key u) = Some ?e" using e2(6) assms(9) by (simp add: SetUserConnectionOnline_def)
  have p3: "map_get (gw_presence g3) (online_key u) = Some ?e"
    using e3(5) p2 ne cl1(2,4) by (auto simp: SetUserConnectionOffline_def deleteOwnedOnlineScript_def redis_GET_def)
  have p4: "CheckUserOnline False at u (gw_presence g4) = (False, [])"
    using e4(5) p3 cl2(2,4) assms(11) by (auto simp: SetUserConnectionOffline_def deleteOwnedOnlineScript_def redis_GET_def CheckUserOnline_def)
  have "CheckUserOnline False at u (gw_presence g3) = (if at < wc_online ck2 + onlineTTL then (True, onlineOwner node id2) else (False, []))"
    using p3 by (simp add: CheckUserOnline_def redis_GET_def)
  with u3 u4 out1 out2 sub p4 show ?thesis unfolding g3_def [symmetric] g4_def [symmetric] Let_def by blast
qed

text \<open>
  C40: What the agent reads of a room. From either store, an answered request has at most 500 records, all of the room, of
  the half-open range of times and not deleted, in the order of time and number; none is left out unless the limit was
  reached, and then only later ones. Every record has the name of its sender, or the substitute if the user cannot be
  read. A range that ends before it begins is empty.
\<close>

theorem fetch_messages_exact:
  assumes "marks_fit t"
    and "fetch = (\<lambda>r a b n. GetMessagesByTimeRange fl r a b n t) \<or>
      fetch = (\<lambda>r a b n. mongo_GetMessagesByTimeRange fl r a b n (map ToMessageDocument t))"
    and "FetchMessages fetch fault req db = Inr recs"
  shows "\<exists>shown later. mset (shown @ later) =
      mset (filter (\<lambda>m. msg_RoomID m = fm_RoomId req \<and> msg_DeletedAt m = 0 \<and>
        time_UnixMilli (fm_StartTimeUnixMs req) \<le> msg_CreatedAt m \<and> msg_CreatedAt m < time_UnixMilli (fm_EndTimeUnixMs req)) t) \<and>
    sorted (map (\<lambda>m. (msg_CreatedAt m, msg_ID m)) (shown @ later)) \<and>
    length shown \<le> 500 \<and> (0 < fm_Limit req \<and> fm_Limit req \<le> 500 \<longrightarrow> int (length shown) \<le> fm_Limit req) \<and>
    (later \<noteq> [] \<longrightarrow> length shown = (if fm_Limit req \<le> 0 \<or> fm_Limit req > 500 then 200 else nat (fm_Limit req))) \<and>
    recs = map (\<lambda>m. \<lparr>mr_MessageId = msg_ID m, mr_SenderId = msg_SenderID m, mr_SenderName = user_name fault db (msg_SenderID m),
      mr_Content = msg_Content m, mr_CreatedAtUnixMs = UnixMilli (msg_CreatedAt m)\<rparr>) shown"
proof -
  define n where "n = (if fm_Limit req \<le> 0 \<or> fm_Limit req > 500 then 200 else nat (fm_Limit req))"
  let ?a = "time_UnixMilli (fm_StartTimeUnixMs req)" and ?b = "time_UnixMilli (fm_EndTimeUnixMs req)"
  let ?rec = "\<lambda>name m. \<lparr>mr_MessageId = msg_ID m, mr_SenderId = msg_SenderID m, mr_SenderName = name m,
      mr_Content = msg_Content m, mr_CreatedAtUnixMs = UnixMilli (msg_CreatedAt m)\<rparr>"
  define rows where "rows = filter (\<lambda>m. ?a \<le> msg_CreatedAt m \<and> msg_CreatedAt m < ?b) (live_in_room (fm_RoomId req) t)"
  define srt where "srt = sort_key (\<lambda>m. (msg_CreatedAt m, msg_ID m)) rows"
  have n: "n \<le> 500" "n = nat (if fm_Limit req \<le> 0 \<or> fm_Limit req > 500 then 200 else fm_Limit req)"
    "0 < fm_Limit req \<and> fm_Limit req \<le> 500 \<longrightarrow> int n = fm_Limit req" by (auto simp: n_def)
  have ft: "fetch r a b k = GetMessagesByTimeRange fl r a b k t" for r a b k
    using assms(2) stores_agree_on_queries(1) [OF assms(1)] by auto
  have recs: "recs = map (?rec (\<lambda>m. user_name fault db (msg_SenderID m))) (take n srt)"
  proof (cases "?b < ?a")
    case True
    then have "rows = []" by (auto simp: rows_def filter_empty_conv)
    with True assms(3) show ?thesis by (simp add: FetchMessages_def Let_def srt_def)
  next
    case False
    have "recs = map (?rec (\<lambda>m. case map_get (resolveUserNames fault db (take n srt)) (msg_SenderID m) of None \<Rightarrow> [] | Some v \<Rightarrow> v)) (take n srt)"
      using False assms(3) n(2) by (auto simp: FetchMessages_def Let_def ft GetMessagesByTimeRange_def srt_def rows_def split: if_splits)
    then show ?thesis using resolved_names [of _ "take n srt" fault db] by simp
  qed
  have "rows = filter (\<lambda>m. msg_RoomID m = fm_RoomId req \<and> msg_DeletedAt m = 0 \<and> ?a \<le> msg_CreatedAt m \<and> msg_CreatedAt m < ?b) t"
    by (simp add: rows_def live_in_room_def conj_ac)
  then have "mset (take n srt @ drop n srt) =
      mset (filter (\<lambda>m. msg_RoomID m = fm_RoomId req \<and> msg_DeletedAt m = 0 \<and> ?a \<le> msg_CreatedAt m \<and> msg_CreatedAt m < ?b) t)"
    by (simp only: append_take_drop_id srt_def mset_sort)
  moreover have "sorted (map (\<lambda>m. (msg_CreatedAt m, msg_ID m)) (take n srt @ drop n srt))"
    by (simp only: append_take_drop_id) (simp add: srt_def)
  moreover have "length (take n srt) \<le> 500" "0 < fm_Limit req \<and> fm_Limit req \<le> 500 \<longrightarrow> int (length (take n srt)) \<le> fm_Limit req"
    "drop n srt \<noteq> [] \<longrightarrow> length (take n srt) = n" using n by auto
  ultimately show ?thesis using recs unfolding n_def [symmetric] by blast
qed

section \<open>Examples\<close>

definition sample_gateway :: gateway where
  "sample_gateway =
     (case run_system [(\<lambda>_. False, 5000000, CCreate ''r'' 7)] (empty_db, NewHubWithShards 2 [] []) of
        (db, h) \<Rightarrow> \<lparr>gw_db = db, gw_hub = h, gw_presence = []\<rparr>)"

definition sample_ws :: ws_request where
  "sample_ws = \<lparr>wr_user_id = Some 7, wr_RemoteIP = [], wr_UserAgent = [], wr_ClientVersion = []\<rparr>"

definition sample_clock :: "time \<Rightarrow> ws_clock" where
  "sample_clock t = \<lparr>wc_id = t, wc_connected = t, wc_online = t\<rparr>"

definition sample_open :: "nat \<Rightarrow> gateway \<Rightarrow> ws_result \<times> gateway" where
  "sample_open c g = ws_open ''n'' (\<lambda>_. False) True (sample_clock (int c + 1)) c sample_ws g"

lemma sample_gateway_ok: "system_ok (gw_db sample_gateway, gw_hub sample_gateway)"
proof -
  let ?calls = "[(\<lambda>_. False, 5000000, CCreate ''r'' 7)]"
  have "\<forall>(fault, now, call) \<in> set ?calls. UnixMilli now \<noteq> 0" by (simp add: UnixMilli_def wrap64_def)
  from run_system_ok [OF system_start_ok this, of 2 "[]" "[]"] show ?thesis
    unfolding sample_gateway_def by (cases "run_system ?calls (empty_db, NewHubWithShards 2 [] [])") simp
qed

theorem reconnect_survives_close_witness:
  "let g2 = snd (sample_open 1 (snd (sample_open 0 sample_gateway))); g3 = ws_close ''n'' False 3 0 g2 in
    users (gw_hub g3) 7 = Some 1 \<and> 1 \<in> members (gw_hub g3) 1 \<and> CheckUserOnline False 20 7 (gw_presence g3) = (True, onlineOwner ''n'' (conn_id 7 2))"
proof -
  let ?g1 = "snd (sample_open 0 sample_gateway)"
  let ?g2 = "snd (sample_open 1 ?g1)"
  have n: "get_client 0 (gw_hub sample_gateway) = None" "get_client 1 (gw_hub sample_gateway) = None" by code_simp+
  have r: "fst (sample_open 0 sample_gateway) = Ready (conn_id 7 1)" "fst (sample_open 1 ?g1) = Ready (conn_id 7 2)" by code_simp+
  have o: "sample_open 0 sample_gateway = (Ready (conn_id 7 1), ?g1)" "sample_open 1 ?g1 = (Ready (conn_id 7 2), ?g2)"
    using r by (simp_all add: prod_eq_iff)
  have "member (gw_db sample_gateway) 1 7" "room_live (gw_db sample_gateway) 1" by code_simp+
  moreover have "UnixNano (wc_id (sample_clock 1)) \<noteq> UnixNano (wc_id (sample_clock 2))" by code_simp
  ultimately show ?thesis
    using reconnect_survives_close [OF sample_gateway_ok n, of sample_ws 7 sample_ws "''n''" "\<lambda>_. False" "sample_clock 1" _ ?g1
        "\<lambda>_. False" "sample_clock 2" _ ?g2 10 20 False 3] o
    unfolding sample_open_def Let_def by (simp add: sample_ws_def sample_clock_def onlineTTL_def)
qed

definition sample_fetch :: FetchMessagesRequest where
  "sample_fetch = \<lparr>fm_RoomId = 9, fm_StartTimeUnixMs = 0, fm_EndTimeUnixMs = 5, fm_Limit = 1\<rparr>"

definition sample_fetched :: MessageRecord where
  "sample_fetched = \<lparr>mr_MessageId = 1, mr_SenderId = 7, mr_SenderName = unknown_user 7, mr_Content = ''hi'', mr_CreatedAtUnixMs = 0\<rparr>"

theorem fetch_messages_exact_witness:
  "\<exists>shown later. mset (shown @ later) = mset [sample_stored 2, sample_stored 1] \<and> length shown = 1 \<and> later \<noteq> [] \<and>
     FetchMessages (\<lambda>r a b n. GetMessagesByTimeRange False r a b n [sample_stored 2, sample_stored 1]) (\<lambda>_. True) sample_fetch empty_db =
       Inr [sample_fetched] \<and> map mr_MessageId [sample_fetched] = map msg_ID shown"
proof -
  let ?t = "[sample_stored 2, sample_stored 1]"
  let ?fetch = "\<lambda>r a b n. GetMessagesByTimeRange False r a b n ?t"
  have m: "marks_fit ?t" by (simp add: marks_fit_def sample_stored_def)
  have f: "FetchMessages ?fetch (\<lambda>_. True) sample_fetch empty_db = Inr [sample_fetched]" by code_simp
  have rows: "filter (\<lambda>m. msg_RoomID m = fm_RoomId sample_fetch \<and> msg_DeletedAt m = 0 \<and>
      time_UnixMilli (fm_StartTimeUnixMs sample_fetch) \<le> msg_CreatedAt m \<and> msg_CreatedAt m < time_UnixMilli (fm_EndTimeUnixMs sample_fetch)) ?t = ?t"
    by (simp add: sample_fetch_def sample_stored_def time_UnixMilli_def)
  obtain shown later where s: "mset (shown @ later) = mset ?t"
    "[sample_fetched] = map (\<lambda>m. \<lparr>mr_MessageId = msg_ID m, mr_SenderId = msg_SenderID m, mr_SenderName = user_name (\<lambda>_. True) empty_db (msg_SenderID m),
      mr_Content = msg_Content m, mr_CreatedAtUnixMs = UnixMilli (msg_CreatedAt m)\<rparr>) shown"
    using fetch_messages_exact [OF m disjI1 [OF refl] f] unfolding rows by (elim exE conjE) (rule that)
  have "length shown = 1" using arg_cong [OF s(2), of length] by simp
  moreover have "length (shown @ later) = 2" using arg_cong [OF s(1), of size] by simp
  moreover have "map mr_MessageId [sample_fetched] = map msg_ID shown" using arg_cong [OF s(2), of "map mr_MessageId"] by (simp add: comp_def)
  ultimately show ?thesis using s(1) f by (intro exI [of _ shown] exI [of _ later]) auto
qed

end
