(* ===== verification/AgentModel.thy ===== *)
theory AgentModel
  imports ModerationModel
begin

text \<open>
  The configuration of the agent of a room, \<^verbatim>\<open>services/agent/models/agent_config.go\<close>, with its defaults. The administration
  shows it and the gateway deletes it. Floating-point values are their bits.
\<close>

record RoomAgentConfig =
  rc_ID :: int
  rc_RoomID :: int
  rc_SystemPrompt :: string
  rc_TriggerMode :: int
  rc_TriggerWords :: string
  rc_MaxHistory :: int
  rc_Temperature :: float64_bits
  rc_ModelName :: string
  rc_RAGEnabled :: bool
  rc_TopK :: int
  rc_SimilarityThold :: float64_bits
  rc_RerankEnabled :: bool
  rc_MaxChunkTokens :: int
  rc_TopicChunkMinMsgs :: int
  rc_TopicChunkModel :: string
  rc_CreatedAt :: time
  rc_UpdatedAt :: time
  rc_DeletedAt :: int

definition DefaultAgentConfig :: "int \<Rightarrow> RoomAgentConfig" where
  "DefaultAgentConfig roomID =
     \<lparr>rc_ID = 0, rc_RoomID = roomID, rc_SystemPrompt = [], rc_TriggerMode = 1, rc_TriggerWords = ''[]'', rc_MaxHistory = 20,
      rc_Temperature = 0x3FE6666666666666, rc_ModelName = ''deepseek-chat'', rc_RAGEnabled = True, rc_TopK = 5,
      rc_SimilarityThold = 0x3FE6666666666666, rc_RerankEnabled = True, rc_MaxChunkTokens = 4000, rc_TopicChunkMinMsgs = 30,
      rc_TopicChunkModel = ''deepseek-chat'', rc_CreatedAt = zero_time, rc_UpdatedAt = zero_time, rc_DeletedAt = 0\<rparr>"

end
