(* ===== verification/RoomAgent.thy ===== *)
theory RoomAgent
  imports Gateway Auth AgentModel
begin

text \<open>
  The handler that enables, disables and removes the agent of a room, \<^verbatim>\<open>services/gateway/handlers/room_agent.go\<close>, and the
  runs of a gateway with all its operations.

  The tables \<^verbatim>\<open>room_agent_bindings\<close>, \<^verbatim>\<open>room_agent_configs\<close> and \<^verbatim>\<open>agent_configs\<close> belong to the agent; the first and the last may
  be missing. \<open>fault n\<close> says that the n-th statement of the transaction fails, be it by a unique index of these tables; a
  failing look-up of a table answers that it is missing. A failing transaction leaves the database as it was.
\<close>

section \<open>State\<close>

record AgentBinding =
  ab_ID :: int
  ab_RoomID :: int
  ab_BotID :: int
  ab_BotUserID :: "int option"
  ab_Enabled :: bool
  ab_DeletedAt :: int

record BindingConfig =
  bc_BindingID :: int
  bc_DeletedAt :: int

record agent_tables =
  at_bindings :: "AgentBinding list option"
  at_bindingConfigs :: "BindingConfig list"
  at_configs :: "RoomAgentConfig list option"

record agent_state =
  ag_gateway :: gateway
  ag_tables :: agent_tables

datatype agent_action = AgentEnable | AgentDisable | AgentRemove

record agent_clock =
  ac_stamp :: time
  ac_members :: time
  ac_configs :: time

section \<open>The handler\<close>

definition may_manage :: "bool \<Rightarrow> gin_context \<Rightarrow> Room \<Rightarrow> DB \<Rightarrow> bool" where
  "may_manage fault c room db \<longleftrightarrow>
     (let uid = (case cx_user_id c of None \<Rightarrow> 0 | Some i \<Rightarrow> i)
      in cx_user_role c = Some 1 \<or> ro_CreatorID room = uid \<or>
         (case GetMemberRole fault (ro_ID room) uid db of Inr (Some role) \<Rightarrow> role \<ge> 2 | _ \<Rightarrow> False))"

definition is_binding :: "int \<Rightarrow> AgentBinding \<Rightarrow> bool" where
  "is_binding roomID b \<longleftrightarrow> ab_RoomID b = roomID \<and> ab_DeletedAt b = 0"

text \<open>The part on the bindings: the bot users that leave the room, and the tables after it.\<close>

definition agent_bindings ::
    "(nat \<Rightarrow> bool) \<Rightarrow> int \<Rightarrow> agent_action \<Rightarrow> Room \<Rightarrow> agent_tables \<Rightarrow> http_status + int list \<times> agent_tables" where
  "agent_bindings fault stamp action room T =
     (case (if fault 2 then None else at_bindings T) of
        Some bs \<Rightarrow>
          (let live = filter (is_binding (ro_ID room)) bs
           in if action = AgentRemove then
                if fault 3 \<or> fault 4 \<or> (live \<noteq> [] \<and> fault 5) \<or> fault 6 then Inl ServerError
                else Inr (map the (filter (\<lambda>b. b \<noteq> None) (map ab_BotUserID live)),
                       T\<lparr>at_bindingConfigs := map (\<lambda>bc. if bc_BindingID bc \<in> ab_ID ` set live \<and> bc_DeletedAt bc = 0
                            then bc\<lparr>bc_DeletedAt := stamp\<rparr> else bc) (at_bindingConfigs T),
                         at_bindings := Some (map (\<lambda>b. if is_binding (ro_ID room) b
                            then b\<lparr>ab_Enabled := False, ab_DeletedAt := stamp\<rparr> else b) bs)\<rparr>)
              else if fault 3 then Inl ServerError
              else if action = AgentEnable \<and> live = [] then Inl Conflict
              else if fault 4 then Inl ServerError
              else Inr ([], T\<lparr>at_bindings := Some (map (\<lambda>b. if is_binding (ro_ID room) b
                              then b\<lparr>ab_Enabled := (action = AgentEnable)\<rparr> else b) bs)\<rparr>))
      | None \<Rightarrow> if action = AgentEnable \<and> ro_BotUserID room = 0 then Inl Conflict else Inr ([], T))"

text \<open>
  The deletion of the memberships of several users is one statement: it marks the live rows, unless one of them was
  already deleted in the same millisecond.
\<close>

definition clash :: "int \<Rightarrow> int \<Rightarrow> DB \<Rightarrow> int \<Rightarrow> bool" where
  "clash now roomID db userID \<longleftrightarrow> (\<exists>m \<in> set (live_members db). is_row roomID userID m) \<and>
     (\<exists>m \<in> set (db_members db). is_row roomID userID m \<and> mb_DeletedAt m = now)"

definition stamp_rows :: "int \<Rightarrow> int \<Rightarrow> int list \<Rightarrow> DB \<Rightarrow> DB" where
  "stamp_rows now roomID ids db =
     db\<lparr>db_members := map (\<lambda>m. if mb_RoomID m = roomID \<and> mb_UserID m \<in> set ids \<and> mb_DeletedAt m = 0
                               then m\<lparr>mb_DeletedAt := now\<rparr> else m) (db_members db)\<rparr>"

definition delete_members :: "bool \<Rightarrow> int \<Rightarrow> int \<Rightarrow> int list \<Rightarrow> DB \<Rightarrow> DB option" where
  "delete_members fault now roomID ids db =
     (if ids = [] then Some db
      else if fault \<or> (\<exists>u \<in> set ids. clash now roomID db u) then None
      else Some (stamp_rows now roomID ids db))"

definition delete_configs :: "bool \<Rightarrow> bool \<Rightarrow> int \<Rightarrow> int \<Rightarrow> agent_tables \<Rightarrow> agent_tables option" where
  "delete_configs unseen fault now roomID T =
     (case (if unseen then None else at_configs T) of
        None \<Rightarrow> Some T
      | Some cs \<Rightarrow>
          if fault then None
          else Some (T\<lparr>at_configs := Some (map (\<lambda>cfg. if rc_RoomID cfg = roomID \<and> rc_DeletedAt cfg = 0
                                            then cfg\<lparr>rc_DeletedAt := now\<rparr> else cfg) cs)\<rparr>))"

text \<open>The last statement: \<open>newBot\<close> is the new number of the bot, if it is among the values.\<close>

definition update_room_agent :: "int \<Rightarrow> bool \<Rightarrow> int option \<Rightarrow> DB \<Rightarrow> DB" where
  "update_room_agent roomID enabled newBot db =
     db\<lparr>db_rooms := map (\<lambda>r. if ro_ID r = roomID \<and> ro_DeletedAt r = 0
          then r\<lparr>ro_AgentEnabled := enabled, ro_BotUserID := (case newBot of None \<Rightarrow> ro_BotUserID r | Some b \<Rightarrow> b)\<rparr> else r) (db_rooms db)\<rparr>"

definition agent_tx ::
    "(nat \<Rightarrow> bool) \<Rightarrow> agent_clock \<Rightarrow> agent_action \<Rightarrow> gin_context \<Rightarrow> int \<Rightarrow> DB \<Rightarrow> agent_tables \<Rightarrow>
     http_status + int list \<times> DB \<times> agent_tables" where
  "agent_tx fault ck action c roomID db T =
     (case GetRoomByID (fault 0) roomID db of
        Inl e \<Rightarrow> Inl (if e = RecordNotFound then NotFound else ServerError)
      | Inr room \<Rightarrow>
          if \<not> may_manage (fault 1) c room db then Inl Forbidden
          else
            (case agent_bindings fault (UnixMilli (ac_stamp ck)) action room T of
               Inl e \<Rightarrow> Inl e
             | Inr (bots, T1) \<Rightarrow>
                 if action = AgentRemove then
                   (let removed = bots @ (if ro_BotUserID room \<noteq> 0 then [ro_BotUserID room] else [])
                    in case delete_members (fault 7) (UnixMilli (ac_members ck)) roomID removed db of
                         None \<Rightarrow> Inl ServerError
                       | Some db1 \<Rightarrow>
                           (case delete_configs (fault 8) (fault 9) (UnixMilli (ac_configs ck)) roomID T1 of
                              None \<Rightarrow> Inl ServerError
                            | Some T2 \<Rightarrow>
                                if fault 10 \<or> fault 11 then Inl ServerError
                                else Inr (removed, update_room_agent roomID False (Some 0) db1, T2)))
                 else if fault 10 \<or> fault 11 then Inl ServerError
                 else Inr ([], update_room_agent roomID (action = AgentEnable) None db, T1)))"

text \<open>Only the route of the removal hands \<^verbatim>\<open>Hub.LeaveRoom\<close> to the handler.\<close>

definition RoomAgentHandler ::
    "(nat \<Rightarrow> bool) \<Rightarrow> agent_clock \<Rightarrow> agent_action \<Rightarrow> gin_context \<Rightarrow> string \<Rightarrow> agent_state \<Rightarrow> http_status \<times> agent_state" where
  "RoomAgentHandler fault ck action c idText s =
     (case ParseInt idText of
        (_, Some _) \<Rightarrow> (BadRequest, s)
      | (roomID, None) \<Rightarrow>
          if roomID \<le> 0 then (BadRequest, s)
          else
            (case agent_tx fault ck action c roomID (gw_db (ag_gateway s)) (ag_tables s) of
               Inl e \<Rightarrow> (e, s)
             | Inr (removed, db, T) \<Rightarrow>
                 (OK, s\<lparr>ag_gateway := (ag_gateway s)\<lparr>gw_db := db,
                          gw_hub := (if action = AgentRemove then fold (\<lambda>u. LeaveRoom u roomID) removed (gw_hub (ag_gateway s))
                                     else gw_hub (ag_gateway s))\<rparr>,
                        ag_tables := T\<rparr>)))"

section \<open>The removal keeps the hub in step\<close>

lemma stamp_rows_member:
  assumes "now \<noteq> 0"
  shows "member (stamp_rows now r ids db) r' u' \<longleftrightarrow> \<not> (r' = r \<and> u' \<in> set ids) \<and> member db r' u'"
proof -
  let ?g = "\<lambda>m. if mb_RoomID m = r \<and> mb_UserID m \<in> set ids \<and> mb_DeletedAt m = 0 then m\<lparr>mb_DeletedAt := now\<rparr> else m"
  have ms: "db_members (stamp_rows now r ids db) = map ?g (db_members db)" by (simp add: stamp_rows_def)
  have g: "mb_DeletedAt (?g m) = 0 \<and> is_row r' u' (?g m) \<longleftrightarrow>
      \<not> (r' = r \<and> u' \<in> set ids) \<and> mb_DeletedAt m = 0 \<and> is_row r' u' m" for m
    using assms by (auto simp: is_row_def)
  show ?thesis unfolding member_alt ms bex_map g by blast
qed

lemma stamp_rows_Cons:
  assumes "now \<noteq> 0"
  shows "stamp_rows now r (u # us) db = stamp_rows now r us (stamp_rows now r [u] db)"
proof -
  let ?g = "\<lambda>ids m. if mb_RoomID m = r \<and> mb_UserID m \<in> set ids \<and> mb_DeletedAt m = 0 then m\<lparr>mb_DeletedAt := now\<rparr> else m"
  have "?g (u # us) m = ?g us (?g [u] m)" for m using assms by auto
  then have "map (?g (u # us)) (db_members db) = map (?g us) (map (?g [u]) (db_members db))"
    unfolding map_map comp_def by (intro map_cong refl)
  then show ?thesis unfolding stamp_rows_def by (cases db) (simp only: DB.simps)
qed

lemma stamp_one_ok:
  assumes "system_ok (db, h)" "\<not> clash now r db u" "now \<noteq> 0"
  shows "system_ok (stamp_rows now r [u] db, LeaveRoom u r h)"
proof (cases "member db r u")
  case True
  have "(mb_RoomID m = r \<and> mb_UserID m \<in> set [u] \<and> mb_DeletedAt m = 0) = (is_row r u m \<and> mb_DeletedAt m = 0)" for m
    by (auto simp: is_row_def)
  then have "repo_RemoveMember False now r u db = (None, stamp_rows now r [u] db)"
    using True assms(2) by (simp add: repo_RemoveMember_def member_def clash_def stamp_rows_def)
  from removed_system_ok [OF assms(1) this assms(3)] show ?thesis by (simp add: deliver_notifications_def notify_def)
next
  case False
  then have "map (\<lambda>m. if mb_RoomID m = r \<and> mb_UserID m \<in> set [u] \<and> mb_DeletedAt m = 0 then m\<lparr>mb_DeletedAt := now\<rparr> else m) (db_members db) = db_members db"
    by (intro map_idI) (auto simp: member_alt is_row_def)
  then have "stamp_rows now r [u] db = db" by (simp add: stamp_rows_def)
  with stays_out_system_ok [OF assms(1) False] show ?thesis by simp
qed

lemma clash_after:
  assumes "\<not> clash now r db u'" "now \<noteq> 0"
  shows "\<not> clash now r (stamp_rows now r [u] db) u'"
proof (cases "u' = u")
  case True
  then have "\<not> member (stamp_rows now r [u] db) r u'" by (simp add: stamp_rows_member [OF assms(2)])
  then show ?thesis by (simp add: clash_def member_def)
next
  case False
  have "member (stamp_rows now r [u] db) r u' \<longleftrightarrow> member db r u'" using False by (simp add: stamp_rows_member [OF assms(2)])
  moreover have "(\<exists>m \<in> set (db_members (stamp_rows now r [u] db)). is_row r u' m \<and> mb_DeletedAt m = now) \<longleftrightarrow>
      (\<exists>m \<in> set (db_members db). is_row r u' m \<and> mb_DeletedAt m = now)"
  proof -
    let ?g = "\<lambda>m. if mb_RoomID m = r \<and> mb_UserID m \<in> set [u] \<and> mb_DeletedAt m = 0 then m\<lparr>mb_DeletedAt := now\<rparr> else m"
    have g: "is_row r u' (?g m) \<and> mb_DeletedAt (?g m) = now \<longleftrightarrow> is_row r u' m \<and> mb_DeletedAt m = now" for m
      using False by (simp add: is_row_def)
    have ms: "db_members (stamp_rows now r [u] db) = map ?g (db_members db)" by (simp add: stamp_rows_def)
    show ?thesis unfolding ms bex_map g by (rule refl)
  qed
  ultimately show ?thesis using assms(1) by (simp add: clash_def member_def)
qed

lemma stamp_rows_ok:
  assumes "system_ok (db, h)" "\<forall>u \<in> set us. \<not> clash now r db u" "now \<noteq> 0"
  shows "system_ok (stamp_rows now r us db, fold (\<lambda>u. LeaveRoom u r) us h)"
  using assms
proof (induction us arbitrary: db h)
  case Nil
  have "stamp_rows now r [] db = db" by (simp add: stamp_rows_def map_idI)
  with Nil.prems show ?case by simp
next
  case (Cons u us)
  have one: "system_ok (stamp_rows now r [u] db, LeaveRoom u r h)" using stamp_one_ok [OF Cons.prems(1)] Cons.prems by simp
  have "\<forall>u' \<in> set us. \<not> clash now r (stamp_rows now r [u] db) u'" using clash_after Cons.prems(2,3) by simp
  from Cons.IH [OF one this Cons.prems(3)] show ?case
    by (simp only: fold_simps comp_apply stamp_rows_Cons [OF Cons.prems(3), of r u us db])
qed

lemma update_room_agent_view:
  "room_live (update_room_agent r e b db) = room_live db" "member (update_room_agent r e b db) = member db"
  "db_nextRoom (update_room_agent r e b db) = db_nextRoom db" "db_inv db \<Longrightarrow> db_inv (update_room_agent r e b db)"
proof -
  let ?g = "\<lambda>x. if ro_ID x = r \<and> ro_DeletedAt x = 0
    then x\<lparr>ro_AgentEnabled := e, ro_BotUserID := (case b of None \<Rightarrow> ro_BotUserID x | Some v \<Rightarrow> v)\<rparr> else x"
  have g: "ro_ID (?g x) = ro_ID x" "ro_DeletedAt (?g x) = ro_DeletedAt x" for x by simp_all
  have rows: "db_rooms (update_room_agent r e b db) = map ?g (db_rooms db)" "db_members (update_room_agent r e b db) = db_members db"
    "db_users (update_room_agent r e b db) = db_users db" "db_nextUser (update_room_agent r e b db) = db_nextUser db"
    by (simp_all add: update_room_agent_def)
  show "room_live (update_room_agent r e b db) = room_live db" by (simp only: room_live_alt rows bex_map g fun_eq_iff) simp
  show "member (update_room_agent r e b db) = member db" by (simp only: member_alt rows fun_eq_iff) simp
  show n: "db_nextRoom (update_room_agent r e b db) = db_nextRoom db" by (simp add: update_room_agent_def)
  have ids: "map ro_ID (map ?g (db_rooms db)) = map ro_ID (db_rooms db)" by (simp add: g)
  have "\<forall>x \<in> set (db_rooms db). ro_ID (?g x) < db_nextRoom db" if "db_inv db" using that by (simp add: g db_inv_def)
  then show "db_inv db \<Longrightarrow> db_inv (update_room_agent r e b db)"
    unfolding db_inv_def rows n ids by (auto simp del: map_map)
qed

lemma update_room_agent_ok: "system_ok (db, h) \<Longrightarrow> system_ok (update_room_agent r e b db, h)"
  by (rule same_view_system_ok) (simp_all add: update_room_agent_view system_ok_def)

lemma delete_members_ok:
  assumes "system_ok (db, h)" "delete_members fault now r ids db = Some db'" "now \<noteq> 0"
  shows "system_ok (db', fold (\<lambda>u. LeaveRoom u r) ids h)"
  using assms stamp_rows_ok [OF assms(1), of ids now r] by (auto simp: delete_members_def split: if_splits)

lemma delete_members_facts:
  assumes "delete_members fault now r ids db = Some db'" "now \<noteq> 0"
  shows "member db' r' u' \<longleftrightarrow> \<not> (r' = r \<and> u' \<in> set ids) \<and> member db r' u'"
    "db_rooms db' = db_rooms db" "db_users db' = db_users db"
  using assms stamp_rows_member [OF assms(2), of r ids db r' u']
  by (auto simp: delete_members_def stamp_rows_def split: if_splits)

text \<open>What a successful transaction has done.\<close>

lemma agent_tx_Inr:
  assumes "agent_tx fault ck action c roomID db T = Inr (removed, db', T')"
  obtains room bots T1 where "GetRoomByID (fault 0) roomID db = Inr room" "may_manage (fault 1) c room db"
    "agent_bindings fault (UnixMilli (ac_stamp ck)) action room T = Inr (bots, T1)"
    "action = AgentRemove \<Longrightarrow> \<exists>db1. removed = bots @ (if ro_BotUserID room \<noteq> 0 then [ro_BotUserID room] else []) \<and>
       delete_members (fault 7) (UnixMilli (ac_members ck)) roomID removed db = Some db1 \<and>
       delete_configs (fault 8) (fault 9) (UnixMilli (ac_configs ck)) roomID T1 = Some T' \<and>
       db' = update_room_agent roomID False (Some 0) db1"
    "action \<noteq> AgentRemove \<Longrightarrow> removed = [] \<and> T' = T1 \<and> db' = update_room_agent roomID (action = AgentEnable) None db"
proof -
  obtain room where room: "GetRoomByID (fault 0) roomID db = Inr room" using assms by (auto simp: agent_tx_def split: sum.splits)
  have man: "may_manage (fault 1) c room db" using assms room by (auto simp: agent_tx_def split: if_splits)
  obtain bots T1 where b: "agent_bindings fault (UnixMilli (ac_stamp ck)) action room T = Inr (bots, T1)"
    using assms room man by (auto simp: agent_tx_def split: sum.splits)
  show thesis
  proof (rule that [OF room man b])
    assume "action = AgentRemove"
    then show "\<exists>db1. removed = bots @ (if ro_BotUserID room \<noteq> 0 then [ro_BotUserID room] else []) \<and>
       delete_members (fault 7) (UnixMilli (ac_members ck)) roomID removed db = Some db1 \<and>
       delete_configs (fault 8) (fault 9) (UnixMilli (ac_configs ck)) roomID T1 = Some T' \<and>
       db' = update_room_agent roomID False (Some 0) db1"
      using assms room man b by (simp add: agent_tx_def Let_def split: option.splits if_splits)
  next
    assume "action \<noteq> AgentRemove"
    then show "removed = [] \<and> T' = T1 \<and> db' = update_room_agent roomID (action = AgentEnable) None db"
      using assms room man b by (simp add: agent_tx_def split: if_splits)
  qed
qed

lemma RoomAgentHandler_ok:
  assumes "gateway_ok (ag_gateway s)" "UnixMilli (ac_members ck) \<noteq> 0"
  shows "gateway_ok (ag_gateway (snd (RoomAgentHandler fault ck action c idText s)))"
proof -
  let ?g = "ag_gateway s"
  have ok: "system_ok (gw_db ?g, gw_hub ?g)" using assms(1) by (simp add: gateway_ok_def)
  obtain roomID err where p: "ParseInt idText = (roomID, err)" by (rule prod.exhaust)
  show ?thesis
  proof (cases "err = None \<and> roomID > 0 \<and> (\<exists>r. agent_tx fault ck action c roomID (gw_db ?g) (ag_tables s) = Inr r)")
    case False
    then have "snd (RoomAgentHandler fault ck action c idText s) = s"
      using p by (auto simp: RoomAgentHandler_def split: option.splits sum.splits)
    with assms(1) show ?thesis by simp
  next
    case True
    then obtain removed db' T' where tx: "err = None" "roomID > 0"
      "agent_tx fault ck action c roomID (gw_db ?g) (ag_tables s) = Inr (removed, db', T')" by auto
    have "system_ok (db', if action = AgentRemove then fold (\<lambda>u. LeaveRoom u roomID) removed (gw_hub ?g) else gw_hub ?g)"
    proof (rule agent_tx_Inr [OF tx(3)])
      fix room :: Room and bots T1
      assume rm: "action = AgentRemove \<Longrightarrow> \<exists>db1. removed = bots @ (if ro_BotUserID room \<noteq> 0 then [ro_BotUserID room] else []) \<and>
         delete_members (fault 7) (UnixMilli (ac_members ck)) roomID removed (gw_db ?g) = Some db1 \<and>
         delete_configs (fault 8) (fault 9) (UnixMilli (ac_configs ck)) roomID T1 = Some T' \<and>
         db' = update_room_agent roomID False (Some 0) db1"
        and keep: "action \<noteq> AgentRemove \<Longrightarrow> removed = [] \<and> T' = T1 \<and> db' = update_room_agent roomID (action = AgentEnable) None (gw_db ?g)"
      show ?thesis
      proof (cases "action = AgentRemove")
        case True
        with rm obtain db1 where "delete_members (fault 7) (UnixMilli (ac_members ck)) roomID removed (gw_db ?g) = Some db1"
          "db' = update_room_agent roomID False (Some 0) db1" by blast
        with True delete_members_ok [OF ok _ assms(2)] update_room_agent_ok show ?thesis by simp
      next
        case False
        with keep ok update_room_agent_ok show ?thesis by simp
      qed
    qed
    with p tx show ?thesis by (simp add: RoomAgentHandler_def gateway_ok_def)
  qed
qed

section \<open>Properties\<close>

lemma GetMemberRole_Some:
  "GetMemberRole f r u db = Inr (Some role) \<Longrightarrow> \<exists>m \<in> set (live_members db). is_row r u m \<and> mb_Role m = role"
  unfolding GetMemberRole_def by (auto simp: find_Some_iff simp del: set_live split: if_splits)

lemma may_manage_who:
  assumes "may_manage fault c room db" "uid = (case cx_user_id c of None \<Rightarrow> 0 | Some i \<Rightarrow> i)"
  shows "cx_user_role c = Some 1 \<or> ro_CreatorID room = uid \<or> (\<exists>m \<in> set (live_members db). is_row (ro_ID room) uid m \<and> mb_Role m \<ge> 2)"
proof -
  have "cx_user_role c = Some 1 \<or> ro_CreatorID room = uid \<or>
      (\<exists>role. GetMemberRole fault (ro_ID room) uid db = Inr (Some role) \<and> role \<ge> 2)"
    using assms by (auto simp: may_manage_def Let_def split: sum.splits option.splits)
  with GetMemberRole_Some [of fault "ro_ID room" uid db] show ?thesis by blast
qed

lemma removed_bindings:
  assumes "agent_bindings fault stamp AgentRemove room T = Inr (bots, T1)" "stamp \<noteq> 0" "\<not> fault 2" "at_bindings T = Some bs"
  shows "set bots = {u. \<exists>b \<in> set bs. is_binding (ro_ID room) b \<and> ab_BotUserID b = Some u}"
    "\<exists>bs'. at_bindings T1 = Some bs' \<and> (\<forall>b \<in> set bs'. \<not> is_binding (ro_ID room) b)" "at_configs T1 = at_configs T"
proof -
  let ?live = "filter (is_binding (ro_ID room)) bs"
  have r: "bots = map the (filter (\<lambda>b. b \<noteq> None) (map ab_BotUserID ?live))" "at_configs T1 = at_configs T"
    "at_bindings T1 = Some (map (\<lambda>b. if is_binding (ro_ID room) b then b\<lparr>ab_Enabled := False, ab_DeletedAt := stamp\<rparr> else b) bs)"
    using assms(1,3,4) by (simp_all add: agent_bindings_def Let_def split: if_splits) auto
  show "set bots = {u. \<exists>b \<in> set bs. is_binding (ro_ID room) b \<and> ab_BotUserID b = Some u}" unfolding r(1) by force
  show "\<exists>bs'. at_bindings T1 = Some bs' \<and> (\<forall>b \<in> set bs'. \<not> is_binding (ro_ID room) b)"
    unfolding r(3) using assms(2) by (auto simp: is_binding_def)
  show "at_configs T1 = at_configs T" by (rule r(2))
qed

lemma unbound_bots:
  assumes "agent_bindings fault stamp AgentRemove room T = Inr (bots, T1)" "fault 2 \<or> at_bindings T = None"
  shows "bots = []"
proof -
  have "(if fault 2 then None else at_bindings T) = None" using assms(2) by auto
  with assms(1) show ?thesis by (simp add: agent_bindings_def)
qed

lemma delete_configs_facts:
  assumes "delete_configs unseen fault now r T = Some T'"
  shows "at_bindings T' = at_bindings T"
    "\<not> unseen \<Longrightarrow> now \<noteq> 0 \<Longrightarrow> at_configs T' = Some cs \<Longrightarrow> cfg \<in> set cs \<Longrightarrow> rc_RoomID cfg = r \<Longrightarrow> rc_DeletedAt cfg \<noteq> 0"
proof -
  show "at_bindings T' = at_bindings T" using assms unfolding delete_configs_def
    by (cases unseen; cases "at_configs T"; cases fault) auto
  assume a: "\<not> unseen" "now \<noteq> 0" "at_configs T' = Some cs" "cfg \<in> set cs" "rc_RoomID cfg = r"
  show "rc_DeletedAt cfg \<noteq> 0"
  proof (cases "at_configs T")
    case None
    with assms a show ?thesis by (simp add: delete_configs_def)
  next
    case (Some old)
    let ?g = "\<lambda>cfg. if rc_RoomID cfg = r \<and> rc_DeletedAt cfg = 0 then cfg\<lparr>rc_DeletedAt := now\<rparr> else cfg"
    from Some assms a(1,3) have "cs = map ?g old" by (cases fault) (auto simp: delete_configs_def)
    with a(4) obtain x where x: "cfg = ?g x" by (simp only: set_map) (elim imageE, rule that)
    show ?thesis using a(2,5) unfolding x by (cases "rc_RoomID x = r \<and> rc_DeletedAt x = 0") auto
  qed
qed

lemma updated_rooms:
  assumes "r \<in> set (live_rooms (update_room_agent roomID e newBot db))" "ro_ID r = roomID"
  shows "ro_AgentEnabled r = e" "newBot = Some v \<Longrightarrow> ro_BotUserID r = v"
proof -
  let ?g = "\<lambda>x. if ro_ID x = roomID \<and> ro_DeletedAt x = 0
    then x\<lparr>ro_AgentEnabled := e, ro_BotUserID := (case newBot of None \<Rightarrow> ro_BotUserID x | Some b \<Rightarrow> b)\<rparr> else x"
  have rows: "db_rooms (update_room_agent roomID e newBot db) = map ?g (db_rooms db)" by (simp add: update_room_agent_def)
  have "r \<in> ?g ` set (db_rooms db)" "ro_DeletedAt r = 0"
    using assms(1) unfolding live_rooms_def rows by (simp_all only: set_filter mem_Collect_eq set_map)
  then obtain x where x: "r = ?g x" "ro_DeletedAt (?g x) = 0" by blast
  from assms(2) x(2) have "ro_ID x = roomID \<and> ro_DeletedAt x = 0"
    unfolding x(1) by (cases "ro_ID x = roomID \<and> ro_DeletedAt x = 0") auto
  with x(1) show "ro_AgentEnabled r = e" "newBot = Some v \<Longrightarrow> ro_BotUserID r = v" by simp_all
qed

text \<open>
  What a successful request leaves behind, from the database \<open>db\<close> and the tables \<open>T\<close> to \<open>db'\<close> and \<open>T'\<close>.
\<close>

definition agent_done ::
    "(nat \<Rightarrow> bool) \<Rightarrow> agent_action \<Rightarrow> Room \<Rightarrow> DB \<Rightarrow> agent_tables \<Rightarrow> DB \<Rightarrow> agent_tables \<Rightarrow> bool" where
  "agent_done fault action room db T db' T' \<longleftrightarrow>
     db_users db' = db_users db \<and> room_live db' = room_live db \<and>
     (\<forall>r \<in> set (live_rooms db'). ro_ID r = ro_ID room \<longrightarrow> ro_AgentEnabled r = (action = AgentEnable)) \<and>
     (\<forall>r u. member db' r u \<longrightarrow> member db r u) \<and>
     (\<forall>r u. member db r u \<and> \<not> member db' r u \<longrightarrow> action = AgentRemove \<and> r = ro_ID room \<and>
        (u = ro_BotUserID room \<or> (\<exists>bs. at_bindings T = Some bs \<and> (\<exists>b \<in> set bs. is_binding r b \<and> ab_BotUserID b = Some u)))) \<and>
     (action = AgentRemove \<longrightarrow>
        (\<forall>r \<in> set (live_rooms db'). ro_ID r = ro_ID room \<longrightarrow> ro_BotUserID r = 0) \<and>
        (ro_BotUserID room \<noteq> 0 \<longrightarrow> \<not> member db' (ro_ID room) (ro_BotUserID room)) \<and>
        (\<not> fault 2 \<longrightarrow> (\<forall>bs. at_bindings T = Some bs \<longrightarrow>
           (\<forall>b \<in> set bs. \<forall>u. is_binding (ro_ID room) b \<and> ab_BotUserID b = Some u \<longrightarrow> \<not> member db' (ro_ID room) u) \<and>
           (\<exists>bs'. at_bindings T' = Some bs' \<and> (\<forall>b \<in> set bs'. \<not> is_binding (ro_ID room) b)))) \<and>
        (\<not> fault 8 \<longrightarrow> (\<forall>cs. at_configs T' = Some cs \<longrightarrow> (\<forall>cfg \<in> set cs. rc_RoomID cfg = ro_ID room \<longrightarrow> rc_DeletedAt cfg \<noteq> 0))))"

lemma agent_removed:
  assumes "agent_bindings fault stamp AgentRemove room T = Inr (bots, T1)" "stamp \<noteq> 0" "now \<noteq> 0" "now' \<noteq> 0"
    and "removed = bots @ (if ro_BotUserID room \<noteq> 0 then [ro_BotUserID room] else [])"
    and "delete_members f7 now (ro_ID room) removed db = Some db1" "delete_configs (fault 8) f9 now' (ro_ID room) T1 = Some T'"
  shows "agent_done fault AgentRemove room db T (update_room_agent (ro_ID room) False (Some 0) db1) T'"
proof -
  let ?db = "update_room_agent (ro_ID room) False (Some 0) db1"
  note del = delete_members_facts [OF assms(6,3)]
  note view = update_room_agent_view [where r = "ro_ID room" and e = False and b = "Some 0" and db = db1]
  have m: "member ?db r u \<longleftrightarrow> \<not> (r = ro_ID room \<and> u \<in> set removed) \<and> member db r u" for r u
    by (simp add: view(2) del(1))
  have us: "db_users ?db = db_users db" using del(3) by (simp add: update_room_agent_def)
  have live: "room_live ?db = room_live db" unfolding view(1) by (simp add: room_live_alt fun_eq_iff del(2))
  note rooms = updated_rooms [where e = False and newBot = "Some 0" and db = db1 and roomID = "ro_ID room"]
  have gone: "u = ro_BotUserID room \<or> (\<exists>bs. at_bindings T = Some bs \<and> (\<exists>b \<in> set bs. is_binding (ro_ID room) b \<and> ab_BotUserID b = Some u))"
    if "u \<in> set removed" for u
  proof (cases "u \<in> set bots")
    case True
    then have "bots \<noteq> []" by auto
    with unbound_bots [OF assms(1)] have "\<not> (fault 2 \<or> at_bindings T = None)" by blast
    then obtain bs where bs: "\<not> fault 2" "at_bindings T = Some bs" by auto
    with True removed_bindings(1) [OF assms(1,2) bs] show ?thesis by blast
  next
    case False
    with that assms(5) show ?thesis by (auto split: if_splits)
  qed
  have bound: "(\<forall>b \<in> set bs. \<forall>u. is_binding (ro_ID room) b \<and> ab_BotUserID b = Some u \<longrightarrow> u \<in> set removed) \<and>
      (\<exists>bs'. at_bindings T' = Some bs' \<and> (\<forall>b \<in> set bs'. \<not> is_binding (ro_ID room) b))"
    if "\<not> fault 2" "at_bindings T = Some bs" for bs
  proof -
    note rb = removed_bindings [OF assms(1,2) that]
    from rb(1) have "u \<in> set removed" if "b \<in> set bs" "is_binding (ro_ID room) b" "ab_BotUserID b = Some u" for b u
      using that assms(5) by auto
    with rb(2) delete_configs_facts(1) [OF assms(7)] show ?thesis by simp
  qed
  have bot: "ro_BotUserID room \<noteq> 0 \<Longrightarrow> ro_BotUserID room \<in> set removed" by (simp add: assms(5))
  note cfg = delete_configs_facts(2) [OF assms(7) _ assms(4)]
  have flag: "\<forall>r \<in> set (live_rooms ?db). ro_ID r = ro_ID room \<longrightarrow> ro_AgentEnabled r = (AgentRemove = AgentEnable)"
    using rooms(1) by simp
  have none: "\<forall>r \<in> set (live_rooms ?db). ro_ID r = ro_ID room \<longrightarrow> ro_BotUserID r = 0" using rooms(2) [OF _ _ refl] by blast
  have sub: "\<forall>r u. member ?db r u \<longrightarrow> member db r u" using m by simp
  have only: "\<forall>r u. member db r u \<and> \<not> member ?db r u \<longrightarrow> AgentRemove = AgentRemove \<and> r = ro_ID room \<and>
      (u = ro_BotUserID room \<or> (\<exists>bs. at_bindings T = Some bs \<and> (\<exists>b \<in> set bs. is_binding r b \<and> ab_BotUserID b = Some u)))"
    unfolding m using gone by blast
  have out: "ro_BotUserID room \<noteq> 0 \<longrightarrow> \<not> member ?db (ro_ID room) (ro_BotUserID room)" using m bot by simp
  have unbound: "\<not> fault 2 \<longrightarrow> (\<forall>bs. at_bindings T = Some bs \<longrightarrow>
      (\<forall>b \<in> set bs. \<forall>u. is_binding (ro_ID room) b \<and> ab_BotUserID b = Some u \<longrightarrow> \<not> member ?db (ro_ID room) u) \<and>
      (\<exists>bs'. at_bindings T' = Some bs' \<and> (\<forall>b \<in> set bs'. \<not> is_binding (ro_ID room) b)))"
    using m bound by simp
  have clean: "\<not> fault 8 \<longrightarrow> (\<forall>cs. at_configs T' = Some cs \<longrightarrow> (\<forall>cfg \<in> set cs. rc_RoomID cfg = ro_ID room \<longrightarrow> rc_DeletedAt cfg \<noteq> 0))"
    using cfg by blast
  show ?thesis unfolding agent_done_def by (intro us live flag none sub only out unbound clean conjI impI)
qed

lemma agent_switched:
  assumes "action \<noteq> AgentRemove"
  shows "agent_done fault action room db T (update_room_agent (ro_ID room) (action = AgentEnable) None db) T'"
proof -
  note view = update_room_agent_view [where r = "ro_ID room" and e = "action = AgentEnable" and b = None and db = db]
  have us: "db_users (update_room_agent (ro_ID room) (action = AgentEnable) None db) = db_users db" by (simp add: update_room_agent_def)
  have "\<forall>r \<in> set (live_rooms (update_room_agent (ro_ID room) (action = AgentEnable) None db)). ro_ID r = ro_ID room \<longrightarrow>
      ro_AgentEnabled r = (action = AgentEnable)"
    using updated_rooms(1) by blast
  with assms us show ?thesis unfolding agent_done_def view(1,2) by simp
qed

lemma agent_tx_not_OK: "agent_tx fault ck action c roomID db T \<noteq> Inl OK"
proof -
  have "agent_bindings fault stamp action room T \<noteq> Inl OK" for stamp room
    by (simp add: agent_bindings_def Let_def split: option.splits)
  then show ?thesis by (auto simp: agent_tx_def Let_def split: sum.splits option.splits prod.splits)
qed

text \<open>
  C38: Managing the agent of a room. A request that is answered with success came from a super administrator, the creator of
  the room or a member with the role of an administrator, and the room exists. The room is then marked as enabled exactly
  if that was asked. No account and no membership of any other room is touched; memberships end only by a removal and only
  those of the bots of this room. After a removal the room names no bot, the bots it named or was bound to are no members,
  no binding is live, unless the look-up of the table failed, and no configuration. Any other answer has changed nothing,
  neither in the database nor in the hub.
\<close>

theorem room_agent_exact:
  assumes "RoomAgentHandler fault ck action c idText s = (status, s')"
    and "UnixMilli (ac_stamp ck) \<noteq> 0" "UnixMilli (ac_members ck) \<noteq> 0" "UnixMilli (ac_configs ck) \<noteq> 0"
  shows "(status \<noteq> OK \<longrightarrow> s' = s) \<and>
    (status = OK \<longrightarrow> (\<exists>room uid. ParseInt idText = (ro_ID room, None) \<and> room \<in> set (live_rooms (gw_db (ag_gateway s))) \<and>
       uid = (case cx_user_id c of None \<Rightarrow> 0 | Some i \<Rightarrow> i) \<and>
       (cx_user_role c = Some 1 \<or> ro_CreatorID room = uid \<or>
        (\<exists>m \<in> set (live_members (gw_db (ag_gateway s))). is_row (ro_ID room) uid m \<and> mb_Role m \<ge> 2)) \<and>
       agent_done fault action room (gw_db (ag_gateway s)) (ag_tables s) (gw_db (ag_gateway s')) (ag_tables s')))"
proof -
  let ?db = "gw_db (ag_gateway s)"
  obtain roomID err where p: "ParseInt idText = (roomID, err)" by (rule prod.exhaust)
  show ?thesis
  proof (cases "err = None \<and> roomID > 0 \<and> (\<exists>r. agent_tx fault ck action c roomID ?db (ag_tables s) = Inr r)")
    case False
    have tx: "agent_tx fault ck action c roomID ?db (ag_tables s) \<noteq> Inl OK" by (rule agent_tx_not_OK)
    with False p assms(1) show ?thesis by (cases err) (auto simp: RoomAgentHandler_def split: sum.splits if_splits)
  next
    case True
    then obtain removed db' T' where tx: "err = None" "roomID > 0" "agent_tx fault ck action c roomID ?db (ag_tables s) = Inr (removed, db', T')"
      by auto
    have s': "status = OK" "gw_db (ag_gateway s') = db'" "ag_tables s' = T'"
      using assms(1) p tx by (auto simp: RoomAgentHandler_def)
    show ?thesis
    proof (rule agent_tx_Inr [OF tx(3)])
      fix room bots T1
      assume room: "GetRoomByID (fault 0) roomID ?db = Inr room" and man: "may_manage (fault 1) c room ?db"
        and bind: "agent_bindings fault (UnixMilli (ac_stamp ck)) action room (ag_tables s) = Inr (bots, T1)"
        and rm: "action = AgentRemove \<Longrightarrow> \<exists>db1. removed = bots @ (if ro_BotUserID room \<noteq> 0 then [ro_BotUserID room] else []) \<and>
          delete_members (fault 7) (UnixMilli (ac_members ck)) roomID removed ?db = Some db1 \<and>
          delete_configs (fault 8) (fault 9) (UnixMilli (ac_configs ck)) roomID T1 = Some T' \<and>
          db' = update_room_agent roomID False (Some 0) db1"
        and keep: "action \<noteq> AgentRemove \<Longrightarrow> removed = [] \<and> T' = T1 \<and> db' = update_room_agent roomID (action = AgentEnable) None ?db"
      have r: "room \<in> set (live_rooms ?db)" "ro_ID room = roomID" using GetRoomByID_Inr [OF room] by auto
      have "agent_done fault action room ?db (ag_tables s) db' T'"
      proof (cases "action = AgentRemove")
        case True
        with rm obtain db1 where "removed = bots @ (if ro_BotUserID room \<noteq> 0 then [ro_BotUserID room] else [])"
          "delete_members (fault 7) (UnixMilli (ac_members ck)) (ro_ID room) removed ?db = Some db1"
          "delete_configs (fault 8) (fault 9) (UnixMilli (ac_configs ck)) (ro_ID room) T1 = Some T'"
          "db' = update_room_agent (ro_ID room) False (Some 0) db1" unfolding r(2) by blast
        with agent_removed [OF bind [unfolded True] assms(2-4)] True show ?thesis by blast
      next
        case False
        with keep agent_switched [OF False, of fault room ?db "ag_tables s" T'] r(2) show ?thesis by simp
      qed
      with p tx(1) r may_manage_who [OF man refl] s' show ?thesis by blast
    qed
  qed
qed

section \<open>Runs of a gateway\<close>

text \<open>
  Everything that reaches the database and the hub of one gateway: the services of the rooms with their notifications,
  connections, the agent's service and the handler above. A connection gets an address that is not in use.
\<close>

datatype gateway_call =
    GSystem system_call
  | GOpen bool ws_clock nat ws_request
  | GName nat
  | GClose nat
  | GKick int int
  | GAgent agent_clock agent_action gin_context string

fun run_gateway_call :: "string \<Rightarrow> (nat \<Rightarrow> bool) \<Rightarrow> time \<Rightarrow> gateway_call \<Rightarrow> agent_state \<Rightarrow> agent_state" where
  "run_gateway_call node fault now (GSystem call) s =
     (case run_call fault now call (gw_db (ag_gateway s), gw_hub (ag_gateway s)) of
        (db, h) \<Rightarrow> s\<lparr>ag_gateway := (ag_gateway s)\<lparr>gw_db := db, gw_hub := h\<rparr>\<rparr>)"
| "run_gateway_call node fault now (GOpen upgraded ck c rq) s =
     (if get_client c (gw_hub (ag_gateway s)) = None
      then s\<lparr>ag_gateway := snd (ws_open node fault upgraded ck c rq (ag_gateway s))\<rparr> else s)"
| "run_gateway_call node fault now (GName c) s = s\<lparr>ag_gateway := load_username (fault 0) c (ag_gateway s)\<rparr>"
| "run_gateway_call node fault now (GClose c) s = s\<lparr>ag_gateway := ws_close node (fault 0) now c (ag_gateway s)\<rparr>"
| "run_gateway_call node fault now (GKick roomID userID) s =
     s\<lparr>ag_gateway := snd (KickUser (fault 0) now roomID userID (ag_gateway s))\<rparr>"
| "run_gateway_call node fault now (GAgent ck action c idText) s = snd (RoomAgentHandler fault ck action c idText s)"

text \<open>The clock readings that mark deleted rows are not the first millisecond of 1970, whose mark means a live row.\<close>

fun clock_runs :: "time \<Rightarrow> gateway_call \<Rightarrow> bool" where
  "clock_runs now (GAgent ck action c idText) \<longleftrightarrow> UnixMilli (ac_members ck) \<noteq> 0"
| "clock_runs now call \<longleftrightarrow> UnixMilli now \<noteq> 0"

fun run_gateway :: "string \<Rightarrow> ((nat \<Rightarrow> bool) \<times> time \<times> gateway_call) list \<Rightarrow> agent_state \<Rightarrow> agent_state" where
  "run_gateway node [] s = s"
| "run_gateway node ((fault, now, call) # calls) s = run_gateway node calls (run_gateway_call node fault now call s)"

lemma run_gateway_call_ok:
  assumes "gateway_ok (ag_gateway s)" "clock_runs now call"
  shows "gateway_ok (ag_gateway (run_gateway_call node fault now call s))"
proof (cases call)
  case (GSystem sc)
  obtain db h where r: "run_call fault now sc (gw_db (ag_gateway s), gw_hub (ag_gateway s)) = (db, h)" by (rule prod.exhaust)
  have "system_ok (run_call fault now sc (gw_db (ag_gateway s), gw_hub (ag_gateway s)))"
    by (rule run_call_ok) (use assms GSystem in \<open>simp_all add: gateway_ok_def\<close>)
  with r GSystem show ?thesis by (simp add: gateway_ok_def)
qed (use assms ws_open_ok load_username_ok ws_close_ok KickUser_ok RoomAgentHandler_ok in simp_all)

lemma run_gateway_ok:
  "gateway_ok (ag_gateway s) \<Longrightarrow> \<forall>(fault, now, call) \<in> set calls. clock_runs now call \<Longrightarrow>
    gateway_ok (ag_gateway (run_gateway node calls s))"
  by (induction node calls s rule: run_gateway.induct) (auto simp: run_gateway_call_ok)

definition gateway_start :: "int \<Rightarrow> string \<Rightarrow> string \<Rightarrow> agent_tables \<Rightarrow> agent_state" where
  "gateway_start n t b T =
     \<lparr>ag_gateway = \<lparr>gw_db = empty_db, gw_hub = NewHubWithShards n t b, gw_presence = []\<rparr>, ag_tables = T\<rparr>"


section \<open>Examples\<close>

definition sample_binding :: AgentBinding where
  "sample_binding = \<lparr>ab_ID = 3, ab_RoomID = 1, ab_BotID = 2, ab_BotUserID = Some 9, ab_Enabled = True, ab_DeletedAt = 0\<rparr>"

definition sample_tables :: agent_tables where
  "sample_tables = \<lparr>at_bindings = Some [sample_binding], at_bindingConfigs = [], at_configs = None\<rparr>"

definition sample_calls :: "((nat \<Rightarrow> bool) \<times> time \<times> gateway_call) list" where
  "sample_calls = map (\<lambda>c. (\<lambda>_. False, 5000000, c))
     [GSystem (CCreate ''r'' 7), GSystem (CJoin 1 9), GSystem (CJoin 1 8), GOpen True (sample_clock 1) 0 (sample_ws\<lparr>wr_user_id := Some 8\<rparr>), GKick 1 8]"

definition sample_agent_state :: agent_state where
  "sample_agent_state = run_gateway ''n'' sample_calls (gateway_start 2 [] [] sample_tables)"


definition sample_agent_clock :: agent_clock where
  "sample_agent_clock = \<lparr>ac_stamp = 7000000, ac_members = 7000000, ac_configs = 7000000\<rparr>"

definition sample_owner :: gin_context where
  "sample_owner = \<lparr>cx_user_id = Some 7, cx_user_role = Some 0, cx_admin_role = None\<rparr>"

lemma parse_1: "ParseInt ''1'' = (1, None)"
proof -
  have "FormatInt 1 = ''1''" by code_simp
  moreover have "int64_range 1" by (simp add: int64_range_def)
  ultimately show ?thesis using ParseInt_FormatInt by metis
qed

theorem room_agent_exact_witness:
  "\<exists>s'. RoomAgentHandler (\<lambda>_. False) sample_agent_clock AgentRemove sample_owner ''1'' sample_agent_state = (OK, s') \<and>
     member (gw_db (ag_gateway sample_agent_state)) 1 9 \<and> \<not> member (gw_db (ag_gateway s')) 1 9"
proof -
  let ?s = sample_agent_state
  have "\<not> isl (agent_tx (\<lambda>_. False) sample_agent_clock AgentRemove sample_owner 1 (gw_db (ag_gateway ?s)) (ag_tables ?s))" by code_simp
  then obtain removed db T where
    "agent_tx (\<lambda>_. False) sample_agent_clock AgentRemove sample_owner 1 (gw_db (ag_gateway ?s)) (ag_tables ?s) = Inr (removed, db, T)"
    by (cases "agent_tx (\<lambda>_. False) sample_agent_clock AgentRemove sample_owner 1 (gw_db (ag_gateway ?s)) (ag_tables ?s)") auto
  then obtain s' where s': "RoomAgentHandler (\<lambda>_. False) sample_agent_clock AgentRemove sample_owner ''1'' ?s = (OK, s')"
    by (simp add: RoomAgentHandler_def parse_1)
  have ck: "UnixMilli (ac_stamp sample_agent_clock) \<noteq> 0" "UnixMilli (ac_members sample_agent_clock) \<noteq> 0"
    "UnixMilli (ac_configs sample_agent_clock) \<noteq> 0" by code_simp+
  obtain room where r: "ParseInt ''1'' = (ro_ID room, None)"
    "agent_done (\<lambda>_. False) AgentRemove room (gw_db (ag_gateway ?s)) (ag_tables ?s) (gw_db (ag_gateway s')) (ag_tables s')"
    using room_agent_exact [OF s' ck] by blast
  have "ro_ID room = 1" using r(1) parse_1 by simp
  moreover have "at_bindings (ag_tables ?s) = Some [sample_binding]" by code_simp
  ultimately have "\<not> member (gw_db (ag_gateway s')) 1 9"
    using r(2) by (simp add: agent_done_def sample_binding_def is_binding_def)
  moreover have "member (gw_db (ag_gateway ?s)) 1 9" by code_simp
  ultimately show ?thesis using s' by blast
qed

end
