(* ===== verification/Moderation.thy ===== *)
theory Moderation
  imports AdminState "HOL-Library.Multiset"
begin

text \<open>
  Review of the messages that the agents flagged: \<^verbatim>\<open>services/admin/application/moderation_dashboard.go\<close> and its handlers
  \<^verbatim>\<open>services/admin/api/admin_moderation.go\<close>.

  The table is a list of rows. A query orders by the time of creation only, so rows of the same time come in an order of
  the engine's choice: \<open>scan\<close> lists the rows in the order the engine meets them. \<open>like\<close> is the collation's test for a
  pattern and \<open>fdiv\<close> the quotient of two counts as a \<^verbatim>\<open>float64\<close>.
\<close>

section \<open>Queries\<close>

record mod_state =
  mo_events :: "ModerationEvent list"
  mo_admin :: admin_state

type_synonym scan_order = "ModerationEvent list \<Rightarrow> ModerationEvent list"

definition permutes_rows :: "scan_order \<Rightarrow> bool" where
  "permutes_rows scan \<longleftrightarrow> (\<forall>es. mset (scan es) = mset es)"

definition newest_first :: "scan_order \<Rightarrow> ModerationEvent list \<Rightarrow> ModerationEvent list" where
  "newest_first scan es = sort_key (\<lambda>e. - me_CreatedAt e) (scan es)"

record ModerationOverview =
  ov_TodayReviewed :: nat
  ov_TodayViolations :: nat
  ov_ViolationRate :: float64_bits
  ov_PendingReviews :: nat
  ov_GeneratedAt :: time

definition violation_rate :: "(int \<Rightarrow> int \<Rightarrow> float64_bits) \<Rightarrow> nat \<Rightarrow> nat \<Rightarrow> float64_bits" where
  "violation_rate fdiv violations tot = (if tot > 0 then fdiv (int violations) (int tot) else 0)"

definition mod_Overview ::
    "(int \<Rightarrow> int \<Rightarrow> float64_bits) \<Rightarrow> time \<Rightarrow> bool \<Rightarrow> time \<Rightarrow> time \<Rightarrow> ModerationEvent list \<Rightarrow> db_error + ModerationOverview" where
  "mod_Overview fdiv off fault now now' es =
     (if fault then Inl DBFailure
      else
        (let rows = filter (\<lambda>e. startOfDay off now \<le> me_CreatedAt e) es;
             tot = length rows;
             violations = length (filter (\<lambda>e. me_ModelResult e \<noteq> ''safe'') rows);
             pending = length (filter (\<lambda>e. me_ReviewStatus e = ''pending'') rows)
         in Inr \<lparr>ov_TodayReviewed = tot, ov_TodayViolations = violations,
                 ov_ViolationRate = violation_rate fdiv violations tot, ov_PendingReviews = pending, ov_GeneratedAt = now'\<rparr>))"

record ModerationDashboard =
  md_TodayReviewed :: nat
  md_TodayViolations :: nat
  md_ViolationRate :: float64_bits
  md_AutoKickCount :: nat
  md_AutoBanCount :: nat
  md_ManualReviewCount :: nat
  md_RevokedCount :: nat
  md_ToolFailureCount :: nat
  md_CategoryStats :: "(string \<times> nat) list"
  md_RecentViolations :: "ModerationEventItem list"
  md_GeneratedAt :: time

text \<open>The pattern is the UTF-8 text of the Chinese word for failure between two wildcards.\<close>

definition failure_pattern :: string where
  "failure_pattern = ''%'' @ map char_of [0xE5, 0xA4, 0xB1, 0xE8, 0xB4, 0xA5 :: nat] @ ''%''"

definition categories :: "(string list \<Rightarrow> string list) \<Rightarrow> ModerationEvent list \<Rightarrow> (string \<times> nat) list" where
  "categories eng rows =
     (let ks = map me_Category rows in sort_key (\<lambda>(k, n). - int n) (map (\<lambda>k. (k, count_list ks k)) (eng ks)))"

definition mod_Dashboard ::
    "(int \<Rightarrow> int \<Rightarrow> float64_bits) \<Rightarrow> time \<Rightarrow> (string \<Rightarrow> string \<Rightarrow> bool) \<Rightarrow> (string list \<Rightarrow> string list) \<Rightarrow> scan_order \<Rightarrow> (nat \<Rightarrow> bool) \<Rightarrow>
     time \<Rightarrow> time \<Rightarrow> ModerationEvent list \<Rightarrow> db_error + ModerationDashboard" where
  "mod_Dashboard fdiv off like eng scan fault now now' es =
     (if fault 0 \<or> fault 1 \<or> fault 2 then Inl DBFailure
      else
        (let rows = filter (\<lambda>e. startOfDay off now \<le> me_CreatedAt e) es;
             tot = length rows;
             violations = length (filter (\<lambda>e. me_ModelResult e \<noteq> ''safe'') rows);
             recent = take 20 (newest_first scan (filter (\<lambda>e. me_ModelResult e \<noteq> ''safe'') es))
         in Inr \<lparr>md_TodayReviewed = tot, md_TodayViolations = violations,
                 md_ViolationRate = violation_rate fdiv violations tot,
                 md_AutoKickCount = length (filter (\<lambda>e. me_PenaltyStatus e = ''kicked'') rows),
                 md_AutoBanCount = length (filter (\<lambda>e. me_PenaltyStatus e = ''banned'') rows),
                 md_ManualReviewCount = length (filter (\<lambda>e. me_ReviewStatus e \<noteq> ''pending'') rows),
                 md_RevokedCount = length (filter (\<lambda>e. me_ReviewStatus e = ''revoked'') rows),
                 md_ToolFailureCount = length (filter (\<lambda>e. like failure_pattern (me_ToolResult e)) rows),
                 md_CategoryStats = categories eng rows, md_RecentViolations = moderationItems recent,
                 md_GeneratedAt = now'\<rparr>))"

record ModerationListQuery =
  mq_Page :: int
  mq_PageSize :: int
  mq_Username :: string
  mq_UserID :: int
  mq_RoomID :: int
  mq_Category :: string
  mq_RiskLevel :: string
  mq_PenaltyStatus :: string
  mq_Start :: time
  mq_End :: time

definition mod_match :: "(string \<Rightarrow> string \<Rightarrow> bool) \<Rightarrow> ModerationListQuery \<Rightarrow> ModerationEvent \<Rightarrow> bool" where
  "mod_match like q e \<longleftrightarrow>
     (mq_UserID q > 0 \<longrightarrow> me_UserID e = mq_UserID q) \<and>
     (mq_RoomID q > 0 \<longrightarrow> me_RoomID e = mq_RoomID q) \<and>
     (mq_Username q \<noteq> [] \<longrightarrow> like (mq_Username q @ ''%'') (me_Username e)) \<and>
     (mq_Category q \<noteq> [] \<longrightarrow> me_Category e = mq_Category q) \<and>
     (mq_RiskLevel q \<noteq> [] \<longrightarrow> me_RiskLevel e = mq_RiskLevel q) \<and>
     (mq_PenaltyStatus q \<noteq> [] \<longrightarrow> me_PenaltyStatus e = mq_PenaltyStatus q) \<and>
     (\<not> IsZero (mq_Start q) \<longrightarrow> mq_Start q \<le> me_CreatedAt e) \<and>
     (\<not> IsZero (mq_End q) \<longrightarrow> me_CreatedAt e < mq_End q)"

definition mod_ListEvents ::
    "(string \<Rightarrow> string \<Rightarrow> bool) \<Rightarrow> scan_order \<Rightarrow> (nat \<Rightarrow> bool) \<Rightarrow> ModerationListQuery \<Rightarrow> ModerationEvent list \<Rightarrow>
     db_error + ModerationEventItem list \<times> nat" where
  "mod_ListEvents like scan fault q es =
     (if fault 0 \<or> fault 1 then Inl DBFailure
      else
        (let rows = filter (mod_match like q) es
         in Inr (moderationItems (page_of (mq_Page q) (mq_PageSize q) (newest_first scan rows)), length rows)))"

definition find_event :: "bool \<Rightarrow> int \<Rightarrow> ModerationEvent list \<Rightarrow> db_error + ModerationEvent" where
  "find_event fault i es =
     (if fault then Inl DBFailure
      else case find (\<lambda>e. me_ID e = i) es of None \<Rightarrow> Inl RecordNotFound | Some e \<Rightarrow> Inr e)"

definition mod_GetEvent :: "bool \<Rightarrow> int \<Rightarrow> ModerationEvent list \<Rightarrow> db_error + ModerationEventItem" where
  "mod_GetEvent fault i es = map_sum id moderationItem (find_event fault i es)"

section \<open>Actions\<close>

record ModerationAction =
  ma_Action :: string
  ma_By :: AuditAction

definition event_change :: "string \<Rightarrow> ModerationEvent \<Rightarrow> ModerationEvent option" where
  "event_change action e =
     (if action = ''warn'' then Some (e\<lparr>me_PenaltyStatus := ''warned'', me_ReviewStatus := ''reviewed''\<rparr>)
      else if action = ''mute'' then Some (e\<lparr>me_PenaltyStatus := ''muted'', me_ReviewStatus := ''reviewed''\<rparr>)
      else if action = ''kick'' then Some (e\<lparr>me_PenaltyStatus := ''kicked'', me_ReviewStatus := ''reviewed''\<rparr>)
      else if action = ''ban'' then Some (e\<lparr>me_PenaltyStatus := ''banned'', me_ReviewStatus := ''reviewed''\<rparr>)
      else if action = ''revoke'' then Some (e\<lparr>me_PenaltyStatus := ''none'', me_ReviewStatus := ''revoked''\<rparr>)
      else if action = ''false_positive'' then Some (e\<lparr>me_ReviewStatus := ''false_positive'', me_PenaltyStatus := ''none''\<rparr>)
      else if action = ''confirmed'' then Some (e\<lparr>me_ReviewStatus := ''confirmed''\<rparr>)
      else None)"

definition save_event :: "ModerationEvent \<Rightarrow> ModerationEvent list \<Rightarrow> ModerationEvent list" where
  "save_event e es = map (\<lambda>r. if me_ID r = me_ID e then e else r) es"

datatype mod_error = EventLookup db_error | EventAction | EventSave

text \<open>\<open>now\<close> is read for the review, \<open>saved\<close> when the row is written and \<open>logged\<close> for the audit entry.\<close>

definition mod_ApplyAction ::
    "(audit_value \<Rightarrow> string option) \<Rightarrow> (nat \<Rightarrow> bool) \<Rightarrow> time \<Rightarrow> time \<Rightarrow> time \<Rightarrow> int \<Rightarrow> ModerationAction \<Rightarrow> mod_state \<Rightarrow>
     mod_error option \<times> mod_state" where
  "mod_ApplyAction json fault now saved logged i action s =
     (case find_event (fault 0) i (mo_events s) of
        Inl e \<Rightarrow> (Some (EventLookup e), s)
      | Inr event \<Rightarrow>
          (case event_change (ma_Action action) event of
             None \<Rightarrow> (Some EventAction, s)
           | Some changed \<Rightarrow>
               if fault 1 then (Some EventSave, s)
               else
                 (let event' = changed\<lparr>me_ReviewedBy := aa_AdminUserID (ma_By action), me_ReviewedAt := Some now, me_UpdatedAt := saved\<rparr>
                  in (None, \<lparr>mo_events = save_event event' (mo_events s),
                             mo_admin = snd (audit_Log json (fault 2) logged
                               (success_entry (''moderation.'' @ ma_Action action) ''moderation_event'' (FormatInt i)
                                  (AModeration (moderationItem event)) (AModeration (moderationItem event')) (ma_By action))
                               (mo_admin s))\<rparr>))))"

section \<open>Handlers\<close>

definition AdminModerationDashboard ::
    "(int \<Rightarrow> int \<Rightarrow> float64_bits) \<Rightarrow> time \<Rightarrow> (string \<Rightarrow> string \<Rightarrow> bool) \<Rightarrow> (string list \<Rightarrow> string list) \<Rightarrow> scan_order \<Rightarrow> bool \<Rightarrow> (nat \<Rightarrow> bool) \<Rightarrow>
     time \<Rightarrow> time \<Rightarrow> mod_state \<Rightarrow> http_status \<times> ModerationDashboard option" where
  "AdminModerationDashboard fdiv off like eng scan up fault now now' s =
     (if \<not> up then (Unavailable, None)
      else case mod_Dashboard fdiv off like eng scan fault now now' (mo_events s) of
        Inl _ \<Rightarrow> (ServerError, None)
      | Inr data \<Rightarrow> (OK, Some data))"

text \<open>The query parameters: page, page size, the two numbers, the four texts and the two parsed times.\<close>

record mod_params =
  mp_page :: "string option"
  mp_pageSize :: "string option"
  mp_userID :: string
  mp_roomID :: string
  mp_username :: string
  mp_category :: string
  mp_riskLevel :: string
  mp_penalty :: string
  mp_start :: time
  mp_end :: time

definition AdminModerationList ::
    "(string \<Rightarrow> string \<Rightarrow> bool) \<Rightarrow> scan_order \<Rightarrow> bool \<Rightarrow> (nat \<Rightarrow> bool) \<Rightarrow> mod_params \<Rightarrow> mod_state \<Rightarrow>
     http_status \<times> (ModerationEventItem list \<times> nat) option" where
  "AdminModerationList like scan up fault p s =
     (if \<not> up then (Unavailable, None)
      else
        (let (page, pageSize) = page_params (mp_page p) (mp_pageSize p)
         in case mod_ListEvents like scan fault
                   \<lparr>mq_Page = page, mq_PageSize = pageSize, mq_Username = mp_username p, mq_UserID = fst (ParseInt (mp_userID p)),
                    mq_RoomID = fst (ParseInt (mp_roomID p)), mq_Category = mp_category p, mq_RiskLevel = mp_riskLevel p,
                    mq_PenaltyStatus = mp_penalty p, mq_Start = mp_start p, mq_End = mp_end p\<rparr> (mo_events s) of
              Inl _ \<Rightarrow> (ServerError, None)
            | Inr r \<Rightarrow> (OK, Some r)))"

definition AdminModerationDetail :: "bool \<Rightarrow> bool \<Rightarrow> string \<Rightarrow> mod_state \<Rightarrow> http_status \<times> ModerationEventItem option" where
  "AdminModerationDetail up fault idText s =
     (case ParseInt idText of
        (_, Some _) \<Rightarrow> (BadRequest, None)
      | (i, None) \<Rightarrow>
          if \<not> up then (Unavailable, None)
          else case mod_GetEvent fault i (mo_events s) of
            Inl _ \<Rightarrow> (NotFound, None)
          | Inr item \<Rightarrow> (OK, Some item))"

definition AdminModerationAction ::
    "(audit_value \<Rightarrow> string option) \<Rightarrow> bool \<Rightarrow> (nat \<Rightarrow> bool) \<Rightarrow> time \<Rightarrow> time \<Rightarrow> time \<Rightarrow> gin_context \<Rightarrow> admin_request \<Rightarrow> string option \<Rightarrow>
     mod_state \<Rightarrow> http_status \<times> mod_state" where
  "AdminModerationAction json up fault now saved logged c rq body s =
     (case ParseInt (rq_id rq) of
        (_, Some _) \<Rightarrow> (BadRequest, s)
      | (i, None) \<Rightarrow>
          (case body of
             None \<Rightarrow> (BadRequest, s)
           | Some action \<Rightarrow>
               if \<not> up then (Unavailable, s)
               else
                 (case mod_ApplyAction json fault now saved logged i \<lparr>ma_Action = action, ma_By = adminAuditAction c rq\<rparr> s of
                    (Some _, s') \<Rightarrow> (ServerError, s')
                  | (None, s') \<Rightarrow> (OK, s'))))"


section \<open>Properties\<close>

lemma find_event_Inr: "find_event fault i es = Inr e \<Longrightarrow> e \<in> set es \<and> me_ID e = i"
  by (auto simp: find_event_def dest: find_SomeD split: if_splits option.splits)

lemma event_change_keeps:
  assumes "event_change action e = Some e'"
  shows "me_ID e' = me_ID e \<and> me_MessageID e' = me_MessageID e \<and> me_UserID e' = me_UserID e \<and> me_RoomID e' = me_RoomID e \<and>
    me_OriginalMsg e' = me_OriginalMsg e \<and> me_ModelResult e' = me_ModelResult e \<and> me_CreatedAt e' = me_CreatedAt e"
  using assms by (auto simp: event_change_def split: if_splits)

lemma save_event_distinct:
  assumes "distinct (map me_ID es)" "e \<in> set es" "me_ID e' = me_ID e"
  shows "save_event e' es = map (\<lambda>r. if r = e then e' else r) es"
  unfolding save_event_def
proof (rule map_cong [OF refl])
  fix r assume "r \<in> set es"
  with assms have "me_ID r = me_ID e' \<longleftrightarrow> r = e" by (metis distinct_map inj_onD)
  then show "(if me_ID r = me_ID e' then e' else r) = (if r = e then e' else r)" by simp
qed

text \<open>What a successful action leaves: the reviewed row, the rest of the table and the audit entry.\<close>

definition reviewed ::
    "(audit_value \<Rightarrow> string option) \<Rightarrow> time \<Rightarrow> int \<Rightarrow> ModerationAction \<Rightarrow> ModerationEvent \<Rightarrow> ModerationEvent \<Rightarrow> mod_state \<Rightarrow> mod_state \<Rightarrow> bool" where
  "reviewed json now i action e e' s s' \<longleftrightarrow> e \<in> set (mo_events s) \<and> me_ID e = i \<and>
     event_change (ma_Action action) e = Some (e'\<lparr>me_ReviewedBy := me_ReviewedBy e, me_ReviewedAt := me_ReviewedAt e, me_UpdatedAt := me_UpdatedAt e\<rparr>) \<and>
     me_ReviewedBy e' = aa_AdminUserID (ma_By action) \<and> me_ReviewedAt e' = Some now \<and>
     mo_events s' = map (\<lambda>r. if r = e then e' else r) (mo_events s)"

lemma event_change_stamps:
  assumes "event_change action e = Some ch"
  shows "me_ReviewedBy e = me_ReviewedBy ch" "me_ReviewedAt e = me_ReviewedAt ch" "me_UpdatedAt e = me_UpdatedAt ch"
  using assms by (auto simp: event_change_def split: if_splits)

lemma mod_ApplyAction_cases:
  assumes "distinct (map me_ID (mo_events s))" "mod_ApplyAction json fault now saved logged i action s = (res, s')"
  shows "(\<exists>e. res = Some e \<and> s' = s) \<or>
    (res = None \<and> (\<exists>e e'. reviewed json now i action e e' s s' \<and>
       mo_admin s' = snd (audit_Log json (fault 2) logged
          (success_entry (''moderation.'' @ ma_Action action) ''moderation_event'' (FormatInt i)
             (AModeration (moderationItem e)) (AModeration (moderationItem e')) (ma_By action)) (mo_admin s))))"
proof (cases "find_event (fault 0) i (mo_events s)")
  case (Inl e)
  with assms(2) have "res = Some (EventLookup e)" "s' = s" by (simp_all add: mod_ApplyAction_def)
  then show ?thesis by blast
next
  case (Inr e)
  show ?thesis
  proof (cases "fault 1 \<or> event_change (ma_Action action) e = None")
    case True
    with assms(2) Inr have "\<exists>e. res = Some e \<and> s' = s" by (auto simp: mod_ApplyAction_def split: option.splits)
    then show ?thesis by blast
  next
    case False
    then obtain ch where ch: "event_change (ma_Action action) e = Some ch" "\<not> fault 1" by blast
    let ?e = "ch\<lparr>me_ReviewedBy := aa_AdminUserID (ma_By action), me_ReviewedAt := Some now, me_UpdatedAt := saved\<rparr>"
    have e: "e \<in> set (mo_events s)" "me_ID e = i" using find_event_Inr [OF Inr] by simp_all
    have id: "me_ID ?e = me_ID e" using event_change_keeps [OF ch(1)] by simp
    have r: "res = None" "mo_events s' = save_event ?e (mo_events s)"
      "mo_admin s' = snd (audit_Log json (fault 2) logged
          (success_entry (''moderation.'' @ ma_Action action) ''moderation_event'' (FormatInt i)
             (AModeration (moderationItem e)) (AModeration (moderationItem ?e)) (ma_By action)) (mo_admin s))"
      using assms(2) Inr ch by (auto simp: mod_ApplyAction_def Let_def)
    have "?e\<lparr>me_ReviewedBy := me_ReviewedBy e, me_ReviewedAt := me_ReviewedAt e, me_UpdatedAt := me_UpdatedAt e\<rparr> = ch"
      unfolding event_change_stamps [OF ch(1)] by (cases ch) simp
    then have "reviewed json now i action e ?e s s'"
      unfolding reviewed_def r(2) save_event_distinct [OF assms(1) e(1) id] using e ch(1) by simp
    with r show ?thesis by blast
  qed
qed

text \<open>
  C37: A review through the administration interface that answers with success has changed exactly one event: the one with
  the requested number, to the status that belongs to the action, with the administrator and the time of the review; all
  other events, the users, the rooms, the memberships and the connections are as before, so no penalty is carried out; and
  the audit log has one more entry, naming the administrator, the action and the event, unless writing it failed. A review
  with any other answer has changed nothing.
\<close>

theorem moderation_action_exact:
  assumes "distinct (map me_ID (mo_events s))"
    and "AdminModerationAction json up fault now saved logged c rq body s = (status, s')"
  shows "(status = OK \<longrightarrow>
     (\<exists>i action e e'. ParseInt (rq_id rq) = (i, None) \<and> body = Some action \<and>
        reviewed json now i \<lparr>ma_Action = action, ma_By = adminAuditAction c rq\<rparr> e e' s s' \<and> me_ReviewedBy e' = admin_id c \<and>
        as_db (mo_admin s') = as_db (mo_admin s) \<and> as_hub (mo_admin s') = as_hub (mo_admin s) \<and>
        as_presence (mo_admin s') = as_presence (mo_admin s) \<and>
        (\<not> fault 2 \<longrightarrow> (\<exists>row. as_audit (mo_admin s') = as_audit (mo_admin s) @ [row] \<and> al_AdminUserID row = admin_id c \<and>
           al_Action row = ''moderation.'' @ action \<and> al_TargetID row = FormatInt i)))) \<and>
    (status \<noteq> OK \<longrightarrow> s' = s)"
proof -
  obtain i err where p: "ParseInt (rq_id rq) = (i, err)" by (rule prod.exhaust)
  show ?thesis
  proof (cases "err = None \<and> body \<noteq> None \<and> up")
    case False
    with assms(2) p show ?thesis by (cases err; cases body) (auto simp: AdminModerationAction_def)
  next
    case True
    then obtain action where t: "err = None" "body = Some action" up by blast
    let ?ma = "\<lparr>ma_Action = action, ma_By = adminAuditAction c rq\<rparr>"
    obtain res s2 where m: "mod_ApplyAction json fault now saved logged i ?ma s = (res, s2)" by (rule prod.exhaust)
    have eq: "(status, s') = (case res of None \<Rightarrow> (OK, s2) | Some _ \<Rightarrow> (ServerError, s2))"
      using assms(2) p t m by (simp add: AdminModerationAction_def split: option.splits)
    from mod_ApplyAction_cases [OF assms(1) m] show ?thesis
    proof (elim disjE conjE exE)
      fix x assume "res = Some x" "s2 = s"
      with eq show ?thesis by simp
    next
      fix e e'
      assume n: "res = None" "reviewed json now i ?ma e e' s s2"
        and au: "mo_admin s2 = snd (audit_Log json (fault 2) logged
          (success_entry (''moderation.'' @ ma_Action ?ma) ''moderation_event'' (FormatInt i)
             (AModeration (moderationItem e)) (AModeration (moderationItem e')) (ma_By ?ma)) (mo_admin s))"
      have st: "status = OK" "s' = s2" using eq n(1) by simp_all
      have by_admin: "me_ReviewedBy e' = admin_id c" using n(2) by (simp add: reviewed_def adminAuditAction_def)
      have keeps: "as_db (mo_admin s2) = as_db (mo_admin s)" "as_hub (mo_admin s2) = as_hub (mo_admin s)"
        "as_presence (mo_admin s2) = as_presence (mo_admin s)"
        unfolding au by (simp_all add: audit_Log_def Let_def)
      have entry: "\<not> fault 2 \<Longrightarrow> \<exists>row. as_audit (mo_admin s2) = as_audit (mo_admin s) @ [row] \<and> al_AdminUserID row = admin_id c \<and>
           al_Action row = ''moderation.'' @ action \<and> al_TargetID row = FormatInt i"
        unfolding au by (simp add: audit_Log_def Let_def success_entry_def adminAuditAction_def)
      show ?thesis unfolding st using p t(1,2) n(2) by_admin keeps entry by blast
    qed
  qed
qed

text \<open>
  Paging through the moderation events loses and repeats nothing: for a table that does not change, the pages 1 to m of
  any filter, as long as m pages hold all matches, are together the matching events, newest first, and every page reports
  their number.
\<close>

lemma moderation_pages_complete:
  assumes "permutes_rows scan" "mq_PageSize q = int n" "length (filter (mod_match like q) es) \<le> m * n" "int (m * n) < 2 ^ 63"
    and "\<forall>k < m. mod_ListEvents like scan (\<lambda>_. False) (q\<lparr>mq_Page := int k + 1\<rparr>) es = Inr (pages k, counts k)"
  shows "\<exists>rows. concat (map pages [0..<m]) = moderationItems rows \<and> mset rows = mset (filter (mod_match like q) es) \<and>
    sorted_wrt (\<lambda>a b. me_CreatedAt b \<le> me_CreatedAt a) rows \<and> (\<forall>k < m. counts k = length rows)"
proof -
  let ?m = "filter (mod_match like q) es"
  let ?rows = "newest_first scan ?m"
  have ms: "mset ?rows = mset ?m" using assms(1) by (simp add: newest_first_def permutes_rows_def)
  have same: "mod_match like (q\<lparr>mq_Page := p\<rparr>) = mod_match like q" for p by (simp add: mod_match_def fun_eq_iff)
  have pg: "pages k = moderationItems (page_of (int k + 1) (int n) ?rows)" "counts k = length ?m" if "k < m" for k
    using assms(5) that by (auto simp: mod_ListEvents_def Let_def same assms(2))
  have "concat (map pages [0..<m]) = concat (map (\<lambda>k. map moderationItem (page_of (int k + 1) (int n) ?rows)) [0..<m])"
    using pg(1) by (intro arg_cong [of _ _ concat] map_cong) (simp_all add: moderationItems_def)
  also have "\<dots> = map moderationItem (concat (map (\<lambda>k. page_of (int k + 1) (int n) ?rows) [0..<m]))"
    by (simp add: map_concat comp_def)
  also have "\<dots> = moderationItems ?rows"
    using concat_pages [OF assms(4), of ?rows] assms(3) mset_eq_length [OF ms] by (simp add: moderationItems_def)
  finally have c: "concat (map pages [0..<m]) = moderationItems ?rows" .
  have "sorted (map (\<lambda>e. - me_CreatedAt e) ?rows)" by (simp add: newest_first_def)
  then have "sorted_wrt (\<lambda>a b. me_CreatedAt b \<le> me_CreatedAt a) ?rows" by (simp add: sorted_map)
  with c ms pg(2) mset_eq_length [OF ms] show ?thesis by auto
qed


section \<open>Examples\<close>

definition sample_event :: "int \<Rightarrow> time \<Rightarrow> ModerationEvent" where
  "sample_event i t =
     \<lparr>me_ID = i, me_MessageID = 1, me_RoomID = 9, me_UserID = 3, me_Username = ''eve'', me_RoomName = ''r'', me_OriginalMsg = ''x'',
      me_Category = ''abuse'', me_RiskLevel = ''high'', me_RiskScore = 0, me_ModelName = ''m'', me_ModelResult = ''block'',
      me_ModelReason = [], me_ToolParams = [], me_ToolResult = [], me_PenaltyStatus = ''none'', me_ReviewStatus = ''pending'',
      me_ReviewedBy = 0, me_ReviewedAt = None, me_CreatedAt = t, me_UpdatedAt = t\<rparr>"

definition sample_events :: "ModerationEvent list" where
  "sample_events = [sample_event 6 1, sample_event 7 2, sample_event 8 3]"

definition sample_mod_state :: mod_state where
  "sample_mod_state = \<lparr>mo_events = sample_events, mo_admin =
     \<lparr>as_db = \<lparr>db_users = [], db_rooms = [], db_members = [], db_nextUser = 1, db_nextRoom = 1, db_nextMember = 1\<rparr>,
      as_hub = None, as_presence = [], as_audit = [], as_nextAudit = 1\<rparr>\<rparr>"

definition sample_mod_query :: ModerationListQuery where
  "sample_mod_query = \<lparr>mq_Page = 1, mq_PageSize = 2, mq_Username = [], mq_UserID = 3, mq_RoomID = 0, mq_Category = [], mq_RiskLevel = [],
     mq_PenaltyStatus = [], mq_Start = zero_time, mq_End = zero_time\<rparr>"

theorem moderation_action_exact_witness:
  "\<exists>e e' s'. AdminModerationAction (\<lambda>_. None) True (\<lambda>_. False) 5 5 5 sample_admin sample_admin_request (Some ''ban'') sample_mod_state = (OK, s') \<and>
     mo_events s' = map (\<lambda>r. if r = e then e' else r) sample_events \<and> me_ID e = 7 \<and> me_ReviewedBy e' = 1 \<and>
     length (as_audit (mo_admin s')) = 1"
proof -
  let ?r = "AdminModerationAction (\<lambda>_. None) True (\<lambda>_. False) 5 5 5 sample_admin sample_admin_request (Some ''ban'') sample_mod_state"
  have id: "rq_id sample_admin_request = ''7''" by (simp add: sample_admin_request_def)
  have f: "find_event False 7 (mo_events sample_mod_state) = Inr (sample_event 7 2)" by code_simp
  have "\<exists>ch. event_change ''ban'' (sample_event 7 2) = Some ch" by (simp add: event_change_def)
  then have "fst ?r = OK"
    using f by (auto simp: AdminModerationAction_def id parse_7 mod_ApplyAction_def Let_def)
  then have r: "?r = (OK, snd ?r)" by (metis prod.collapse)
  have d: "distinct (map me_ID (mo_events sample_mod_state))" by code_simp
  have ev: "mo_events sample_mod_state = sample_events" "as_audit (mo_admin sample_mod_state) = []" "admin_id sample_admin = 1"
    by code_simp+
  from moderation_action_exact [OF d r] obtain i action e e' where
    x: "ParseInt (rq_id sample_admin_request) = (i, None)"
      "reviewed (\<lambda>_. None) 5 i \<lparr>ma_Action = action, ma_By = adminAuditAction sample_admin sample_admin_request\<rparr> e e' sample_mod_state (snd ?r)"
      "me_ReviewedBy e' = admin_id sample_admin" "length (as_audit (mo_admin (snd ?r))) = 1"
    using ev(2) by auto
  have i7: "i = 7" using x(1) by (simp add: id parse_7)
  have "mo_events (snd ?r) = map (\<lambda>r. if r = e then e' else r) sample_events" "me_ID e = 7" "me_ReviewedBy e' = 1"
    using x(2,3) ev(1,3) i7 unfolding reviewed_def by simp_all
  with x(4) r show ?thesis by (intro exI [of _ e] exI [of _ e'] exI [of _ "snd ?r"]) simp
qed

lemma moderation_pages_complete_example:
  "\<exists>rows. mset rows = mset sample_events \<and> sorted_wrt (\<lambda>a b. me_CreatedAt b \<le> me_CreatedAt a) rows \<and>
     concat (map (\<lambda>k. fst (projr (mod_ListEvents (\<lambda>_ _. True) id (\<lambda>_. False) (sample_mod_query\<lparr>mq_Page := int k + 1\<rparr>) sample_events))) [0..<2]) =
       moderationItems rows"
proof -
  let ?l = "\<lambda>k. mod_ListEvents (\<lambda>_ _. True) id (\<lambda>_. False) (sample_mod_query\<lparr>mq_Page := int k + 1\<rparr>) sample_events"
  have p: "\<forall>k < 2. ?l k = Inr (fst (projr (?l k)), snd (projr (?l k)))" by (simp add: mod_ListEvents_def Let_def)
  have all: "filter (mod_match (\<lambda>_ _. True) sample_mod_query) sample_events = sample_events" by code_simp
  have perm: "permutes_rows id" by (simp add: permutes_rows_def)
  have sz: "mq_PageSize sample_mod_query = int 2" by (simp add: sample_mod_query_def)
  have len: "length (filter (mod_match (\<lambda>_ _. True) sample_mod_query) sample_events) \<le> 2 * 2" unfolding all by (simp add: sample_events_def)
  from moderation_pages_complete [OF perm sz len _ p] show ?thesis unfolding all by (simp, blast)
qed

end
