(* ===== verification/MessageStats.thy ===== *)
theory MessageStats
  imports MessageStore "HOL-Library.List_Lexorder" "HOL-Library.Char_ord"
begin

text \<open>
  The message statistics of the administration, \<^verbatim>\<open>services/admin/application/message_stats.go\<close>: the interface
  \<^verbatim>\<open>MessageStatsStore\<close> as a record of its methods, its MySQL and its Mongo implementation, and the contract both keep as
  the locale \<open>message_stats\<close>.

  A \<^verbatim>\<open>GROUP BY\<close> without an order returns its groups in an order of the engine's choice: the parameter \<open>eng\<close> lists the
  distinct keys. The text tests (\<^verbatim>\<open>LIKE\<close> under the collation, a regular expression) and the text of a time in the zone of
  the server are parameters. Limits are positive, as the callers pass them.
\<close>

section \<open>Interface\<close>

record TimeCount =
  tc_Time :: string
  tc_Count :: nat

record KeyCount =
  kc_Key :: int
  kc_Count :: nat

record 's MessageStatsStore =
  st_CountMessages :: "bool \<Rightarrow> time \<Rightarrow> time \<Rightarrow> 's \<Rightarrow> save_error + nat"
  st_CountMessagesByType :: "bool \<Rightarrow> time \<Rightarrow> time \<Rightarrow> 's \<Rightarrow> save_error + (int, nat) gomap"
  st_CountPrivateGroupMessages :: "(nat \<Rightarrow> bool) \<Rightarrow> DB \<Rightarrow> time \<Rightarrow> time \<Rightarrow> 's \<Rightarrow> save_error + nat \<times> nat"
  st_CountAgentMentions :: "bool \<Rightarrow> time \<Rightarrow> time \<Rightarrow> 's \<Rightarrow> save_error + nat"
  st_ActiveSenders :: "bool \<Rightarrow> time \<Rightarrow> 's \<Rightarrow> save_error + nat"
  st_HourlyCounts :: "bool \<Rightarrow> time \<Rightarrow> time \<Rightarrow> 's \<Rightarrow> save_error + TimeCount list"
  st_DailyCounts :: "bool \<Rightarrow> time \<Rightarrow> time \<Rightarrow> 's \<Rightarrow> save_error + TimeCount list"
  st_TopRooms :: "bool \<Rightarrow> time \<Rightarrow> time \<Rightarrow> nat \<Rightarrow> 's \<Rightarrow> save_error + KeyCount list"
  st_TopSenders :: "bool \<Rightarrow> time \<Rightarrow> time \<Rightarrow> nat \<Rightarrow> 's \<Rightarrow> save_error + KeyCount list"
  st_CountBySender :: "bool \<Rightarrow> int \<Rightarrow> 's \<Rightarrow> save_error + nat"
  st_CountByRoom :: "bool \<Rightarrow> int \<Rightarrow> time \<Rightarrow> time \<Rightarrow> 's \<Rightarrow> save_error + nat"
  st_CountByRoomTotal :: "bool \<Rightarrow> int \<Rightarrow> 's \<Rightarrow> save_error + nat"
  st_CountsBySenderIDs :: "bool \<Rightarrow> int list \<Rightarrow> 's \<Rightarrow> save_error + (int, nat) gomap"
  st_CountsByRoomIDs :: "bool \<Rightarrow> int list \<Rightarrow> time \<Rightarrow> time \<Rightarrow> 's \<Rightarrow> save_error + (int, nat) gomap"
  st_CountsByRoomTotalIDs :: "bool \<Rightarrow> int list \<Rightarrow> 's \<Rightarrow> save_error + (int, nat) gomap"

text \<open>What the queries take from their surroundings.\<close>

record stats_env =
  se_eng :: "int list \<Rightarrow> int list"
  se_engText :: "string list \<Rightarrow> string list"
  se_like :: "string \<Rightarrow> string \<Rightarrow> bool"
  se_regex :: "string \<Rightarrow> string \<Rightarrow> bool"
  se_dateFormat :: "string \<Rightarrow> time \<Rightarrow> string"
  se_dateToString :: "string \<Rightarrow> time \<Rightarrow> string"

definition group_order :: "('k list \<Rightarrow> 'k list) \<Rightarrow> bool" where
  "group_order eng \<longleftrightarrow> (\<forall>ks. distinct (eng ks) \<and> set (eng ks) = set ks)"

definition answer :: "bool \<Rightarrow> 'a \<Rightarrow> save_error + 'a" where
  "answer fault x = (if fault then Inl StoreFault else Inr x)"

definition group_count :: "('k list \<Rightarrow> 'k list) \<Rightarrow> 'k list \<Rightarrow> ('k \<times> nat) list" where
  "group_count eng ks = map (\<lambda>k. (k, count_list ks k)) (eng ks)"

definition count_map :: "('k \<times> nat) list \<Rightarrow> ('k, nat) gomap" where
  "count_map rows = fold (\<lambda>(k, n). map_put k n) rows []"

definition keyCountFromRows :: "(int \<times> nat) list \<Rightarrow> KeyCount list" where
  "keyCountFromRows rows = map (\<lambda>(k, n). \<lparr>kc_Key = k, kc_Count = n\<rparr>) rows"

definition top_rows :: "(int list \<Rightarrow> int list) \<Rightarrow> nat \<Rightarrow> int list \<Rightarrow> (int \<times> nat) list" where
  "top_rows eng limit ks = take limit (sort_key (\<lambda>(k, n). - int n) (group_count eng ks))"

definition time_rows :: "(string list \<Rightarrow> string list) \<Rightarrow> string list \<Rightarrow> TimeCount list" where
  "time_rows eng ks = map (\<lambda>(k, n). \<lparr>tc_Time = k, tc_Count = n\<rparr>) (sort_key fst (group_count eng ks))"

definition between :: "time \<Rightarrow> time \<Rightarrow> Message \<Rightarrow> bool" where
  "between start stop m \<longleftrightarrow> start \<le> msg_CreatedAt m \<and> msg_CreatedAt m < stop"

text \<open>The byte sequence of the mention that the Chinese client sends.\<close>

definition ai_mention :: string where
  "ai_mention = ''@AI'' @ map char_of [0xE5, 0x8A, 0xA9, 0xE6, 0x89, 0x8B :: nat]"

section \<open>MySQL\<close>

definition mysql_notDeleted :: "table \<Rightarrow> Message list" where
  "mysql_notDeleted t = filter (\<lambda>m. msg_DeletedAt m = 0) t"

definition mysql_CountMessages :: "bool \<Rightarrow> time \<Rightarrow> time \<Rightarrow> table \<Rightarrow> save_error + nat" where
  "mysql_CountMessages fault start stop t = answer fault (length (filter (between start stop) (mysql_notDeleted t)))"

definition mysql_CountMessagesByType ::
    "stats_env \<Rightarrow> bool \<Rightarrow> time \<Rightarrow> time \<Rightarrow> table \<Rightarrow> save_error + (int, nat) gomap" where
  "mysql_CountMessagesByType E fault start stop t =
     answer fault (count_map (group_count (se_eng E) (map msg_Type (filter (between start stop) (mysql_notDeleted t)))))"

text \<open>The rows of the join of messages and live rooms, grouped by the type of the room.\<close>

definition joined_types :: "DB \<Rightarrow> Message list \<Rightarrow> int list" where
  "joined_types db ms =
     concat (map (\<lambda>m. map ro_Type (filter (\<lambda>r. ro_ID r = msg_RoomID m) (live_rooms db))) ms)"

definition mysql_CountPrivateGroupMessages ::
    "stats_env \<Rightarrow> (nat \<Rightarrow> bool) \<Rightarrow> DB \<Rightarrow> time \<Rightarrow> time \<Rightarrow> table \<Rightarrow> save_error + nat \<times> nat" where
  "mysql_CountPrivateGroupMessages E fault db start stop t =
     answer (fault 0)
       (fold (\<lambda>(roomType, count) (private, grp).
           if roomType = 1 then (private + count, grp) else (private, grp + count))
         (group_count (se_eng E) (joined_types db (filter (between start stop) (mysql_notDeleted t)))) (0, 0))"

definition mysql_CountAgentMentions :: "stats_env \<Rightarrow> bool \<Rightarrow> time \<Rightarrow> time \<Rightarrow> table \<Rightarrow> save_error + nat" where
  "mysql_CountAgentMentions E fault start stop t =
     answer fault (length (filter (\<lambda>m. between start stop m \<and>
       (se_like E ''%@agent%'' (msg_Content m) \<or> se_like E (''%'' @ ai_mention @ ''%'') (msg_Content m) \<or>
        se_like E (''%'' @ ai_mention @ ''_%'') (msg_Content m))) (mysql_notDeleted t)))"

definition mysql_ActiveSenders :: "bool \<Rightarrow> time \<Rightarrow> table \<Rightarrow> save_error + nat" where
  "mysql_ActiveSenders fault since t =
     answer fault (length (remdups (map msg_SenderID (filter (\<lambda>m. since \<le> msg_CreatedAt m) (mysql_notDeleted t)))))"

definition mysql_HourlyCounts :: "stats_env \<Rightarrow> bool \<Rightarrow> time \<Rightarrow> time \<Rightarrow> table \<Rightarrow> save_error + TimeCount list" where
  "mysql_HourlyCounts E fault start stop t =
     answer fault (time_rows (se_engText E)
       (map (\<lambda>m. se_dateFormat E ''%Y-%m-%d %H:00'' (msg_CreatedAt m)) (filter (between start stop) (mysql_notDeleted t))))"

definition mysql_DailyCounts :: "stats_env \<Rightarrow> bool \<Rightarrow> time \<Rightarrow> time \<Rightarrow> table \<Rightarrow> save_error + TimeCount list" where
  "mysql_DailyCounts E fault start stop t =
     answer fault (time_rows (se_engText E)
       (map (\<lambda>m. se_dateFormat E ''%Y-%m-%d'' (msg_CreatedAt m)) (filter (between start stop) (mysql_notDeleted t))))"

definition mysql_TopRooms :: "stats_env \<Rightarrow> bool \<Rightarrow> time \<Rightarrow> time \<Rightarrow> nat \<Rightarrow> table \<Rightarrow> save_error + KeyCount list" where
  "mysql_TopRooms E fault start stop limit t =
     answer fault (keyCountFromRows (top_rows (se_eng E) limit
       (map msg_RoomID (filter (between start stop) (mysql_notDeleted t)))))"

definition mysql_TopSenders :: "stats_env \<Rightarrow> bool \<Rightarrow> time \<Rightarrow> time \<Rightarrow> nat \<Rightarrow> table \<Rightarrow> save_error + KeyCount list" where
  "mysql_TopSenders E fault start stop limit t =
     answer fault (keyCountFromRows (top_rows (se_eng E) limit
       (map msg_SenderID (filter (between start stop) (mysql_notDeleted t)))))"

definition mysql_CountBySender :: "bool \<Rightarrow> int \<Rightarrow> table \<Rightarrow> save_error + nat" where
  "mysql_CountBySender fault senderID t = answer fault (length (filter (\<lambda>m. msg_SenderID m = senderID) (mysql_notDeleted t)))"

definition mysql_CountByRoom :: "bool \<Rightarrow> int \<Rightarrow> time \<Rightarrow> time \<Rightarrow> table \<Rightarrow> save_error + nat" where
  "mysql_CountByRoom fault roomID start stop t =
     answer fault (length (filter (\<lambda>m. msg_RoomID m = roomID \<and> between start stop m) (mysql_notDeleted t)))"

definition mysql_CountByRoomTotal :: "bool \<Rightarrow> int \<Rightarrow> table \<Rightarrow> save_error + nat" where
  "mysql_CountByRoomTotal fault roomID t = answer fault (length (filter (\<lambda>m. msg_RoomID m = roomID) (mysql_notDeleted t)))"

definition mysql_CountsBySenderIDs :: "stats_env \<Rightarrow> bool \<Rightarrow> int list \<Rightarrow> table \<Rightarrow> save_error + (int, nat) gomap" where
  "mysql_CountsBySenderIDs E fault senderIDs t =
     (if senderIDs = [] then Inr []
      else answer fault (count_map (group_count (se_eng E)
             (map msg_SenderID (filter (\<lambda>m. msg_SenderID m \<in> set senderIDs) (mysql_notDeleted t))))))"

definition mysql_CountsByRoomIDs ::
    "stats_env \<Rightarrow> bool \<Rightarrow> int list \<Rightarrow> time \<Rightarrow> time \<Rightarrow> table \<Rightarrow> save_error + (int, nat) gomap" where
  "mysql_CountsByRoomIDs E fault roomIDs start stop t =
     (if roomIDs = [] then Inr []
      else answer fault (count_map (group_count (se_eng E)
             (map msg_RoomID (filter (\<lambda>m. msg_RoomID m \<in> set roomIDs \<and> between start stop m) (mysql_notDeleted t))))))"

definition mysql_CountsByRoomTotalIDs :: "stats_env \<Rightarrow> bool \<Rightarrow> int list \<Rightarrow> table \<Rightarrow> save_error + (int, nat) gomap" where
  "mysql_CountsByRoomTotalIDs E fault roomIDs t =
     (if roomIDs = [] then Inr []
      else answer fault (count_map (group_count (se_eng E)
             (map msg_RoomID (filter (\<lambda>m. msg_RoomID m \<in> set roomIDs) (mysql_notDeleted t))))))"

section \<open>Mongo\<close>

definition baseFilter :: "time \<Rightarrow> time \<Rightarrow> MessageDocument \<Rightarrow> bool" where
  "baseFilter start stop d \<longleftrightarrow> notDeletedFilter d \<and> start \<le> doc_CreatedAt d \<and> doc_CreatedAt d < stop"

definition mongo_CountMessages :: "bool \<Rightarrow> time \<Rightarrow> time \<Rightarrow> collection \<Rightarrow> save_error + nat" where
  "mongo_CountMessages fault start stop c = answer fault (length (filter (baseFilter start stop) c))"

definition mongo_CountMessagesByType ::
    "stats_env \<Rightarrow> bool \<Rightarrow> time \<Rightarrow> time \<Rightarrow> collection \<Rightarrow> save_error + (int, nat) gomap" where
  "mongo_CountMessagesByType E fault start stop c =
     answer fault (count_map (group_count (se_eng E) (map doc_Type (filter (baseFilter start stop) c))))"

definition roomIDsByType :: "bool \<Rightarrow> int \<Rightarrow> DB \<Rightarrow> save_error + int list" where
  "roomIDsByType fault roomType db = answer fault (map ro_ID (filter (\<lambda>r. ro_Type r = roomType) (live_rooms db)))"

definition countByRoomIDs :: "bool \<Rightarrow> time \<Rightarrow> time \<Rightarrow> int list \<Rightarrow> collection \<Rightarrow> save_error + nat" where
  "countByRoomIDs fault start stop roomIDs c =
     (if roomIDs = [] then Inr 0
      else answer fault (length (filter (\<lambda>d. baseFilter start stop d \<and> doc_RoomID d \<in> set roomIDs) c)))"

definition mongo_CountPrivateGroupMessages :: "(nat \<Rightarrow> bool) \<Rightarrow> DB \<Rightarrow> time \<Rightarrow> time \<Rightarrow> collection \<Rightarrow> save_error + nat \<times> nat" where
  "mongo_CountPrivateGroupMessages fault db start stop c =
     (case roomIDsByType (fault 0) 1 db of
        Inl e \<Rightarrow> Inl e
      | Inr privateIDs \<Rightarrow>
          (case roomIDsByType (fault 1) 2 db of
             Inl e \<Rightarrow> Inl e
           | Inr groupIDs \<Rightarrow>
               (case countByRoomIDs (fault 2) start stop privateIDs c of
                  Inl e \<Rightarrow> Inl e
                | Inr private \<Rightarrow>
                    (case countByRoomIDs (fault 3) start stop groupIDs c of
                       Inl e \<Rightarrow> Inl e
                     | Inr grp \<Rightarrow> Inr (private, grp)))))"

text \<open>
  The filter is a document: \<^verbatim>\<open>f["$or"] = ...\<close> replaces the \<^verbatim>\<open>$or\<close> that \<^verbatim>\<open>notDeletedFilter\<close> put there, so only the range of
  times is left of the base filter.
\<close>

definition mongo_CountAgentMentions :: "stats_env \<Rightarrow> bool \<Rightarrow> time \<Rightarrow> time \<Rightarrow> collection \<Rightarrow> save_error + nat" where
  "mongo_CountAgentMentions E fault start stop c =
     answer fault (length (filter (\<lambda>d. start \<le> doc_CreatedAt d \<and> doc_CreatedAt d < stop \<and>
       (se_regex E ''@agent'' (doc_Content d) \<or> se_regex E ai_mention (doc_Content d))) c))"

definition mongo_ActiveSenders :: "bool \<Rightarrow> time \<Rightarrow> collection \<Rightarrow> save_error + nat" where
  "mongo_ActiveSenders fault since c =
     answer fault (length (remdups (map doc_SenderID (filter (\<lambda>d. notDeletedFilter d \<and> since \<le> doc_CreatedAt d) c))))"

definition mongo_CountBySender :: "bool \<Rightarrow> int \<Rightarrow> collection \<Rightarrow> save_error + nat" where
  "mongo_CountBySender fault senderID c =
     answer fault (length (filter (\<lambda>d. notDeletedFilter d \<and> doc_SenderID d = senderID) c))"

definition mongo_CountByRoom :: "bool \<Rightarrow> int \<Rightarrow> time \<Rightarrow> time \<Rightarrow> collection \<Rightarrow> save_error + nat" where
  "mongo_CountByRoom fault roomID start stop c =
     answer fault (length (filter (\<lambda>d. baseFilter start stop d \<and> doc_RoomID d = roomID) c))"

definition mongo_CountByRoomTotal :: "bool \<Rightarrow> int \<Rightarrow> collection \<Rightarrow> save_error + nat" where
  "mongo_CountByRoomTotal fault roomID c =
     answer fault (length (filter (\<lambda>d. notDeletedFilter d \<and> doc_RoomID d = roomID) c))"

definition groupCountByKeys ::
    "stats_env \<Rightarrow> bool \<Rightarrow> (MessageDocument \<Rightarrow> bool) \<Rightarrow> (MessageDocument \<Rightarrow> int) \<Rightarrow> int list \<Rightarrow> collection \<Rightarrow>
     save_error + (int, nat) gomap" where
  "groupCountByKeys E fault flt field keys c =
     (if keys = [] then Inr []
      else answer fault (count_map (group_count (se_eng E)
             (map field (filter (\<lambda>d. flt d \<and> field d \<in> set keys) c)))))"

definition mongo_CountsBySenderIDs :: "stats_env \<Rightarrow> bool \<Rightarrow> int list \<Rightarrow> collection \<Rightarrow> save_error + (int, nat) gomap" where
  "mongo_CountsBySenderIDs E fault senderIDs c = groupCountByKeys E fault notDeletedFilter doc_SenderID senderIDs c"

definition mongo_CountsByRoomIDs ::
    "stats_env \<Rightarrow> bool \<Rightarrow> int list \<Rightarrow> time \<Rightarrow> time \<Rightarrow> collection \<Rightarrow> save_error + (int, nat) gomap" where
  "mongo_CountsByRoomIDs E fault roomIDs start stop c = groupCountByKeys E fault (baseFilter start stop) doc_RoomID roomIDs c"

definition mongo_CountsByRoomTotalIDs :: "stats_env \<Rightarrow> bool \<Rightarrow> int list \<Rightarrow> collection \<Rightarrow> save_error + (int, nat) gomap" where
  "mongo_CountsByRoomTotalIDs E fault roomIDs c = groupCountByKeys E fault notDeletedFilter doc_RoomID roomIDs c"

definition timeCounts :: "stats_env \<Rightarrow> bool \<Rightarrow> time \<Rightarrow> time \<Rightarrow> string \<Rightarrow> collection \<Rightarrow> save_error + TimeCount list" where
  "timeCounts E fault start stop format c =
     answer fault (time_rows (se_engText E)
       (map (\<lambda>d. se_dateToString E format (doc_CreatedAt d)) (filter (baseFilter start stop) c)))"

definition mongo_HourlyCounts :: "stats_env \<Rightarrow> bool \<Rightarrow> time \<Rightarrow> time \<Rightarrow> collection \<Rightarrow> save_error + TimeCount list" where
  "mongo_HourlyCounts E fault start stop c = timeCounts E fault start stop ''%Y-%m-%d %H'' c"

definition mongo_DailyCounts :: "stats_env \<Rightarrow> bool \<Rightarrow> time \<Rightarrow> time \<Rightarrow> collection \<Rightarrow> save_error + TimeCount list" where
  "mongo_DailyCounts E fault start stop c = timeCounts E fault start stop ''%Y-%m-%d'' c"

definition topKey ::
    "stats_env \<Rightarrow> bool \<Rightarrow> time \<Rightarrow> time \<Rightarrow> (MessageDocument \<Rightarrow> int) \<Rightarrow> nat \<Rightarrow> collection \<Rightarrow> save_error + KeyCount list" where
  "topKey E fault start stop field limit c =
     answer fault (keyCountFromRows (top_rows (se_eng E) limit (map field (filter (baseFilter start stop) c))))"

definition mongo_TopRooms :: "stats_env \<Rightarrow> bool \<Rightarrow> time \<Rightarrow> time \<Rightarrow> nat \<Rightarrow> collection \<Rightarrow> save_error + KeyCount list" where
  "mongo_TopRooms E fault start stop limit c = topKey E fault start stop doc_RoomID limit c"

definition mongo_TopSenders :: "stats_env \<Rightarrow> bool \<Rightarrow> time \<Rightarrow> time \<Rightarrow> nat \<Rightarrow> collection \<Rightarrow> save_error + KeyCount list" where
  "mongo_TopSenders E fault start stop limit c = topKey E fault start stop doc_SenderID limit c"


section \<open>The stores\<close>

text \<open>Both implementations over the message table and the message collection, of which each uses its own.\<close>

definition newMySQLMessageStats :: "stats_env \<Rightarrow> (table \<times> collection) MessageStatsStore" where
  "newMySQLMessageStats E =
     \<lparr>st_CountMessages = (\<lambda>f a b s. mysql_CountMessages f a b (fst s)),
      st_CountMessagesByType = (\<lambda>f a b s. mysql_CountMessagesByType E f a b (fst s)),
      st_CountPrivateGroupMessages = (\<lambda>f db a b s. mysql_CountPrivateGroupMessages E f db a b (fst s)),
      st_CountAgentMentions = (\<lambda>f a b s. mysql_CountAgentMentions E f a b (fst s)),
      st_ActiveSenders = (\<lambda>f a s. mysql_ActiveSenders f a (fst s)),
      st_HourlyCounts = (\<lambda>f a b s. mysql_HourlyCounts E f a b (fst s)),
      st_DailyCounts = (\<lambda>f a b s. mysql_DailyCounts E f a b (fst s)),
      st_TopRooms = (\<lambda>f a b n s. mysql_TopRooms E f a b n (fst s)),
      st_TopSenders = (\<lambda>f a b n s. mysql_TopSenders E f a b n (fst s)),
      st_CountBySender = (\<lambda>f i s. mysql_CountBySender f i (fst s)),
      st_CountByRoom = (\<lambda>f i a b s. mysql_CountByRoom f i a b (fst s)),
      st_CountByRoomTotal = (\<lambda>f i s. mysql_CountByRoomTotal f i (fst s)),
      st_CountsBySenderIDs = (\<lambda>f is s. mysql_CountsBySenderIDs E f is (fst s)),
      st_CountsByRoomIDs = (\<lambda>f is a b s. mysql_CountsByRoomIDs E f is a b (fst s)),
      st_CountsByRoomTotalIDs = (\<lambda>f is s. mysql_CountsByRoomTotalIDs E f is (fst s))\<rparr>"

definition newMongoMessageStats :: "stats_env \<Rightarrow> (table \<times> collection) MessageStatsStore" where
  "newMongoMessageStats E =
     \<lparr>st_CountMessages = (\<lambda>f a b s. mongo_CountMessages f a b (snd s)),
      st_CountMessagesByType = (\<lambda>f a b s. mongo_CountMessagesByType E f a b (snd s)),
      st_CountPrivateGroupMessages = (\<lambda>f db a b s. mongo_CountPrivateGroupMessages f db a b (snd s)),
      st_CountAgentMentions = (\<lambda>f a b s. mongo_CountAgentMentions E f a b (snd s)),
      st_ActiveSenders = (\<lambda>f a s. mongo_ActiveSenders f a (snd s)),
      st_HourlyCounts = (\<lambda>f a b s. mongo_HourlyCounts E f a b (snd s)),
      st_DailyCounts = (\<lambda>f a b s. mongo_DailyCounts E f a b (snd s)),
      st_TopRooms = (\<lambda>f a b n s. mongo_TopRooms E f a b n (snd s)),
      st_TopSenders = (\<lambda>f a b n s. mongo_TopSenders E f a b n (snd s)),
      st_CountBySender = (\<lambda>f i s. mongo_CountBySender f i (snd s)),
      st_CountByRoom = (\<lambda>f i a b s. mongo_CountByRoom f i a b (snd s)),
      st_CountByRoomTotal = (\<lambda>f i s. mongo_CountByRoomTotal f i (snd s)),
      st_CountsBySenderIDs = (\<lambda>f is s. mongo_CountsBySenderIDs E f is (snd s)),
      st_CountsByRoomIDs = (\<lambda>f is a b s. mongo_CountsByRoomIDs E f is a b (snd s)),
      st_CountsByRoomTotalIDs = (\<lambda>f is s. mongo_CountsByRoomTotalIDs E f is (snd s))\<rparr>"

definition NewMessageStatsStore :: "stats_env \<Rightarrow> bool \<Rightarrow> string \<Rightarrow> (table \<times> collection) MessageStatsStore" where
  "NewMessageStatsStore E hasCollection messageStore =
     (if messageStore = ''mongo'' \<and> hasCollection then newMongoMessageStats E else newMySQLMessageStats E)"

section \<open>Grouping\<close>

lemma map_get_count_map_aux:
  "distinct (map fst rows) \<Longrightarrow>
    map_get (fold (\<lambda>(k, n). map_put k n) rows m) k = (case map_of rows k of None \<Rightarrow> map_get m k | Some n \<Rightarrow> Some n)"
proof (induction rows arbitrary: m)
  case (Cons r rows)
  obtain k' n where r: "r = (k', n)" by (rule prod.exhaust)
  have "map_of rows k' = None" using Cons.prems r by (simp add: map_of_eq_None_iff)
  then show ?case using Cons r by (simp split: option.split)
qed simp

lemma map_of_group_count:
  assumes "group_order eng"
  shows "map_of (group_count eng ks) k = (if k \<in> set ks then Some (count_list ks k) else None)"
proof -
  have "map_of (map (\<lambda>k. (k, count_list ks k)) xs) k = (if k \<in> set xs then Some (count_list ks k) else None)" for xs
    by (induction xs) auto
  then show ?thesis using assms by (simp add: group_count_def group_order_def)
qed

lemma map_get_group:
  assumes "group_order eng"
  shows "map_get (count_map (group_count eng ks)) k = (if k \<in> set ks then Some (count_list ks k) else None)"
proof -
  have "distinct (map fst (group_count eng ks))" using assms by (simp add: group_count_def group_order_def comp_def)
  from map_get_count_map_aux [OF this, of "[]" k] show ?thesis
    by (simp add: count_map_def map_of_group_count [OF assms])
qed

text \<open>Reading a missing key of a Go map gives 0.\<close>

definition get0 :: "('k, nat) gomap \<Rightarrow> 'k \<Rightarrow> nat" where
  "get0 m k = (case map_get m k of None \<Rightarrow> 0 | Some n \<Rightarrow> n)"

lemma get0_Nil [simp]: "get0 [] k = 0"
  by (simp add: get0_def)

lemma get0_group: "group_order eng \<Longrightarrow> get0 (count_map (group_count eng ks)) k = count_list ks k"
  by (simp add: get0_def map_get_group count_list_0_iff)

lemma count_list_map_filter: "count_list (map f (filter P xs)) k = length (filter (\<lambda>x. P x \<and> f x = k) xs)"
  by (induction xs) auto

text \<open>What a ranking of keys by their number of occurrences is, ties in any order.\<close>

definition ranking :: "int list \<Rightarrow> nat \<Rightarrow> KeyCount list \<Rightarrow> bool" where
  "ranking ks limit out \<longleftrightarrow> distinct (map kc_Key out) \<and> sorted_wrt (\<lambda>a b. kc_Count b \<le> kc_Count a) out \<and>
     length out = min limit (card (set ks)) \<and> (\<forall>e \<in> set out. kc_Key e \<in> set ks \<and> kc_Count e = count_list ks (kc_Key e)) \<and>
     (\<forall>k \<in> set ks. k \<in> kc_Key ` set out \<or> (\<forall>e \<in> set out. count_list ks k \<le> kc_Count e))"

lemma ranking_top_rows:
  assumes "group_order eng"
  shows "ranking ks limit (keyCountFromRows (top_rows eng limit ks))"
proof -
  define rows where "rows = sort_key (\<lambda>(k, n). - int n) (group_count eng ks)"
  have set_rows: "set rows = (\<lambda>k. (k, count_list ks k)) ` set ks"
    using assms by (auto simp: rows_def group_count_def group_order_def)
  have "distinct (map fst (group_count eng ks))" using assms by (simp add: group_count_def group_order_def comp_def)
  then have dist: "distinct (map fst rows)" by (simp add: distinct_map rows_def)
  have len: "length rows = card (set ks)"
    using assms distinct_card [of "eng ks"] by (simp add: rows_def group_count_def group_order_def)
  have sorted: "sorted_wrt (\<lambda>a b. snd b \<le> snd a) rows"
  proof -
    have "sorted (map (\<lambda>(k, n). - int n) rows)" by (simp add: rows_def)
    then show ?thesis unfolding sorted_map by (rule sorted_wrt_mono_rel [rotated]) (auto simp: case_prod_unfold)
  qed
  let ?t = "take limit rows"
  have out: "keyCountFromRows (top_rows eng limit ks) = map (\<lambda>(k, n). \<lparr>kc_Key = k, kc_Count = n\<rparr>) ?t"
    by (simp add: keyCountFromRows_def top_rows_def rows_def)
  have kc: "map kc_Key (map (\<lambda>(k, n). \<lparr>kc_Key = k, kc_Count = n\<rparr>) ?t) = take limit (map fst rows)"
    by (simp add: take_map case_prod_unfold comp_def)
  have rest: "count_list ks k \<le> snd e" if k: "k \<in> set ks" "k \<notin> fst ` set ?t" and e: "e \<in> set ?t" for k e
  proof -
    have "(k, count_list ks k) \<in> set rows" using k(1) set_rows by simp
    moreover have "(k, count_list ks k) \<notin> set ?t" using k(2) by force
    ultimately have "(k, count_list ks k) \<in> set (drop limit rows)"
      using append_take_drop_id [of limit rows] by (metis Un_iff set_append)
    moreover have "sorted_wrt (\<lambda>a b. snd b \<le> snd a) (?t @ drop limit rows)" using sorted by simp
    ultimately show ?thesis using e unfolding sorted_wrt_append by fastforce
  qed
  have "sorted_wrt (\<lambda>a b. snd b \<le> snd a) ?t" using sorted by (simp add: sorted_wrt_take)
  moreover have "set ?t \<subseteq> (\<lambda>k. (k, count_list ks k)) ` set ks" using set_rows set_take_subset by metis
  ultimately show ?thesis
    unfolding ranking_def out kc using dist len rest
    by (auto simp: sorted_wrt_map case_prod_unfold distinct_take min_def image_image intro: sorted_wrt_mono_rel)
qed

section \<open>Contract\<close>

text \<open>
  What every statistics store answers, in terms of the messages that are not deleted. A query that fails answers
  nothing; the batch of an empty list of keys is answered without a query.
\<close>

locale message_stats =
  fixes S :: "'s MessageStatsStore" and live :: "'s \<Rightarrow> Message list"
  assumes count_law: "st_CountMessages S f a b s = answer f (length (filter (between a b) (live s)))"
    and type_law: "\<exists>out. st_CountMessagesByType S f a b s = answer f out \<and>
      (\<forall>ty. get0 out ty = length (filter (\<lambda>m. between a b m \<and> msg_Type m = ty) (live s)))"
    and active_law: "st_ActiveSenders S f a s = answer f (card (msg_SenderID ` {m \<in> set (live s). a \<le> msg_CreatedAt m}))"
    and sender_law: "st_CountBySender S f i s = answer f (length (filter (\<lambda>m. msg_SenderID m = i) (live s)))"
    and room_law: "st_CountByRoom S f i a b s = answer f (length (filter (\<lambda>m. between a b m \<and> msg_RoomID m = i) (live s)))"
    and room_total_law: "st_CountByRoomTotal S f i s = answer f (length (filter (\<lambda>m. msg_RoomID m = i) (live s)))"
    and senders_law: "\<exists>out. st_CountsBySenderIDs S f ids s = (if ids = [] then Inr [] else answer f out) \<and>
      (\<forall>i \<in> set ids. get0 out i = length (filter (\<lambda>m. msg_SenderID m = i) (live s)))"
    and rooms_law: "\<exists>out. st_CountsByRoomIDs S f ids a b s = (if ids = [] then Inr [] else answer f out) \<and>
      (\<forall>i \<in> set ids. get0 out i = length (filter (\<lambda>m. between a b m \<and> msg_RoomID m = i) (live s)))"
    and rooms_total_law: "\<exists>out. st_CountsByRoomTotalIDs S f ids s = (if ids = [] then Inr [] else answer f out) \<and>
      (\<forall>i \<in> set ids. get0 out i = length (filter (\<lambda>m. msg_RoomID m = i) (live s)))"
    and top_rooms_law: "\<exists>out. st_TopRooms S f a b n s = answer f out \<and> ranking (map msg_RoomID (filter (between a b) (live s))) n out"
    and top_senders_law: "\<exists>out. st_TopSenders S f a b n s = answer f out \<and> ranking (map msg_SenderID (filter (between a b) (live s))) n out"
begin

lemma batch_senders:
  assumes "st_CountsBySenderIDs S f ids s = Inr out" "i \<in> set ids"
  shows "st_CountBySender S False i s = Inr (get0 out i)"
proof -
  from senders_law [where f = f and ids = ids and s = s] assms show ?thesis
    by (auto simp: sender_law answer_def split: if_splits)
qed

lemma batch_rooms:
  assumes "st_CountsByRoomIDs S f ids a b s = Inr out" "i \<in> set ids"
  shows "st_CountByRoom S False i a b s = Inr (get0 out i)"
proof -
  from rooms_law [where f = f and ids = ids and a = a and b = b and s = s] assms show ?thesis
    by (auto simp: room_law answer_def split: if_splits)
qed

lemma batch_rooms_total:
  assumes "st_CountsByRoomTotalIDs S f ids s = Inr out" "i \<in> set ids"
  shows "st_CountByRoomTotal S False i s = Inr (get0 out i)"
proof -
  from rooms_total_law [where f = f and ids = ids and s = s] assms show ?thesis
    by (auto simp: room_total_law answer_def split: if_splits)
qed

end


definition sql_live :: "table \<times> collection \<Rightarrow> Message list" where
  "sql_live s = mysql_notDeleted (fst s)"

definition mongo_stats_live :: "table \<times> collection \<Rightarrow> Message list" where
  "mongo_stats_live s = map ToMessage (filter notDeletedFilter (snd s))"

lemma length_remdups_senders: "length (remdups (map f (filter P xs))) = card (f ` {x \<in> set xs. P x})"
  by (simp add: length_remdups_card_conv)

lemma mysql_message_stats:
  assumes "group_order (se_eng E)"
  shows "message_stats (newMySQLMessageStats E) sql_live"
proof
  fix f :: bool and a b :: time and s :: "table \<times> collection" and i :: int and ids :: "int list" and n :: nat
  let ?l = "sql_live s"
  note d = newMySQLMessageStats_def sql_live_def
  note g = get0_group [OF assms] count_list_map_filter
  show "st_CountMessages (newMySQLMessageStats E) f a b s = answer f (length (filter (between a b) ?l))"
    by (simp add: d mysql_CountMessages_def)
  show "\<exists>out. st_CountMessagesByType (newMySQLMessageStats E) f a b s = answer f out \<and>
      (\<forall>ty. get0 out ty = length (filter (\<lambda>m. between a b m \<and> msg_Type m = ty) ?l))"
    by (intro exI conjI allI) (simp add: d mysql_CountMessagesByType_def, simp add: d g)
  show "st_ActiveSenders (newMySQLMessageStats E) f a s = answer f (card (msg_SenderID ` {m \<in> set ?l. a \<le> msg_CreatedAt m}))"
    by (simp add: d mysql_ActiveSenders_def length_remdups_senders)
  show "st_CountBySender (newMySQLMessageStats E) f i s = answer f (length (filter (\<lambda>m. msg_SenderID m = i) ?l))"
    by (simp add: d mysql_CountBySender_def)
  show "st_CountByRoom (newMySQLMessageStats E) f i a b s = answer f (length (filter (\<lambda>m. between a b m \<and> msg_RoomID m = i) ?l))"
    by (simp add: d mysql_CountByRoom_def conj_commute)
  show "st_CountByRoomTotal (newMySQLMessageStats E) f i s = answer f (length (filter (\<lambda>m. msg_RoomID m = i) ?l))"
    by (simp add: d mysql_CountByRoomTotal_def)
  show "\<exists>out. st_CountsBySenderIDs (newMySQLMessageStats E) f ids s = (if ids = [] then Inr [] else answer f out) \<and>
      (\<forall>i \<in> set ids. get0 out i = length (filter (\<lambda>m. msg_SenderID m = i) ?l))"
    by (intro exI conjI ballI) (auto simp: d mysql_CountsBySenderIDs_def g intro!: arg_cong [of _ _ length] filter_cong)
  show "\<exists>out. st_CountsByRoomIDs (newMySQLMessageStats E) f ids a b s = (if ids = [] then Inr [] else answer f out) \<and>
      (\<forall>i \<in> set ids. get0 out i = length (filter (\<lambda>m. between a b m \<and> msg_RoomID m = i) ?l))"
    by (intro exI conjI ballI) (auto simp: d mysql_CountsByRoomIDs_def g intro!: arg_cong [of _ _ length] filter_cong)
  show "\<exists>out. st_CountsByRoomTotalIDs (newMySQLMessageStats E) f ids s = (if ids = [] then Inr [] else answer f out) \<and>
      (\<forall>i \<in> set ids. get0 out i = length (filter (\<lambda>m. msg_RoomID m = i) ?l))"
    by (intro exI conjI ballI) (auto simp: d mysql_CountsByRoomTotalIDs_def g intro!: arg_cong [of _ _ length] filter_cong)
  show "\<exists>out. st_TopRooms (newMySQLMessageStats E) f a b n s = answer f out \<and> ranking (map msg_RoomID (filter (between a b) ?l)) n out"
    by (intro exI conjI) (simp add: d mysql_TopRooms_def, simp add: sql_live_def ranking_top_rows [OF assms])
  show "\<exists>out. st_TopSenders (newMySQLMessageStats E) f a b n s = answer f out \<and> ranking (map msg_SenderID (filter (between a b) ?l)) n out"
    by (intro exI conjI) (simp add: d mysql_TopSenders_def, simp add: sql_live_def ranking_top_rows [OF assms])
qed

text \<open>The Mongo queries read the fields of the documents that the messages are made of.\<close>

lemma ToMessage_fields [simp]:
  "msg_SenderID (ToMessage d) = doc_SenderID d" "msg_RoomID (ToMessage d) = doc_RoomID d"
  "msg_Type (ToMessage d) = doc_Type d" "msg_CreatedAt (ToMessage d) = doc_CreatedAt d"
  by (simp_all add: ToMessage_def)

lemma filter_mongo_live:
  "filter P (mongo_stats_live s) = map ToMessage (filter (\<lambda>d. notDeletedFilter d \<and> P (ToMessage d)) (snd s))"
  by (simp add: mongo_stats_live_def filter_map comp_def conj_commute)

lemma baseFilter_between: "baseFilter a b = (\<lambda>d. notDeletedFilter d \<and> between a b (ToMessage d))"
  by (simp add: fun_eq_iff baseFilter_def between_def)

lemma mongo_message_stats:
  assumes "group_order (se_eng E)"
  shows "message_stats (newMongoMessageStats E) mongo_stats_live"
proof
  fix f :: bool and a b :: time and s :: "table \<times> collection" and i :: int and ids :: "int list" and n :: nat
  let ?l = "mongo_stats_live s"
  note d = newMongoMessageStats_def filter_mongo_live baseFilter_between
  note g = get0_group [OF assms] count_list_map_filter
  show "st_CountMessages (newMongoMessageStats E) f a b s = answer f (length (filter (between a b) ?l))"
    by (simp add: d mongo_CountMessages_def)
  show "\<exists>out. st_CountMessagesByType (newMongoMessageStats E) f a b s = answer f out \<and>
      (\<forall>ty. get0 out ty = length (filter (\<lambda>m. between a b m \<and> msg_Type m = ty) ?l))"
    by (intro exI conjI allI) (simp add: newMongoMessageStats_def mongo_CountMessagesByType_def, simp add: d g conj_assoc)
  show "st_ActiveSenders (newMongoMessageStats E) f a s = answer f (card (msg_SenderID ` {m \<in> set ?l. a \<le> msg_CreatedAt m}))"
  proof -
    have "msg_SenderID ` {m \<in> set ?l. a \<le> msg_CreatedAt m} = doc_SenderID ` {d \<in> set (snd s). notDeletedFilter d \<and> a \<le> doc_CreatedAt d}"
      by (force simp: mongo_stats_live_def)
    then show ?thesis by (simp add: newMongoMessageStats_def mongo_ActiveSenders_def length_remdups_senders)
  qed
  show "st_CountBySender (newMongoMessageStats E) f i s = answer f (length (filter (\<lambda>m. msg_SenderID m = i) ?l))"
    by (simp add: d mongo_CountBySender_def)
  show "st_CountByRoom (newMongoMessageStats E) f i a b s = answer f (length (filter (\<lambda>m. between a b m \<and> msg_RoomID m = i) ?l))"
    by (simp add: d mongo_CountByRoom_def conj_assoc)
  show "st_CountByRoomTotal (newMongoMessageStats E) f i s = answer f (length (filter (\<lambda>m. msg_RoomID m = i) ?l))"
    by (simp add: d mongo_CountByRoomTotal_def)
  show "\<exists>out. st_CountsBySenderIDs (newMongoMessageStats E) f ids s = (if ids = [] then Inr [] else answer f out) \<and>
      (\<forall>i \<in> set ids. get0 out i = length (filter (\<lambda>m. msg_SenderID m = i) ?l))"
    by (intro exI conjI ballI)
      (auto simp: d mongo_CountsBySenderIDs_def groupCountByKeys_def g intro!: arg_cong [of _ _ length] filter_cong)
  show "\<exists>out. st_CountsByRoomIDs (newMongoMessageStats E) f ids a b s = (if ids = [] then Inr [] else answer f out) \<and>
      (\<forall>i \<in> set ids. get0 out i = length (filter (\<lambda>m. between a b m \<and> msg_RoomID m = i) ?l))"
    by (intro exI conjI ballI)
      (auto simp: d mongo_CountsByRoomIDs_def groupCountByKeys_def g intro!: arg_cong [of _ _ length] filter_cong)
  show "\<exists>out. st_CountsByRoomTotalIDs (newMongoMessageStats E) f ids s = (if ids = [] then Inr [] else answer f out) \<and>
      (\<forall>i \<in> set ids. get0 out i = length (filter (\<lambda>m. msg_RoomID m = i) ?l))"
    by (intro exI conjI ballI)
      (auto simp: d mongo_CountsByRoomTotalIDs_def groupCountByKeys_def g intro!: arg_cong [of _ _ length] filter_cong)
  have keys: "map msg_RoomID (filter (between a b) ?l) = map doc_RoomID (filter (baseFilter a b) (snd s))"
    "map msg_SenderID (filter (between a b) ?l) = map doc_SenderID (filter (baseFilter a b) (snd s))"
    by (simp_all add: d comp_def)
  show "\<exists>out. st_TopRooms (newMongoMessageStats E) f a b n s = answer f out \<and> ranking (map msg_RoomID (filter (between a b) ?l)) n out"
    unfolding keys by (intro exI conjI) (simp add: newMongoMessageStats_def mongo_TopRooms_def topKey_def, rule ranking_top_rows [OF assms])
  show "\<exists>out. st_TopSenders (newMongoMessageStats E) f a b n s = answer f out \<and> ranking (map msg_SenderID (filter (between a b) ?l)) n out"
    unfolding keys by (intro exI conjI) (simp add: newMongoMessageStats_def mongo_TopSenders_def topKey_def, rule ranking_top_rows [OF assms])
qed

text \<open>Both stores, with the groups in the order of the first row of each.\<close>

lemma remdups_group_order: "group_order remdups"
  by (simp add: group_order_def)

interpretation sqls: message_stats "newMySQLMessageStats (E\<lparr>se_eng := remdups\<rparr>)" sql_live for E
  by (rule mysql_message_stats) (simp add: remdups_group_order)

interpretation mgs: message_stats "newMongoMessageStats (E\<lparr>se_eng := remdups\<rparr>)" mongo_stats_live for E
  by (rule mongo_message_stats) (simp add: remdups_group_order)

section \<open>Properties\<close>

text \<open>The messages that the chosen store counts.\<close>

definition counted :: "bool \<Rightarrow> string \<Rightarrow> table \<times> collection \<Rightarrow> Message list" where
  "counted hasCollection messageStore =
     (if messageStore = ''mongo'' \<and> hasCollection then mongo_stats_live else sql_live)"

lemma NewMessageStatsStore_stats:
  "group_order (se_eng E) \<Longrightarrow> message_stats (NewMessageStatsStore E hasCollection messageStore) (counted hasCollection messageStore)"
  using mysql_message_stats [of E] mongo_message_stats [of E] by (simp add: NewMessageStatsStore_def counted_def)


text \<open>
  The batched statistics of the lists agree with the single queries of the details, for the MySQL and for the Mongo
  store alike: what \<^verbatim>\<open>CountsBySenderIDs\<close>, \<^verbatim>\<open>CountsByRoomIDs\<close> and \<^verbatim>\<open>CountsByRoomTotalIDs\<close> hold for a requested key is what
  \<^verbatim>\<open>CountBySender\<close>, \<^verbatim>\<open>CountByRoom\<close> and \<^verbatim>\<open>CountByRoomTotal\<close> answer for it, and both are the number of messages that are not
  deleted. The busiest rooms are ranked: exact counts, in descending order, no room left out that has more messages than
  one of the list.
\<close>

lemma batched_stats_agree:
  assumes "group_order (se_eng E)" "S = NewMessageStatsStore E hasCollection messageStore"
    and "st_CountsBySenderIDs S False users s = Inr bySender" "st_CountsByRoomIDs S False rooms a b s = Inr byRoom"
    and "st_CountsByRoomTotalIDs S False rooms s = Inr byRoomTotal" "st_TopRooms S False a b n s = Inr ranked"
    and "u \<in> set users" "r \<in> set rooms"
  shows "st_CountBySender S False u s = Inr (get0 bySender u) \<and>
    st_CountByRoom S False r a b s = Inr (get0 byRoom r) \<and>
    st_CountByRoomTotal S False r s = Inr (get0 byRoomTotal r) \<and>
    get0 bySender u = length (filter (\<lambda>m. msg_SenderID m = u) (counted hasCollection messageStore s)) \<and>
    get0 byRoomTotal r = length (filter (\<lambda>m. msg_RoomID m = r) (counted hasCollection messageStore s)) \<and>
    ranking (map msg_RoomID (filter (between a b) (counted hasCollection messageStore s))) n ranked"
proof -
  note st = NewMessageStatsStore_stats [OF assms(1), of hasCollection messageStore, folded assms(2)]
  note 1 = message_stats.batch_senders [OF st assms(3,7)]
  note 2 = message_stats.batch_rooms [OF st assms(4,8)]
  note 3 = message_stats.batch_rooms_total [OF st assms(5,8)]
  have 4: "get0 bySender u = length (filter (\<lambda>m. msg_SenderID m = u) (counted hasCollection messageStore s))"
    using 1 message_stats.sender_law [OF st, of False u s] by (simp add: answer_def)
  have 5: "get0 byRoomTotal r = length (filter (\<lambda>m. msg_RoomID m = r) (counted hasCollection messageStore s))"
    using 3 message_stats.room_total_law [OF st, of False r s] by (simp add: answer_def)
  have 6: "ranking (map msg_RoomID (filter (between a b) (counted hasCollection messageStore s))) n ranked"
    using message_stats.top_rooms_law [OF st, of False a b n s] assms(6) by (simp add: answer_def)
  from 1 2 3 4 5 6 show ?thesis by simp
qed

text \<open>The two stores count the same messages when the collection holds the documents of the rows.\<close>

lemma same_messages:
  assumes "marks_fit t"
  shows "mongo_stats_live (t, map ToMessageDocument t) = sql_live (t, map ToMessageDocument t)"
proof -
  have f: "filter (\<lambda>m. notDeletedFilter (ToMessageDocument m)) t = filter (\<lambda>m. msg_DeletedAt m = 0) t"
    using not_deleted_document [OF assms] by (intro filter_cong) auto
  have "ToMessage (ToMessageDocument m) = m" if "m \<in> set t" for m
    using assms that by (intro document_roundtrip) (auto simp: marks_fit_def)
  then have "map (\<lambda>m. ToMessage (ToMessageDocument m)) (filter (\<lambda>m. msg_DeletedAt m = 0) t) = filter (\<lambda>m. msg_DeletedAt m = 0) t"
    by (intro map_idI) simp
  then show ?thesis by (simp add: mongo_stats_live_def sql_live_def mysql_notDeleted_def filter_map comp_def f)
qed

text \<open>
  C35: The two statistics stores agree on a table and the collection of its documents, for the counts per range, sender
  and room and the active senders, but not for the mentions of the agent: there the Mongo query, whose second \<^verbatim>\<open>$or\<close>
  replaces the one that excludes deleted messages, counts the deleted mentions on top, also when both text tests accept
  the same contents.
\<close>

theorem stats_stores_agree_but_mentions:
  assumes "marks_fit t" "group_order (se_eng E)"
    and "\<forall>m \<in> set t. (se_regex E ''@agent'' (msg_Content m) \<or> se_regex E ai_mention (msg_Content m)) = mention (msg_Content m)"
    and "\<forall>m \<in> set t. (se_like E ''%@agent%'' (msg_Content m) \<or> se_like E (''%'' @ ai_mention @ ''%'') (msg_Content m) \<or>
        se_like E (''%'' @ ai_mention @ ''_%'') (msg_Content m)) = mention (msg_Content m)"
  shows "mongo_CountMessages f a b (map ToMessageDocument t) = mysql_CountMessages f a b t \<and>
    mongo_ActiveSenders f a (map ToMessageDocument t) = mysql_ActiveSenders f a t \<and>
    mongo_CountBySender f u (map ToMessageDocument t) = mysql_CountBySender f u t \<and>
    mongo_CountByRoom f r a b (map ToMessageDocument t) = mysql_CountByRoom f r a b t \<and>
    mongo_CountByRoomTotal f r (map ToMessageDocument t) = mysql_CountByRoomTotal f r t \<and>
    (\<exists>n. mysql_CountAgentMentions E False a b t = Inr n \<and>
       mongo_CountAgentMentions E False a b (map ToMessageDocument t) =
         Inr (n + length (filter (\<lambda>m. msg_DeletedAt m \<noteq> 0 \<and> between a b m \<and> mention (msg_Content m)) t)))"
proof -
  let ?s = "(t, map ToMessageDocument t)"
  note my = mysql_message_stats [OF assms(2)] and mo = mongo_message_stats [OF assms(2)]
  note same = same_messages [OF assms(1)]
  have 1: "mongo_CountMessages f a b (snd ?s) = mysql_CountMessages f a b (fst ?s)"
    using message_stats.count_law [OF my, of f a b ?s] message_stats.count_law [OF mo, of f a b ?s]
    by (simp add: same newMySQLMessageStats_def newMongoMessageStats_def)
  have 2: "mongo_ActiveSenders f a (snd ?s) = mysql_ActiveSenders f a (fst ?s)"
    using message_stats.active_law [OF my, of f a ?s] message_stats.active_law [OF mo, of f a ?s]
    by (simp add: same newMySQLMessageStats_def newMongoMessageStats_def)
  have 3: "mongo_CountBySender f u (snd ?s) = mysql_CountBySender f u (fst ?s)"
    using message_stats.sender_law [OF my, of f u ?s] message_stats.sender_law [OF mo, of f u ?s]
    by (simp add: same newMySQLMessageStats_def newMongoMessageStats_def)
  have 4: "mongo_CountByRoom f r a b (snd ?s) = mysql_CountByRoom f r a b (fst ?s)"
    using message_stats.room_law [OF my, of f r a b ?s] message_stats.room_law [OF mo, of f r a b ?s]
    by (simp add: same newMySQLMessageStats_def newMongoMessageStats_def)
  have 5: "mongo_CountByRoomTotal f r (snd ?s) = mysql_CountByRoomTotal f r (fst ?s)"
    using message_stats.room_total_law [OF my, of f r ?s] message_stats.room_total_law [OF mo, of f r ?s]
    by (simp add: same newMySQLMessageStats_def newMongoMessageStats_def)
  let ?q = "\<lambda>m. between a b m \<and> mention (msg_Content m)"
  have "filter (\<lambda>m. between a b m \<and> (se_like E ''%@agent%'' (msg_Content m) \<or>
        se_like E (''%'' @ ai_mention @ ''%'') (msg_Content m) \<or> se_like E (''%'' @ ai_mention @ ''_%'') (msg_Content m)))
      (mysql_notDeleted t) = filter (\<lambda>m. msg_DeletedAt m = 0 \<and> ?q m) t"
    unfolding mysql_notDeleted_def filter_filter using assms(4) by (intro filter_cong [OF refl]) blast
  then have my_n: "mysql_CountAgentMentions E False a b t = Inr (length (filter (\<lambda>m. msg_DeletedAt m = 0 \<and> ?q m) t))"
    unfolding mysql_CountAgentMentions_def by (simp only: answer_def if_False)
  have c: "doc_CreatedAt (ToMessageDocument m) = msg_CreatedAt m" "doc_Content (ToMessageDocument m) = msg_Content m" for m
    by (simp_all add: ToMessageDocument_def)
  have "filter (\<lambda>m. a \<le> msg_CreatedAt m \<and> msg_CreatedAt m < b \<and>
      (se_regex E ''@agent'' (msg_Content m) \<or> se_regex E ai_mention (msg_Content m))) t = filter ?q t"
    unfolding between_def using assms(3) by (intro filter_cong [OF refl]) blast
  then have mo_n: "mongo_CountAgentMentions E False a b (map ToMessageDocument t) = Inr (length (filter ?q t))"
    unfolding mongo_CountAgentMentions_def filter_map comp_def c by (simp only: answer_def if_False length_map)
  have "length (filter ?q t) = length (filter (\<lambda>m. msg_DeletedAt m = 0 \<and> ?q m) t) +
      length (filter (\<lambda>m. msg_DeletedAt m \<noteq> 0 \<and> between a b m \<and> mention (msg_Content m)) t)"
    by (induction t) auto
  with my_n mo_n have "\<exists>n. mysql_CountAgentMentions E False a b t = Inr n \<and>
       mongo_CountAgentMentions E False a b (map ToMessageDocument t) =
         Inr (n + length (filter (\<lambda>m. msg_DeletedAt m \<noteq> 0 \<and> between a b m \<and> mention (msg_Content m)) t))" by simp
  with 1 2 3 4 5 show ?thesis by simp
qed


section \<open>Examples\<close>

definition mention_row :: "int \<Rightarrow> int \<Rightarrow> Message" where
  "mention_row i del = \<lparr>msg_ID = i, msg_RoomSeq = i, msg_RoomID = 9, msg_SenderID = 7, msg_ClientMsgID = ''c'', msg_Type = 1,
     msg_Content = ''@agent'', msg_CreatedAt = 5, msg_DeletedAt = del\<rparr>"

definition sample_mentions :: table where
  "sample_mentions = [mention_row 1 0, mention_row 2 3, mention_row 3 0]"

definition sample_stats_env :: stats_env where
  "sample_stats_env = \<lparr>se_eng = remdups, se_engText = remdups, se_like = (\<lambda>p c. c = ''@agent''), se_regex = (\<lambda>p c. c = ''@agent''),
     se_dateFormat = (\<lambda>_ _. []), se_dateToString = (\<lambda>_ _. [])\<rparr>"

lemma sample_stats_order: "group_order (se_eng sample_stats_env)"
  by (simp add: sample_stats_env_def remdups_group_order)

lemma batched_stats_agree_example:
  "st_CountBySender (NewMessageStatsStore sample_stats_env False ''mysql'') False 7 (sample_mentions, []) = Inr 2"
proof -
  let ?S = "NewMessageStatsStore sample_stats_env False ''mysql''" and ?s = "(sample_mentions, [])"
  have 1: "st_CountsBySenderIDs ?S False [7] ?s = Inr [(7, 2)]" by code_simp
  have 2: "st_CountsByRoomIDs ?S False [9] 0 6 ?s = Inr [(9, 2)]" by code_simp
  have 3: "st_CountsByRoomTotalIDs ?S False [9] ?s = Inr [(9, 2)]" by code_simp
  have 4: "st_TopRooms ?S False 0 6 1 ?s = Inr [\<lparr>kc_Key = 9, kc_Count = 2\<rparr>]" by code_simp
  have "get0 [(7 :: int, 2)] 7 = 2" by code_simp
  with batched_stats_agree [OF sample_stats_order refl 1 2 3 4, of 7 9] show ?thesis by simp
qed

theorem stats_stores_agree_but_mentions_witness:
  "mysql_CountAgentMentions sample_stats_env False 0 6 sample_mentions = Inr 2 \<and>
   mongo_CountAgentMentions sample_stats_env False 0 6 (map ToMessageDocument sample_mentions) = Inr 3"
proof -
  have fit: "marks_fit sample_mentions" by (simp add: marks_fit_def sample_mentions_def mention_row_def)
  have rx: "\<forall>m \<in> set sample_mentions. (se_regex sample_stats_env ''@agent'' (msg_Content m) \<or>
      se_regex sample_stats_env ai_mention (msg_Content m)) = (msg_Content m = ''@agent'')"
    by (simp add: sample_stats_env_def)
  have lk: "\<forall>m \<in> set sample_mentions. (se_like sample_stats_env ''%@agent%'' (msg_Content m) \<or>
      se_like sample_stats_env (''%'' @ ai_mention @ ''%'') (msg_Content m) \<or>
      se_like sample_stats_env (''%'' @ ai_mention @ ''_%'') (msg_Content m)) = (msg_Content m = ''@agent'')"
    by (simp add: sample_stats_env_def)
  have my: "mysql_CountAgentMentions sample_stats_env False 0 6 sample_mentions = Inr 2" by code_simp
  have del: "length (filter (\<lambda>m. msg_DeletedAt m \<noteq> 0 \<and> between 0 6 m \<and> msg_Content m = ''@agent'') sample_mentions) = 1"
    by code_simp
  from stats_stores_agree_but_mentions [OF fit sample_stats_order rx lk, of False 0 6 7 9] my del show ?thesis by simp
qed

end
