(* ===== verification/AdminQueries.thy ===== *)
theory AdminQueries
  imports Moderation MessageStats AgentModel
begin

text \<open>
  The lists and details of users and rooms in the administration: \<^verbatim>\<open>ListUsers\<close>, \<^verbatim>\<open>GetUserDetail\<close> of
  \<^verbatim>\<open>services/admin/application/user_service.go\<close>, \<^verbatim>\<open>ListRooms\<close>, \<^verbatim>\<open>GetRoomDetail\<close> of \<^verbatim>\<open>room_service.go\<close> and their handlers. A list
  fetches the counts of its rows in batches, a detail one by one; \<open>fault n\<close> says that the n-th call fails. The message
  counts come from a \<open>MessageStatsStore\<close> and are judged by the contract \<open>message_stats\<close>.
\<close>

section \<open>State and helpers\<close>

record 's query_state =
  qs_db :: DB
  qs_presence :: presence
  qs_events :: "ModerationEvent list"
  qs_configs :: "RoomAgentConfig list"
  qs_messages :: 's

text \<open>\<^verbatim>\<open>value, _ := f()\<close>: a failing call leaves the zero value.\<close>

definition or_zero :: "'e + nat \<Rightarrow> nat" where
  "or_zero r = (case r of Inl _ \<Rightarrow> 0 | Inr n \<Rightarrow> n)"

definition or_empty :: "'e + 'a list \<Rightarrow> 'a list" where
  "or_empty r = (case r of Inl _ \<Rightarrow> [] | Inr m \<Rightarrow> m)"

definition getB :: "('k, bool) gomap \<Rightarrow> 'k \<Rightarrow> bool" where
  "getB m k = (map_get m k = Some True)"

text \<open>The identifiers in the order of their first occurrence.\<close>

definition unique_ids :: "int list \<Rightarrow> int list" where
  "unique_ids ids = fold (\<lambda>i out. if i \<in> set out then out else out @ [i]) ids []"

text \<open>The grouped count of the rows whose key is one of the given.\<close>

definition group_query ::
    "(int list \<Rightarrow> int list) \<Rightarrow> bool \<Rightarrow> int list \<Rightarrow> ('a \<Rightarrow> int) \<Rightarrow> 'a list \<Rightarrow> db_error + (int, nat) gomap" where
  "group_query eng fault ids key rows =
     (if ids = [] then Inr []
      else if fault then Inl DBFailure
      else Inr (count_map (group_count eng (map key (filter (\<lambda>r. key r \<in> set ids) rows)))))"

definition count_query :: "bool \<Rightarrow> ('a \<Rightarrow> bool) \<Rightarrow> 'a list \<Rightarrow> db_error + nat" where
  "count_query fault P rows = (if fault then Inl DBFailure else Inr (length (filter P rows)))"

section \<open>Users\<close>

record UserListQuery =
  uq_Page :: int
  uq_PageSize :: int
  uq_Keyword :: string
  uq_Role :: int
  uq_Status :: int
  uq_Online :: "bool option"
  uq_Start :: time
  uq_End :: time

record UserListItem =
  ul_ID :: int
  ul_Username :: string
  ul_Role :: int
  ul_RoleName :: string
  ul_CreatedAt :: time
  ul_LastLoginAt :: "time option"
  ul_LastActiveAt :: "time option"
  ul_Online :: bool
  ul_Status :: int
  ul_RoomCount :: nat
  ul_MessageCount :: nat
  ul_ViolationCount :: nat

record UserRoomItem =
  ur_RoomID :: int
  ur_RoomName :: string
  ur_Role :: int

record UserDetail =
  ud_ID :: int
  ud_Username :: string
  ud_Role :: int
  ud_RoleName :: string
  ud_Status :: int
  ud_CreatedAt :: time
  ud_LastLoginAt :: "time option"
  ud_LastActiveAt :: "time option"
  ud_Online :: bool
  ud_RoomCount :: nat
  ud_MessageCount :: nat
  ud_ViolationCount :: nat
  ud_Rooms :: "UserRoomItem list"
  ud_RecentMessages :: "string list"
  ud_Violations :: "ModerationEventItem list"

definition user_match :: "(string \<Rightarrow> string \<Rightarrow> bool) \<Rightarrow> UserListQuery \<Rightarrow> User \<Rightarrow> bool" where
  "user_match like q u \<longleftrightarrow>
     (uq_Keyword q \<noteq> [] \<longrightarrow>
        (case ParseInt (uq_Keyword q) of
           (userID, None) \<Rightarrow> us_ID u = userID
         | (_, Some _) \<Rightarrow> like (uq_Keyword q @ ''%'') (us_Username u))) \<and>
     (uq_Role q \<ge> 0 \<longrightarrow> us_Role u = uq_Role q) \<and>
     (uq_Status q \<ge> 0 \<longrightarrow> us_Status u = uq_Status q) \<and>
     (\<not> IsZero (uq_Start q) \<longrightarrow> uq_Start q \<le> us_CreatedAt u) \<and>
     (\<not> IsZero (uq_End q) \<longrightarrow> us_CreatedAt u < uq_End q)"

definition countUserRoomsByIDs :: "(int list \<Rightarrow> int list) \<Rightarrow> bool \<Rightarrow> int list \<Rightarrow> DB \<Rightarrow> db_error + (int, nat) gomap" where
  "countUserRoomsByIDs eng fault userIDs db = group_query eng fault userIDs mb_UserID (live_members db)"

definition countUserViolationsByIDs ::
    "(int list \<Rightarrow> int list) \<Rightarrow> bool \<Rightarrow> int list \<Rightarrow> ModerationEvent list \<Rightarrow> db_error + (int, nat) gomap" where
  "countUserViolationsByIDs eng fault userIDs es = group_query eng fault userIDs me_UserID es"

definition countUserRooms :: "bool \<Rightarrow> int \<Rightarrow> DB \<Rightarrow> db_error + nat" where
  "countUserRooms fault userID db = count_query fault (\<lambda>m. mb_UserID m = userID) (live_members db)"

definition countUserViolations :: "bool \<Rightarrow> int \<Rightarrow> ModerationEvent list \<Rightarrow> db_error + nat" where
  "countUserViolations fault userID es = count_query fault (\<lambda>e. me_UserID e = userID) es"

definition userRooms :: "bool \<Rightarrow> int \<Rightarrow> DB \<Rightarrow> db_error + UserRoomItem list" where
  "userRooms fault userID db =
     (if fault then Inl DBFailure
      else Inr (concat (map (\<lambda>m. map (\<lambda>r. \<lparr>ur_RoomID = mb_RoomID m, ur_RoomName = ro_Name r, ur_Role = mb_Role m\<rparr>)
                                  (filter (\<lambda>r. ro_ID r = mb_RoomID m) (live_rooms db)))
                      (filter (\<lambda>m. mb_UserID m = userID) (live_members db)))))"

definition ListUsers ::
    "(string \<Rightarrow> string \<Rightarrow> bool) \<Rightarrow> (int list \<Rightarrow> int list) \<Rightarrow> 's MessageStatsStore \<Rightarrow> (nat \<Rightarrow> bool) \<Rightarrow> time \<Rightarrow> UserListQuery \<Rightarrow>
     's query_state \<Rightarrow> db_error + UserListItem list \<times> nat" where
  "ListUsers like eng S fault now q s =
     (if fault 0 \<or> fault 1 then Inl DBFailure
      else
        (let rows = filter (user_match like q) (live_users (qs_db s));
             users = page_of (uq_Page q) (uq_PageSize q) (rev (sort_key us_ID rows));
             userIDs = map us_ID users;
             onlineMap = fst (CheckUsersOnline (fault 2) now userIDs (qs_presence s));
             roomCountMap = or_empty (countUserRoomsByIDs eng (fault 3) userIDs (qs_db s));
             messageCountMap = or_empty (st_CountsBySenderIDs S (fault 4) userIDs (qs_messages s));
             violationCountMap = or_empty (countUserViolationsByIDs eng (fault 5) userIDs (qs_events s))
         in Inr (map (\<lambda>u. \<lparr>ul_ID = us_ID u, ul_Username = us_Username u, ul_Role = us_Role u, ul_RoleName = RoleName (us_Role u),
                          ul_CreatedAt = us_CreatedAt u, ul_LastLoginAt = us_LastLoginAt u, ul_LastActiveAt = us_LastActiveAt u,
                          ul_Online = getB onlineMap (us_ID u), ul_Status = us_Status u, ul_RoomCount = get0 roomCountMap (us_ID u),
                          ul_MessageCount = get0 messageCountMap (us_ID u),
                          ul_ViolationCount = get0 violationCountMap (us_ID u)\<rparr>) users, length rows)))"

definition GetUserDetail ::
    "scan_order \<Rightarrow> 's MessageStatsStore \<Rightarrow> (nat \<Rightarrow> bool) \<Rightarrow> time \<Rightarrow> int \<Rightarrow> 's query_state \<Rightarrow> db_error + UserDetail" where
  "GetUserDetail scan S fault now userID s =
     (case GetByID (fault 0) userID (qs_db s) of
        Inl e \<Rightarrow> Inl e
      | Inr u \<Rightarrow>
          Inr \<lparr>ud_ID = us_ID u, ud_Username = us_Username u, ud_Role = us_Role u, ud_RoleName = RoleName (us_Role u),
               ud_Status = us_Status u, ud_CreatedAt = us_CreatedAt u, ud_LastLoginAt = us_LastLoginAt u,
               ud_LastActiveAt = us_LastActiveAt u, ud_Online = fst (CheckUserOnline (fault 1) now (us_ID u) (qs_presence s)),
               ud_RoomCount = or_zero (countUserRooms (fault 2) (us_ID u) (qs_db s)),
               ud_MessageCount = or_zero (st_CountBySender S (fault 3) (us_ID u) (qs_messages s)),
               ud_ViolationCount = or_zero (countUserViolations (fault 4) (us_ID u) (qs_events s)),
               ud_Rooms = or_empty (userRooms (fault 5) (us_ID u) (qs_db s)), ud_RecentMessages = [],
               ud_Violations = (if fault 6 then [] else moderationItems (take 20 (newest_first scan
                  (filter (\<lambda>e. me_UserID e = us_ID u) (qs_events s)))))\<rparr>)"

section \<open>Rooms\<close>

record RoomListQuery =
  rq_Page :: int
  rq_PageSize :: int
  rq_Keyword :: string
  rq_RoomType :: int
  rq_AgentEnabled :: "bool option"
  rq_Status :: int
  rq_Start :: time
  rq_End :: time

record RoomListItem =
  rl_ID :: int
  rl_Name :: string
  rl_Type :: int
  rl_OwnerID :: int
  rl_MemberCount :: nat
  rl_OnlineMemberCount :: nat
  rl_TodayMessageCount :: nat
  rl_TotalMessageCount :: nat
  rl_CreatedAt :: time
  rl_LastActiveAt :: time
  rl_AgentEnabled :: bool
  rl_ModerationEnabled :: bool
  rl_Status :: int
  rl_ViolationCount :: nat

record RoomMemberItem =
  ri_UserID :: int
  ri_Username :: string
  ri_Role :: int
  ri_Online :: bool

record RoomDetail =
  rd_ID :: int
  rd_Name :: string
  rd_Type :: int
  rd_OwnerID :: int
  rd_AgentEnabled :: bool
  rd_ModerationEnabled :: bool
  rd_Status :: int
  rd_CreatedAt :: time
  rd_LastActiveAt :: time
  rd_MemberCount :: nat
  rd_OnlineMemberCount :: nat
  rd_TodayMessageCount :: nat
  rd_TotalMessageCount :: nat
  rd_ViolationCount :: nat
  rd_Members :: "RoomMemberItem list"
  rd_RecentMessages :: "string list"
  rd_AgentConfig :: RoomAgentConfig
  rd_Violations :: "ModerationEventItem list"

definition room_match :: "(string \<Rightarrow> string \<Rightarrow> bool) \<Rightarrow> RoomListQuery \<Rightarrow> Room \<Rightarrow> bool" where
  "room_match like q r \<longleftrightarrow>
     (rq_Keyword q \<noteq> [] \<longrightarrow>
        (case ParseInt (rq_Keyword q) of
           (roomID, None) \<Rightarrow> ro_ID r = roomID
         | (_, Some _) \<Rightarrow> like (rq_Keyword q @ ''%'') (ro_Name r))) \<and>
     (rq_RoomType q > 0 \<longrightarrow> ro_Type r = rq_RoomType q) \<and>
     (case rq_AgentEnabled q of None \<Rightarrow> True | Some b \<Rightarrow> ro_AgentEnabled r = b) \<and>
     (rq_Status q \<ge> 0 \<longrightarrow> ro_Status r = rq_Status q) \<and>
     (\<not> IsZero (rq_Start q) \<longrightarrow> rq_Start q \<le> ro_CreatedAt r) \<and>
     (\<not> IsZero (rq_End q) \<longrightarrow> ro_CreatedAt r < rq_End q)"

definition countMembersByIDs :: "(int list \<Rightarrow> int list) \<Rightarrow> bool \<Rightarrow> int list \<Rightarrow> DB \<Rightarrow> db_error + (int, nat) gomap" where
  "countMembersByIDs eng fault roomIDs db = group_query eng fault roomIDs mb_RoomID (live_members db)"

definition onlineMemberCounts ::
    "bool \<Rightarrow> bool \<Rightarrow> time \<Rightarrow> int list \<Rightarrow> DB \<Rightarrow> presence \<Rightarrow> db_error + (int, nat) gomap" where
  "onlineMemberCounts fault redisFault now roomIDs db pres =
     (if roomIDs = [] then Inr []
      else if fault then Inl DBFailure
      else
        (let members = filter (\<lambda>m. mb_RoomID m \<in> set roomIDs) (live_members db);
             userIDs = unique_ids (map mb_UserID members);
             onlineMap = fst (CheckUsersOnline redisFault now userIDs pres)
         in Inr (fold (\<lambda>m out. if getB onlineMap (mb_UserID m) then map_put (mb_RoomID m) (get0 out (mb_RoomID m) + 1) out else out)
                   members [])))"

definition countRoomViolationsByIDs ::
    "(int list \<Rightarrow> int list) \<Rightarrow> bool \<Rightarrow> int list \<Rightarrow> time \<Rightarrow> ModerationEvent list \<Rightarrow> db_error + (int, nat) gomap" where
  "countRoomViolationsByIDs eng fault roomIDs since es =
     group_query eng fault roomIDs me_RoomID (filter (\<lambda>e. since \<le> me_CreatedAt e) es)"

definition countMembers :: "bool \<Rightarrow> int \<Rightarrow> DB \<Rightarrow> db_error + nat" where
  "countMembers fault roomID db = count_query fault (\<lambda>m. mb_RoomID m = roomID) (live_members db)"

text \<open>The members of a room with their names and presence: two queries and a Redis pipeline.\<close>

definition roomMembers ::
    "bool \<Rightarrow> bool \<Rightarrow> bool \<Rightarrow> time \<Rightarrow> int \<Rightarrow> DB \<Rightarrow> presence \<Rightarrow> db_error + RoomMemberItem list" where
  "roomMembers fault fault' redisFault now roomID db pres =
     (if fault then Inl DBFailure
      else
        (let members = filter (\<lambda>m. mb_RoomID m = roomID) (live_members db);
             userIDs = unique_ids (map mb_UserID members)
         in if fault' then Inl DBFailure
            else
              (let users = filter (\<lambda>u. us_ID u \<in> set userIDs) (live_users db);
                   usernameMap = fold (\<lambda>u. map_put (us_ID u) (us_Username u)) users [];
                   onlineMap = fst (CheckUsersOnline redisFault now userIDs pres)
               in Inr (map (\<lambda>m. \<lparr>ri_UserID = mb_UserID m,
                                ri_Username = (case map_get usernameMap (mb_UserID m) of None \<Rightarrow> [] | Some n \<Rightarrow> n),
                                ri_Role = mb_Role m, ri_Online = getB onlineMap (mb_UserID m)\<rparr>) members))))"

definition countOnlineMembers ::
    "bool \<Rightarrow> bool \<Rightarrow> bool \<Rightarrow> time \<Rightarrow> int \<Rightarrow> DB \<Rightarrow> presence \<Rightarrow> db_error + nat" where
  "countOnlineMembers fault fault' redisFault now roomID db pres =
     map_sum id (\<lambda>members. length (filter ri_Online members)) (roomMembers fault fault' redisFault now roomID db pres)"

definition countRoomViolations :: "bool \<Rightarrow> int \<Rightarrow> time \<Rightarrow> ModerationEvent list \<Rightarrow> db_error + nat" where
  "countRoomViolations fault roomID since es = count_query fault (\<lambda>e. me_RoomID e = roomID \<and> since \<le> me_CreatedAt e) es"

text \<open>\<open>now\<close> is the reading of the clock that ends the counted part of the day, \<open>day\<close> the one that starts it.\<close>

definition ListRooms ::
    "(string \<Rightarrow> string \<Rightarrow> bool) \<Rightarrow> (int list \<Rightarrow> int list) \<Rightarrow> 's MessageStatsStore \<Rightarrow> time \<Rightarrow> (nat \<Rightarrow> bool) \<Rightarrow> time \<Rightarrow> time \<Rightarrow> RoomListQuery \<Rightarrow>
     's query_state \<Rightarrow> db_error + RoomListItem list \<times> nat" where
  "ListRooms like eng S off fault day now q s =
     (if fault 0 \<or> fault 1 then Inl DBFailure
      else
        (let rows = filter (room_match like q) (live_rooms (qs_db s));
             rooms = page_of (rq_Page q) (rq_PageSize q) (rev (sort_key ro_ID rows));
             roomIDs = map ro_ID rooms;
             start = startOfDay off day;
             memberCountMap = or_empty (countMembersByIDs eng (fault 2) roomIDs (qs_db s));
             onlineCountMap = or_empty (onlineMemberCounts (fault 3) (fault 4) now roomIDs (qs_db s) (qs_presence s));
             todayMessageMap = or_empty (st_CountsByRoomIDs S (fault 5) roomIDs start now (qs_messages s));
             totalMessageMap = or_empty (st_CountsByRoomTotalIDs S (fault 6) roomIDs (qs_messages s));
             violationCountMap = or_empty (countRoomViolationsByIDs eng (fault 7) roomIDs start (qs_events s))
         in Inr (map (\<lambda>r. \<lparr>rl_ID = ro_ID r, rl_Name = ro_Name r, rl_Type = ro_Type r, rl_OwnerID = ro_CreatorID r,
                          rl_MemberCount = get0 memberCountMap (ro_ID r), rl_OnlineMemberCount = get0 onlineCountMap (ro_ID r),
                          rl_TodayMessageCount = get0 todayMessageMap (ro_ID r), rl_TotalMessageCount = get0 totalMessageMap (ro_ID r),
                          rl_CreatedAt = ro_CreatedAt r, rl_LastActiveAt = ro_LastActiveAt r, rl_AgentEnabled = ro_AgentEnabled r,
                          rl_ModerationEnabled = ro_ModerationEnabled r, rl_Status = ro_Status r,
                          rl_ViolationCount = get0 violationCountMap (ro_ID r)\<rparr>) rooms, length rows)))"

definition room_config :: "bool \<Rightarrow> int \<Rightarrow> RoomAgentConfig list \<Rightarrow> RoomAgentConfig" where
  "room_config fault roomID cfgs =
     (if fault then DefaultAgentConfig roomID
      else case sort_key rc_ID (filter (\<lambda>c. rc_DeletedAt c = 0 \<and> rc_RoomID c = roomID) cfgs) of
        [] \<Rightarrow> DefaultAgentConfig roomID
      | cfg # _ \<Rightarrow> cfg)"

definition GetRoomDetail ::
    "scan_order \<Rightarrow> 's MessageStatsStore \<Rightarrow> time \<Rightarrow> (nat \<Rightarrow> bool) \<Rightarrow> time \<Rightarrow> time \<Rightarrow> int \<Rightarrow> 's query_state \<Rightarrow> db_error + RoomDetail" where
  "GetRoomDetail scan S off fault day now roomID s =
     (case GetRoomByID (fault 0) roomID (qs_db s) of
        Inl e \<Rightarrow> Inl e
      | Inr r \<Rightarrow>
          (let start = startOfDay off day
           in Inr \<lparr>rd_ID = ro_ID r, rd_Name = ro_Name r, rd_Type = ro_Type r, rd_OwnerID = ro_CreatorID r,
                   rd_AgentEnabled = ro_AgentEnabled r, rd_ModerationEnabled = ro_ModerationEnabled r, rd_Status = ro_Status r,
                   rd_CreatedAt = ro_CreatedAt r, rd_LastActiveAt = ro_LastActiveAt r,
                   rd_MemberCount = or_zero (countMembers (fault 1) (ro_ID r) (qs_db s)),
                   rd_OnlineMemberCount = or_zero (countOnlineMembers (fault 2) (fault 3) (fault 4) now (ro_ID r) (qs_db s) (qs_presence s)),
                   rd_TodayMessageCount = or_zero (st_CountByRoom S (fault 5) (ro_ID r) start now (qs_messages s)),
                   rd_TotalMessageCount = or_zero (st_CountByRoomTotal S (fault 6) (ro_ID r) (qs_messages s)),
                   rd_ViolationCount = or_zero (countRoomViolations (fault 7) (ro_ID r) start (qs_events s)),
                   rd_Members = or_empty (roomMembers (fault 8) (fault 9) (fault 10) now (ro_ID r) (qs_db s) (qs_presence s)),
                   rd_RecentMessages = [], rd_AgentConfig = room_config (fault 11) (ro_ID r) (qs_configs s),
                   rd_Violations = (if fault 12 then [] else moderationItems (take 20 (newest_first scan
                      (filter (\<lambda>e. me_RoomID e = ro_ID r) (qs_events s)))))\<rparr>))"


section \<open>Batches and single queries\<close>

lemma get0_group_query:
  assumes "group_order eng" "i \<in> set ids"
  shows "get0 (or_empty (group_query eng False ids key rows)) i = or_zero (count_query False (\<lambda>r. key r = i) rows)"
proof -
  have ne: "ids \<noteq> []" using assms(2) by auto
  have "filter (\<lambda>r. key r \<in> set ids \<and> key r = i) rows = filter (\<lambda>r. key r = i) rows"
    using assms(2) by (intro filter_cong) auto
  with ne show ?thesis
    by (simp add: group_query_def or_empty_def or_zero_def count_query_def get0_group [OF assms(1)] count_list_map_filter)
qed

lemma map_get_fold_put:
  "map_get (fold (\<lambda>u. map_put u (f u)) ids m) k = (if k \<in> set ids then Some (f k) else map_get m k)"
  by (induction ids arbitrary: m) auto

lemma getB_online:
  "k \<in> set ids \<Longrightarrow> getB (fst (CheckUsersOnline False now ids pres)) k = fst (CheckUserOnline False now k pres)"
  by (auto simp: getB_def CheckUsersOnline_def CheckUserOnline_def map_get_fold_put split: option.split)

lemma set_unique_ids [simp]: "set (unique_ids ids) = set ids"
proof -
  have "set (fold (\<lambda>i out. if i \<in> set out then out else out @ [i]) ids out) = set out \<union> set ids" for out
    by (induction ids arbitrary: out) auto
  then show ?thesis by (simp add: unique_ids_def)
qed

lemma get0_count_loop:
  "get0 (fold (\<lambda>m out. if P m then map_put (key m) (get0 out (key m) + 1) out else out) ms out) i =
    get0 out i + length (filter (\<lambda>m. key m = i \<and> P m) ms)"
  by (induction ms arbitrary: out) (auto simp: get0_def)

lemma online_counts:
  assumes "i \<in> set ids"
  shows "get0 (or_empty (onlineMemberCounts False False now ids db pres)) i =
    or_zero (countOnlineMembers False False False now i db pres)"
proof -
  let ?on = "\<lambda>u. fst (CheckUserOnline False now u pres)"
  let ?ms = "filter (\<lambda>m. mb_RoomID m \<in> set ids) (live_members db)"
  let ?us = "unique_ids (map mb_UserID ?ms)"
  let ?u1 = "unique_ids (map mb_UserID (filter (\<lambda>m. mb_RoomID m = i) (live_members db)))"
  have ne: "ids \<noteq> []" using assms by auto
  have b: "getB (fst (CheckUsersOnline False now ?us pres)) (mb_UserID m) = ?on (mb_UserID m)" if "m \<in> set ?ms" for m
    using that by (intro getB_online) auto
  have "get0 (or_empty (onlineMemberCounts False False now ids db pres)) i =
      length (filter (\<lambda>m. mb_RoomID m = i \<and> getB (fst (CheckUsersOnline False now ?us pres)) (mb_UserID m)) ?ms)"
    using ne by (simp add: onlineMemberCounts_def or_empty_def Let_def get0_count_loop)
  also have "filter (\<lambda>m. mb_RoomID m = i \<and> getB (fst (CheckUsersOnline False now ?us pres)) (mb_UserID m)) ?ms =
      filter (\<lambda>m. mb_RoomID m = i \<and> ?on (mb_UserID m)) ?ms" by (intro filter_cong [OF refl]) (simp add: b del: filter_filter)
  also have "\<dots> = filter (\<lambda>m. mb_RoomID m = i \<and> ?on (mb_UserID m)) (live_members db)"
    unfolding filter_filter using assms by (intro filter_cong) auto
  finally have 1: "get0 (or_empty (onlineMemberCounts False False now ids db pres)) i =
      length (filter (\<lambda>m. mb_RoomID m = i \<and> ?on (mb_UserID m)) (live_members db))" .
  have c: "getB (fst (CheckUsersOnline False now ?u1 pres)) (mb_UserID m) = ?on (mb_UserID m)"
    if "m \<in> set (filter (\<lambda>m. mb_RoomID m = i) (live_members db))" for m
    using that by (intro getB_online) auto
  have "or_zero (countOnlineMembers False False False now i db pres) =
      length (filter (\<lambda>m. getB (fst (CheckUsersOnline False now ?u1 pres)) (mb_UserID m)) (filter (\<lambda>m. mb_RoomID m = i) (live_members db)))"
    by (simp add: countOnlineMembers_def roomMembers_def or_zero_def Let_def filter_map comp_def)
  also have "filter (\<lambda>m. getB (fst (CheckUsersOnline False now ?u1 pres)) (mb_UserID m)) (filter (\<lambda>m. mb_RoomID m = i) (live_members db)) =
      filter (\<lambda>m. ?on (mb_UserID m)) (filter (\<lambda>m. mb_RoomID m = i) (live_members db))"
    by (intro filter_cong [OF refl]) (simp add: c del: filter_filter)
  finally show ?thesis using 1 by (simp add: conj_commute)
qed

lemma in_page: "x \<in> set (page_of p n xs) \<Longrightarrow> x \<in> set xs"
  by (auto simp: page_of_def dest!: in_set_takeD in_set_dropD)

lemma find_unique: "distinct (map key xs) \<Longrightarrow> x \<in> set xs \<Longrightarrow> find (\<lambda>y. key y = key x) xs = Some x"
  by (induction xs) (auto simp: image_iff)

lemma GetByID_live:
  assumes "db_inv db" "u \<in> set (live_users db)"
  shows "GetByID False (us_ID u) db = Inr u"
proof -
  have "distinct (map us_ID (live_users db))" using assms(1) by (simp add: db_inv_def live_users_def distinct_map_filter)
  from find_unique [OF this assms(2)] show ?thesis by (simp add: GetByID_def)
qed

lemma GetRoomByID_live:
  assumes "db_inv db" "r \<in> set (live_rooms db)"
  shows "GetRoomByID False (ro_ID r) db = Inr r"
proof -
  have "distinct (map ro_ID (live_rooms db))" using assms(1) by (simp add: db_inv_def live_rooms_def distinct_map_filter)
  from find_unique [OF this assms(2)] show ?thesis by (simp add: GetRoomByID_def)
qed

section \<open>Lists and details under the statistics contract\<close>

context message_stats
begin

lemma message_batches:
  "i \<in> set ids \<Longrightarrow> get0 (or_empty (st_CountsBySenderIDs S False ids s)) i = or_zero (st_CountBySender S False i s)"
  "i \<in> set ids \<Longrightarrow> get0 (or_empty (st_CountsByRoomIDs S False ids a b s)) i = or_zero (st_CountByRoom S False i a b s)"
  "i \<in> set ids \<Longrightarrow> get0 (or_empty (st_CountsByRoomTotalIDs S False ids s)) i = or_zero (st_CountByRoomTotal S False i s)"
proof -
  assume i: "i \<in> set ids"
  then have ne: "ids \<noteq> []" by auto
  show "get0 (or_empty (st_CountsBySenderIDs S False ids s)) i = or_zero (st_CountBySender S False i s)"
    using senders_law [of False ids s] batch_senders [of False ids s _ i] i ne by (auto simp: answer_def or_empty_def or_zero_def)
  show "get0 (or_empty (st_CountsByRoomIDs S False ids a b s)) i = or_zero (st_CountByRoom S False i a b s)"
    using rooms_law [of False ids a b s] batch_rooms [of False ids a b s _ i] i ne by (auto simp: answer_def or_empty_def or_zero_def)
  show "get0 (or_empty (st_CountsByRoomTotalIDs S False ids s)) i = or_zero (st_CountByRoomTotal S False i s)"
    using rooms_total_law [of False ids s] batch_rooms_total [of False ids s _ i] i ne
    by (auto simp: answer_def or_empty_def or_zero_def)
qed

lemma user_item_matches:
  assumes "group_order eng" "db_inv (qs_db s)" "ListUsers like eng S (\<lambda>_. False) now q s = Inr (items, n)" "it \<in> set items"
  shows "\<exists>d. GetUserDetail scan S (\<lambda>_. False) now (ul_ID it) s = Inr d \<and>
    it = \<lparr>ul_ID = ud_ID d, ul_Username = ud_Username d, ul_Role = ud_Role d, ul_RoleName = ud_RoleName d, ul_CreatedAt = ud_CreatedAt d,
          ul_LastLoginAt = ud_LastLoginAt d, ul_LastActiveAt = ud_LastActiveAt d, ul_Online = ud_Online d, ul_Status = ud_Status d,
          ul_RoomCount = ud_RoomCount d, ul_MessageCount = ud_MessageCount d, ul_ViolationCount = ud_ViolationCount d\<rparr>"
proof -
  define users where "users = page_of (uq_Page q) (uq_PageSize q)
    (rev (sort_key us_ID (filter (user_match like q) (live_users (qs_db s)))))"
  let ?ids = "map us_ID users"
  obtain u where u: "u \<in> set users" and it: "it = \<lparr>ul_ID = us_ID u, ul_Username = us_Username u, ul_Role = us_Role u,
      ul_RoleName = RoleName (us_Role u), ul_CreatedAt = us_CreatedAt u, ul_LastLoginAt = us_LastLoginAt u, ul_LastActiveAt = us_LastActiveAt u,
      ul_Online = getB (fst (CheckUsersOnline False now ?ids (qs_presence s))) (us_ID u), ul_Status = us_Status u,
      ul_RoomCount = get0 (or_empty (countUserRoomsByIDs eng False ?ids (qs_db s))) (us_ID u),
      ul_MessageCount = get0 (or_empty (st_CountsBySenderIDs S False ?ids (qs_messages s))) (us_ID u),
      ul_ViolationCount = get0 (or_empty (countUserViolationsByIDs eng False ?ids (qs_events s))) (us_ID u)\<rparr>"
    using assms(3,4) by (auto simp: ListUsers_def Let_def users_def)
  have id: "us_ID u \<in> set ?ids" using u by simp
  have "u \<in> set (live_users (qs_db s))" using in_page [OF u [unfolded users_def]] by simp
  from GetByID_live [OF assms(2) this] have g: "GetByID False (us_ID u) (qs_db s) = Inr u" .
  show ?thesis
    by (simp add: it GetUserDetail_def g getB_online [OF id] message_batches(1) [OF id] countUserRoomsByIDs_def
        countUserViolationsByIDs_def get0_group_query [OF assms(1) id] countUserRooms_def countUserViolations_def)
qed

lemma room_item_matches:
  assumes "group_order eng" "db_inv (qs_db s)" "ListRooms like eng S off (\<lambda>_. False) day now q s = Inr (items, n)" "it \<in> set items"
  shows "\<exists>d. GetRoomDetail scan S off (\<lambda>_. False) day now (rl_ID it) s = Inr d \<and>
    it = \<lparr>rl_ID = rd_ID d, rl_Name = rd_Name d, rl_Type = rd_Type d, rl_OwnerID = rd_OwnerID d, rl_MemberCount = rd_MemberCount d,
          rl_OnlineMemberCount = rd_OnlineMemberCount d, rl_TodayMessageCount = rd_TodayMessageCount d,
          rl_TotalMessageCount = rd_TotalMessageCount d, rl_CreatedAt = rd_CreatedAt d, rl_LastActiveAt = rd_LastActiveAt d,
          rl_AgentEnabled = rd_AgentEnabled d, rl_ModerationEnabled = rd_ModerationEnabled d, rl_Status = rd_Status d,
          rl_ViolationCount = rd_ViolationCount d\<rparr>"
proof -
  define rooms where "rooms = page_of (rq_Page q) (rq_PageSize q)
    (rev (sort_key ro_ID (filter (room_match like q) (live_rooms (qs_db s)))))"
  let ?ids = "map ro_ID rooms" and ?st = "startOfDay off day"
  obtain r where r: "r \<in> set rooms" and it: "it = \<lparr>rl_ID = ro_ID r, rl_Name = ro_Name r, rl_Type = ro_Type r, rl_OwnerID = ro_CreatorID r,
      rl_MemberCount = get0 (or_empty (countMembersByIDs eng False ?ids (qs_db s))) (ro_ID r),
      rl_OnlineMemberCount = get0 (or_empty (onlineMemberCounts False False now ?ids (qs_db s) (qs_presence s))) (ro_ID r),
      rl_TodayMessageCount = get0 (or_empty (st_CountsByRoomIDs S False ?ids ?st now (qs_messages s))) (ro_ID r),
      rl_TotalMessageCount = get0 (or_empty (st_CountsByRoomTotalIDs S False ?ids (qs_messages s))) (ro_ID r),
      rl_CreatedAt = ro_CreatedAt r, rl_LastActiveAt = ro_LastActiveAt r, rl_AgentEnabled = ro_AgentEnabled r,
      rl_ModerationEnabled = ro_ModerationEnabled r, rl_Status = ro_Status r,
      rl_ViolationCount = get0 (or_empty (countRoomViolationsByIDs eng False ?ids ?st (qs_events s))) (ro_ID r)\<rparr>"
    using assms(3,4) by (auto simp: ListRooms_def Let_def rooms_def)
  have id: "ro_ID r \<in> set ?ids" using r by simp
  have "r \<in> set (live_rooms (qs_db s))" using in_page [OF r [unfolded rooms_def]] by simp
  from GetRoomByID_live [OF assms(2) this] have g: "GetRoomByID False (ro_ID r) (qs_db s) = Inr r" .
  show ?thesis
    by (simp add: it GetRoomDetail_def g Let_def message_batches(2,3) [OF id] countMembersByIDs_def countRoomViolationsByIDs_def
        get0_group_query [OF assms(1) id] countMembers_def countRoomViolations_def online_counts [OF id] count_query_def or_zero_def conj_commute)
qed

end


section \<open>Handlers\<close>

text \<open>A number in the query string that does not parse is left out; otherwise it is cut to an \<^verbatim>\<open>int8\<close>.\<close>

definition query_int8 :: "int \<Rightarrow> string \<Rightarrow> int" where
  "query_int8 def raw = (if raw = [] then def else case ParseInt raw of (v, None) \<Rightarrow> wrap8 v | (_, Some _) \<Rightarrow> def)"

record list_params =
  lp_page :: "string option"
  lp_pageSize :: "string option"
  lp_keyword :: string
  lp_kind :: string
  lp_status :: string
  lp_agent :: string
  lp_start :: time
  lp_end :: time

definition AdminUserList ::
    "(string \<Rightarrow> string \<Rightarrow> bool) \<Rightarrow> (int list \<Rightarrow> int list) \<Rightarrow> 's MessageStatsStore \<Rightarrow> bool \<Rightarrow> (nat \<Rightarrow> bool) \<Rightarrow> time \<Rightarrow> list_params \<Rightarrow>
     's query_state \<Rightarrow> http_status \<times> (UserListItem list \<times> nat) option" where
  "AdminUserList like eng S up fault now p s =
     (if \<not> up then (Unavailable, None)
      else
        (let (page, pageSize) = page_params (lp_page p) (lp_pageSize p)
         in case ListUsers like eng S fault now
                   \<lparr>uq_Page = page, uq_PageSize = pageSize, uq_Keyword = lp_keyword p, uq_Role = query_int8 (- 1) (lp_kind p),
                    uq_Status = query_int8 (- 1) (lp_status p), uq_Online = None, uq_Start = lp_start p, uq_End = lp_end p\<rparr> s of
              Inl _ \<Rightarrow> (ServerError, None)
            | Inr r \<Rightarrow> (OK, Some r)))"

definition AdminUserDetail ::
    "scan_order \<Rightarrow> 's MessageStatsStore \<Rightarrow> bool \<Rightarrow> (nat \<Rightarrow> bool) \<Rightarrow> time \<Rightarrow> string \<Rightarrow> 's query_state \<Rightarrow> http_status \<times> UserDetail option" where
  "AdminUserDetail scan S up fault now idText s =
     (case ParseInt idText of
        (_, Some _) \<Rightarrow> (BadRequest, None)
      | (userID, None) \<Rightarrow>
          if \<not> up then (Unavailable, None)
          else case GetUserDetail scan S fault now userID s of
            Inl _ \<Rightarrow> (NotFound, None)
          | Inr detail \<Rightarrow> (OK, Some detail))"

definition AdminRoomList ::
    "(string \<Rightarrow> string \<Rightarrow> bool) \<Rightarrow> (int list \<Rightarrow> int list) \<Rightarrow> 's MessageStatsStore \<Rightarrow> time \<Rightarrow> bool \<Rightarrow> (nat \<Rightarrow> bool) \<Rightarrow> time \<Rightarrow> time \<Rightarrow> list_params \<Rightarrow>
     's query_state \<Rightarrow> http_status \<times> (RoomListItem list \<times> nat) option" where
  "AdminRoomList like eng S off up fault day now p s =
     (if \<not> up then (Unavailable, None)
      else
        (let (page, pageSize) = page_params (lp_page p) (lp_pageSize p)
         in case ListRooms like eng S off fault day now
                   \<lparr>rq_Page = page, rq_PageSize = pageSize, rq_Keyword = lp_keyword p, rq_RoomType = query_int8 0 (lp_kind p),
                    rq_AgentEnabled = (if lp_agent p = [] then None else Some (lp_agent p = ''true'' \<or> lp_agent p = ''1'')),
                    rq_Status = query_int8 (- 1) (lp_status p), rq_Start = lp_start p, rq_End = lp_end p\<rparr> s of
              Inl _ \<Rightarrow> (ServerError, None)
            | Inr r \<Rightarrow> (OK, Some r)))"

definition AdminRoomDetail ::
    "scan_order \<Rightarrow> 's MessageStatsStore \<Rightarrow> time \<Rightarrow> bool \<Rightarrow> (nat \<Rightarrow> bool) \<Rightarrow> time \<Rightarrow> time \<Rightarrow> string \<Rightarrow> 's query_state \<Rightarrow>
     http_status \<times> RoomDetail option" where
  "AdminRoomDetail scan S off up fault day now idText s =
     (case ParseInt idText of
        (_, Some _) \<Rightarrow> (BadRequest, None)
      | (roomID, None) \<Rightarrow>
          if \<not> up then (Unavailable, None)
          else case GetRoomDetail scan S off fault day now roomID s of
            Inl _ \<Rightarrow> (NotFound, None)
          | Inr detail \<Rightarrow> (OK, Some detail))"

section \<open>Properties\<close>

text \<open>What a list shows of a detail.\<close>

definition user_row :: "UserDetail \<Rightarrow> UserListItem" where
  "user_row d =
     \<lparr>ul_ID = ud_ID d, ul_Username = ud_Username d, ul_Role = ud_Role d, ul_RoleName = ud_RoleName d, ul_CreatedAt = ud_CreatedAt d,
      ul_LastLoginAt = ud_LastLoginAt d, ul_LastActiveAt = ud_LastActiveAt d, ul_Online = ud_Online d, ul_Status = ud_Status d,
      ul_RoomCount = ud_RoomCount d, ul_MessageCount = ud_MessageCount d, ul_ViolationCount = ud_ViolationCount d\<rparr>"

definition room_row :: "RoomDetail \<Rightarrow> RoomListItem" where
  "room_row d =
     \<lparr>rl_ID = rd_ID d, rl_Name = rd_Name d, rl_Type = rd_Type d, rl_OwnerID = rd_OwnerID d, rl_MemberCount = rd_MemberCount d,
      rl_OnlineMemberCount = rd_OnlineMemberCount d, rl_TodayMessageCount = rd_TodayMessageCount d,
      rl_TotalMessageCount = rd_TotalMessageCount d, rl_CreatedAt = rd_CreatedAt d, rl_LastActiveAt = rd_LastActiveAt d,
      rl_AgentEnabled = rd_AgentEnabled d, rl_ModerationEnabled = rd_ModerationEnabled d, rl_Status = rd_Status d,
      rl_ViolationCount = rd_ViolationCount d\<rparr>"


section \<open>Examples\<close>

definition sample_room :: Room where
  "sample_room = \<lparr>ro_ID = 9, ro_Type = 2, ro_Name = ''r'', ro_CreatorID = 7, ro_AgentEnabled = False, ro_ModerationEnabled = True,
     ro_Status = 0, ro_LastActiveAt = 1, ro_BotUserID = 0, ro_CreatedAt = 1, ro_DeletedAt = 0\<rparr>"

definition sample_query_state :: "(table \<times> collection) query_state" where
  "sample_query_state =
     \<lparr>qs_db = sample_users\<lparr>db_rooms := [sample_room], db_nextRoom := 10,
        db_members := [\<lparr>mb_ID = 1, mb_RoomID = 9, mb_UserID = 7, mb_Role = 3, mb_DeletedAt = 0\<rparr>], db_nextMember := 2\<rparr>,
      qs_presence = SetUserOnline False 0 7 ''n'' [], qs_events = [], qs_configs = [], qs_messages = (sample_mentions, [])\<rparr>"

definition sample_user_query :: UserListQuery where
  "sample_user_query = \<lparr>uq_Page = 1, uq_PageSize = 20, uq_Keyword = [], uq_Role = - 1, uq_Status = - 1, uq_Online = None, uq_Start = zero_time,
     uq_End = zero_time\<rparr>"

definition sample_room_query :: RoomListQuery where
  "sample_room_query = \<lparr>rq_Page = 1, rq_PageSize = 20, rq_Keyword = [], rq_RoomType = 0, rq_AgentEnabled = None, rq_Status = - 1,
     rq_Start = zero_time, rq_End = zero_time\<rparr>"


definition sample_user_item :: UserListItem where
  "sample_user_item = \<lparr>ul_ID = 7, ul_Username = ''amy'', ul_Role = 0, ul_RoleName = ''user'', ul_CreatedAt = 1, ul_LastLoginAt = None,
     ul_LastActiveAt = None, ul_Online = True, ul_Status = 0, ul_RoomCount = 1, ul_MessageCount = 2, ul_ViolationCount = 0\<rparr>"

definition sample_room_item :: RoomListItem where
  "sample_room_item = \<lparr>rl_ID = 9, rl_Name = ''r'', rl_Type = 2, rl_OwnerID = 7, rl_MemberCount = 1, rl_OnlineMemberCount = 1,
     rl_TodayMessageCount = 2, rl_TotalMessageCount = 2, rl_CreatedAt = 1, rl_LastActiveAt = 1, rl_AgentEnabled = False,
     rl_ModerationEnabled = True, rl_Status = 0, rl_ViolationCount = 0\<rparr>"


end
