(* ===== verification/ObjectStorage.thy ===== *)
theory ObjectStorage
  imports Prelude
begin

text \<open>
  The object storage behind the files, \<^verbatim>\<open>services/messages/storage\<close>: the interface \<^verbatim>\<open>Provider\<close> as a record of its methods and
  its two implementations over the MinIO and the OSS client library. The libraries are parameters: records of the calls
  that the providers make, over a state \<open>'b\<close> of the bucket that may also hold what decides which calls fail. What the
  libraries document is \<open>minio_laws\<close> and \<open>oss_laws\<close>; what the program relies on is the locale \<open>object_storage\<close>.
\<close>

section \<open>Interface\<close>

record ObjectStat =
  ob_Key :: string
  ob_Size :: int
  ob_LastModified :: time
  ob_ETag :: string
  ob_Exists :: bool

definition no_object :: "string \<Rightarrow> ObjectStat" where
  "no_object key = \<lparr>ob_Key = key, ob_Size = 0, ob_LastModified = zero_time, ob_ETag = [], ob_Exists = False\<rparr>"

text \<open>An error of \<^verbatim>\<open>Delete\<close> and \<^verbatim>\<open>Stat\<close> is \<open>False\<close>, one of the others \<open>None\<close>.\<close>

record 'b Provider =
  pv_PreSignedUploadURL :: "string \<Rightarrow> int \<Rightarrow> 'b \<Rightarrow> string option \<times> 'b"
  pv_GetDownloadURL :: "string \<Rightarrow> 'b \<Rightarrow> string option \<times> 'b"
  pv_Delete :: "string \<Rightarrow> 'b \<Rightarrow> bool \<times> 'b"
  pv_Stat :: "string \<Rightarrow> 'b \<Rightarrow> (bool \<times> ObjectStat) \<times> 'b"
  pv_ListObjects :: "string \<Rightarrow> int \<Rightarrow> 'b \<Rightarrow> ObjectStat list option \<times> 'b"

definition minutes15 :: int where
  "minutes15 = 15 * 60 * 1000000000"

section \<open>MinIO\<close>

record object_info =
  oi_Key :: string
  oi_Size :: int
  oi_LastModified :: time
  oi_ETag :: string

datatype stat_error = NoSuchKey | OtherError

text \<open>The listing is the channel of the library: objects and errors in the order they are received.\<close>

record 'b minio_client =
  mc_PresignedPut :: "string \<Rightarrow> int \<Rightarrow> 'b \<Rightarrow> string option \<times> 'b"
  mc_PresignedGet :: "string \<Rightarrow> 'b \<Rightarrow> string option \<times> 'b"
  mc_RemoveObject :: "string \<Rightarrow> 'b \<Rightarrow> bool \<times> 'b"
  mc_StatObject :: "string \<Rightarrow> 'b \<Rightarrow> (stat_error + object_info) \<times> 'b"
  mc_ListObjects :: "string \<Rightarrow> 'b \<Rightarrow> (unit + object_info) list \<times> 'b"

definition stat_of :: "object_info \<Rightarrow> ObjectStat" where
  "stat_of info = \<lparr>ob_Key = oi_Key info, ob_Size = oi_Size info, ob_LastModified = oi_LastModified info, ob_ETag = oi_ETag info,
     ob_Exists = True\<rparr>"

definition minio_PreSignedUploadURL :: "'b minio_client \<Rightarrow> string \<Rightarrow> int \<Rightarrow> 'b \<Rightarrow> string option \<times> 'b" where
  "minio_PreSignedUploadURL c key ttl b = mc_PresignedPut c key (if ttl \<le> 0 then minutes15 else ttl) b"

definition minio_GetDownloadURL :: "'b minio_client \<Rightarrow> string \<Rightarrow> 'b \<Rightarrow> string option \<times> 'b" where
  "minio_GetDownloadURL c key b = mc_PresignedGet c key b"

definition minio_Delete :: "'b minio_client \<Rightarrow> string \<Rightarrow> 'b \<Rightarrow> bool \<times> 'b" where
  "minio_Delete c key b = mc_RemoveObject c key b"

definition minio_Stat :: "'b minio_client \<Rightarrow> string \<Rightarrow> 'b \<Rightarrow> (bool \<times> ObjectStat) \<times> 'b" where
  "minio_Stat c key b =
     (case mc_StatObject c key b of
        (Inl NoSuchKey, b') \<Rightarrow> ((True, no_object key), b')
      | (Inl OtherError, b') \<Rightarrow> ((False, no_object key), b')
      | (Inr info, b') \<Rightarrow> ((True, (stat_of info)\<lparr>ob_Key := key\<rparr>), b'))"

text \<open>The loop over the channel: an error ends it, and so does the object that fills the page.\<close>

fun receive_objects :: "nat \<Rightarrow> (unit + object_info) list \<Rightarrow> ObjectStat list \<Rightarrow> ObjectStat list \<times> bool" where
  "receive_objects limit [] out = (out, True)"
| "receive_objects limit (Inl _ # _) out = (out, False)"
| "receive_objects limit (Inr obj # ch) out =
     (let out' = out @ [stat_of obj]
      in if length out' \<ge> limit then (out', True) else receive_objects limit ch out')"

definition minio_ListObjects :: "'b minio_client \<Rightarrow> string \<Rightarrow> int \<Rightarrow> 'b \<Rightarrow> ObjectStat list option \<times> 'b" where
  "minio_ListObjects c pre limit b =
     (let limit' = (if limit \<le> 0 then 1000 else limit)
      in case mc_ListObjects c pre b of
           (ch, b') \<Rightarrow>
             (case receive_objects (nat limit') ch [] of
                (out, True) \<Rightarrow> (Some out, b')
              | (out, False) \<Rightarrow> (None, b')))"

definition MinioProvider :: "'b minio_client \<Rightarrow> 'b Provider" where
  "MinioProvider c =
     \<lparr>pv_PreSignedUploadURL = minio_PreSignedUploadURL c, pv_GetDownloadURL = minio_GetDownloadURL c, pv_Delete = minio_Delete c,
      pv_Stat = minio_Stat c, pv_ListObjects = minio_ListObjects c\<rparr>"

section \<open>OSS\<close>

text \<open>\<^verbatim>\<open>GetObjectMeta\<close> answers with the size, the time and the tag of the headers, or with an error.\<close>

record 'b oss_client =
  oc_SignURL :: "string \<Rightarrow> bool \<Rightarrow> int \<Rightarrow> 'b \<Rightarrow> string option \<times> 'b"
  oc_DeleteObject :: "string \<Rightarrow> 'b \<Rightarrow> bool \<times> 'b"
  oc_GetObjectMeta :: "string \<Rightarrow> 'b \<Rightarrow> object_info option \<times> 'b"
  oc_ListObjects :: "string \<Rightarrow> int \<Rightarrow> 'b \<Rightarrow> object_info list option \<times> 'b"

definition oss_PreSignedUploadURL :: "'b oss_client \<Rightarrow> string \<Rightarrow> int \<Rightarrow> 'b \<Rightarrow> string option \<times> 'b" where
  "oss_PreSignedUploadURL c key ttl b = oc_SignURL c key True ((if ttl \<le> 0 then minutes15 else ttl) div 1000000000) b"

definition oss_GetDownloadURL :: "'b oss_client \<Rightarrow> string \<Rightarrow> 'b \<Rightarrow> string option \<times> 'b" where
  "oss_GetDownloadURL c key b = oc_SignURL c key False 3600 b"

definition oss_Delete :: "'b oss_client \<Rightarrow> string \<Rightarrow> 'b \<Rightarrow> bool \<times> 'b" where
  "oss_Delete c key b = oc_DeleteObject c key b"

definition oss_Stat :: "'b oss_client \<Rightarrow> string \<Rightarrow> 'b \<Rightarrow> (bool \<times> ObjectStat) \<times> 'b" where
  "oss_Stat c key b =
     (case oc_GetObjectMeta c key b of
        (None, b') \<Rightarrow> ((True, no_object key), b')
      | (Some info, b') \<Rightarrow> ((True, (stat_of info)\<lparr>ob_Key := key\<rparr>), b'))"

definition oss_ListObjects :: "'b oss_client \<Rightarrow> string \<Rightarrow> int \<Rightarrow> 'b \<Rightarrow> ObjectStat list option \<times> 'b" where
  "oss_ListObjects c pre limit b =
     (case oc_ListObjects c pre (if limit \<le> 0 then 1000 else limit) b of
        (None, b') \<Rightarrow> (None, b')
      | (Some objs, b') \<Rightarrow> (Some (map stat_of objs), b'))"

definition OssProvider :: "'b oss_client \<Rightarrow> 'b Provider" where
  "OssProvider c =
     \<lparr>pv_PreSignedUploadURL = oss_PreSignedUploadURL c, pv_GetDownloadURL = oss_GetDownloadURL c, pv_Delete = oss_Delete c,
      pv_Stat = oss_Stat c, pv_ListObjects = oss_ListObjects c\<rparr>"

section \<open>Contract\<close>

text \<open>
  \<open>contents b\<close> are the objects of the bucket. A deletion that reports an error may have been carried out. Only an existing
  object is reported as existing; a listing has objects of the bucket only, each once, and if it is shorter than its
  limit it has them all.
\<close>

locale object_storage =
  fixes P :: "'b Provider" and contents :: "'b \<Rightarrow> (string \<rightharpoonup> object_info)"
  assumes delete_ok: "pv_Delete P k b = (True, b') \<Longrightarrow> contents b' = (contents b)(k := None)"
    and delete_error: "pv_Delete P k b = (False, b') \<Longrightarrow> contents b' = contents b \<or> contents b' = (contents b)(k := None)"
    and stat_keeps: "pv_Stat P k b = (r, b') \<Longrightarrow> contents b' = contents b"
    and stat_found: "pv_Stat P k b = ((True, st), b') \<Longrightarrow> ob_Exists st \<Longrightarrow> k \<in> dom (contents b)"
    and list_keeps: "pv_ListObjects P pre n b = (listed, b') \<Longrightarrow> contents b' = contents b"
    and list_sound: "pv_ListObjects P pre n b = (Some os, b') \<Longrightarrow> 0 < n \<Longrightarrow>
      ob_Key ` set os \<subseteq> dom (contents b) \<and> distinct (map ob_Key os) \<and> length os \<le> nat n"
    and list_complete: "pv_ListObjects P [] n b = (Some os, b') \<Longrightarrow> 0 < n \<Longrightarrow> length os < nat n \<Longrightarrow>
      dom (contents b) \<subseteq> ob_Key ` set os"
begin

lemma delete_any: "pv_Delete P k b = (ok, b') \<Longrightarrow> contents b' = contents b \<or> contents b' = (contents b)(k := None)"
  using delete_ok [of k b b'] delete_error [of k b b'] by (cases ok) auto

end

text \<open>What the two libraries document.\<close>

definition deletes :: "(string \<Rightarrow> 'b \<Rightarrow> bool \<times> 'b) \<Rightarrow> ('b \<Rightarrow> (string \<rightharpoonup> object_info)) \<Rightarrow> bool" where
  "deletes del contents \<longleftrightarrow>
     (\<forall>k b b'. del k b = (True, b') \<longrightarrow> contents b' = (contents b)(k := None)) \<and>
     (\<forall>k b b'. del k b = (False, b') \<longrightarrow> contents b' = contents b \<or> contents b' = (contents b)(k := None))"

definition minio_laws :: "'b minio_client \<Rightarrow> ('b \<Rightarrow> (string \<rightharpoonup> object_info)) \<Rightarrow> bool" where
  "minio_laws c contents \<longleftrightarrow> deletes (mc_RemoveObject c) contents \<and>
     (\<forall>k b r b'. mc_StatObject c k b = (r, b') \<longrightarrow> contents b' = contents b \<and> (\<forall>i. r = Inr i \<longrightarrow> k \<in> dom (contents b))) \<and>
     (\<forall>pre b ch b'. mc_ListObjects c pre b = (ch, b') \<longrightarrow> contents b' = contents b \<and>
        (\<forall>i. Inr i \<in> set ch \<longrightarrow> oi_Key i \<in> dom (contents b)) \<and>
        distinct (map oi_Key (map projr (filter (\<lambda>x. \<not> isl x) ch))) \<and>
        (pre = [] \<longrightarrow> (\<forall>x \<in> set ch. \<not> isl x) \<longrightarrow> dom (contents b) \<subseteq> (oi_Key \<circ> projr) ` set ch))"

definition oss_laws :: "'b oss_client \<Rightarrow> ('b \<Rightarrow> (string \<rightharpoonup> object_info)) \<Rightarrow> bool" where
  "oss_laws c contents \<longleftrightarrow> deletes (oc_DeleteObject c) contents \<and>
     (\<forall>k b r b'. oc_GetObjectMeta c k b = (r, b') \<longrightarrow> contents b' = contents b \<and> (r \<noteq> None \<longrightarrow> k \<in> dom (contents b))) \<and>
     (\<forall>pre n b r b'. oc_ListObjects c pre n b = (r, b') \<longrightarrow> contents b' = contents b \<and>
        (\<forall>os. r = Some os \<longrightarrow> oi_Key ` set os \<subseteq> dom (contents b) \<and> distinct (map oi_Key os) \<and> length os \<le> nat n \<and>
           (pre = [] \<longrightarrow> length os < nat n \<longrightarrow> dom (contents b) \<subseteq> oi_Key ` set os)))"

section \<open>Both providers keep the contract\<close>

lemma stat_of_Key [simp]: "ob_Key (stat_of i) = oi_Key i" "ob_Exists (stat_of i)"
  by (simp_all add: stat_of_def)

lemma receive_objects_spec:
  assumes "receive_objects limit ch out = (res, ok)" "length out < limit"
  shows "\<exists>infos rest. res = out @ map stat_of infos \<and> ch = map Inr infos @ rest \<and> length res \<le> limit \<and>
    (ok \<longrightarrow> length res < limit \<longrightarrow> rest = [])"
  using assms
proof (induction limit ch out rule: receive_objects.induct)
  case (1 limit out)
  then show ?case by (intro exI [of _ "[]"] exI [of _ "[]"]) simp
next
  case (2 limit u ch out)
  then show ?case by (intro exI [of _ "[]"] exI [of _ "Inl u # ch"]) simp
next
  case (3 limit obj ch out)
  show ?case
  proof (cases "length (out @ [stat_of obj]) \<ge> limit")
    case True
    with 3 show ?thesis by (intro exI [of _ "[obj]"] exI [of _ ch]) (auto simp: Let_def)
  next
    case False
    with 3 obtain infos rest where "res = (out @ [stat_of obj]) @ map stat_of infos" "ch = map Inr infos @ rest" "length res \<le> limit"
      "ok \<longrightarrow> length res < limit \<longrightarrow> rest = []" by (auto simp: Let_def)
    then show ?thesis by (intro exI [of _ "obj # infos"] exI [of _ rest]) simp
  qed
qed

lemma minio_storage:
  assumes "minio_laws c contents"
  shows "object_storage (MinioProvider c) contents"
proof
  fix k pre :: string and b b' :: 'a and r st n os and r' :: "ObjectStat list option"
  have del: "deletes (mc_RemoveObject c) contents" using assms by (simp add: minio_laws_def)
  have listing: "\<forall>pre b ch b'. mc_ListObjects c pre b = (ch, b') \<longrightarrow> contents b' = contents b \<and>
        (\<forall>i. Inr i \<in> set ch \<longrightarrow> oi_Key i \<in> dom (contents b)) \<and>
        distinct (map oi_Key (map projr (filter (\<lambda>x. \<not> isl x) ch))) \<and>
        (pre = [] \<longrightarrow> (\<forall>x \<in> set ch. \<not> isl x) \<longrightarrow> dom (contents b) \<subseteq> (oi_Key \<circ> projr) ` set ch)"
    using assms unfolding minio_laws_def by (elim conjE)
  show "pv_Delete (MinioProvider c) k b = (True, b') \<Longrightarrow> contents b' = (contents b)(k := None)"
    using del by (simp add: MinioProvider_def minio_Delete_def deletes_def)
  show "pv_Delete (MinioProvider c) k b = (False, b') \<Longrightarrow> contents b' = contents b \<or> contents b' = (contents b)(k := None)"
    using del by (simp add: MinioProvider_def minio_Delete_def deletes_def)
  obtain q b1 where q: "mc_StatObject c k b = (q, b1)" by (rule prod.exhaust)
  have st: "contents b1 = contents b" "\<And>i. q = Inr i \<Longrightarrow> k \<in> dom (contents b)" using assms q unfolding minio_laws_def by blast+
  show "pv_Stat (MinioProvider c) k b = (r, b') \<Longrightarrow> contents b' = contents b"
    using q st(1) by (auto simp: MinioProvider_def minio_Stat_def split: sum.splits stat_error.splits)
  show "pv_Stat (MinioProvider c) k b = ((True, st), b') \<Longrightarrow> ob_Exists st \<Longrightarrow> k \<in> dom (contents b)"
    using q st(2) by (auto simp: MinioProvider_def minio_Stat_def no_object_def split: sum.splits stat_error.splits)
  have list: "contents b' = contents b" "r' = Some os \<Longrightarrow> 0 < n \<Longrightarrow>
      ob_Key ` set os \<subseteq> dom (contents b) \<and> distinct (map ob_Key os) \<and> length os \<le> nat n \<and>
      (pre = [] \<longrightarrow> length os < nat n \<longrightarrow> dom (contents b) \<subseteq> ob_Key ` set os)"
    if l: "pv_ListObjects (MinioProvider c) pre n b = (r', b')" for pre r'
  proof -
    obtain ch b1 where ch: "mc_ListObjects c pre b = (ch, b1)" by (rule prod.exhaust)
    have law: "contents b1 = contents b" "\<And>i. Inr i \<in> set ch \<Longrightarrow> oi_Key i \<in> dom (contents b)"
      "distinct (map oi_Key (map projr (filter (\<lambda>x. \<not> isl x) ch)))"
      "pre = [] \<Longrightarrow> \<forall>x \<in> set ch. \<not> isl x \<Longrightarrow> dom (contents b) \<subseteq> (oi_Key \<circ> projr) ` set ch"
      using listing [THEN spec, THEN spec, THEN spec, THEN spec, THEN mp, OF ch] by simp_all
    show "contents b' = contents b"
      using l ch law(1) by (auto simp: MinioProvider_def minio_ListObjects_def Let_def split: prod.splits bool.splits)
    assume os: "r' = Some os" "0 < n"
    have rc: "receive_objects (nat n) ch [] = (os, True)"
      using l ch os by (auto simp: MinioProvider_def minio_ListObjects_def Let_def split: prod.splits bool.splits)
    from receive_objects_spec [OF this] os(2) obtain infos rest where
      i: "os = map stat_of infos" "ch = map Inr infos @ rest" "length os \<le> nat n" "length os < nat n \<longrightarrow> rest = []" by auto
    have "distinct (map oi_Key infos)" using law(3) unfolding i(2) by (simp add: filter_map comp_def)
    moreover have "oi_Key ` set infos \<subseteq> dom (contents b)" using law(2) unfolding i(2) by auto
    moreover have "dom (contents b) \<subseteq> oi_Key ` set infos" if "pre = []" "length os < nat n"
      using law(4) [OF that(1)] i(4) that(2) unfolding i(2) by (auto simp: image_image)
    ultimately show "ob_Key ` set os \<subseteq> dom (contents b) \<and> distinct (map ob_Key os) \<and> length os \<le> nat n \<and>
      (pre = [] \<longrightarrow> length os < nat n \<longrightarrow> dom (contents b) \<subseteq> ob_Key ` set os)"
      using i(1,3) by (simp add: image_image comp_def)
  qed
  show "pv_ListObjects (MinioProvider c) pre n b = (r', b') \<Longrightarrow> contents b' = contents b" by (rule list(1))
  show "pv_ListObjects (MinioProvider c) pre n b = (Some os, b') \<Longrightarrow> 0 < n \<Longrightarrow>
      ob_Key ` set os \<subseteq> dom (contents b) \<and> distinct (map ob_Key os) \<and> length os \<le> nat n"
    using list(2) by blast
  show "pv_ListObjects (MinioProvider c) [] n b = (Some os, b') \<Longrightarrow> 0 < n \<Longrightarrow> length os < nat n \<Longrightarrow> dom (contents b) \<subseteq> ob_Key ` set os"
    using list(2) by blast
qed

lemma oss_storage:
  assumes "oss_laws c contents"
  shows "object_storage (OssProvider c) contents"
proof
  fix k pre :: string and b b' :: 'a and r st n os and r' :: "ObjectStat list option"
  have del: "deletes (oc_DeleteObject c) contents" using assms by (simp add: oss_laws_def)
  have listing: "\<forall>pre n b r b'. oc_ListObjects c pre n b = (r, b') \<longrightarrow> contents b' = contents b \<and>
        (\<forall>os. r = Some os \<longrightarrow> oi_Key ` set os \<subseteq> dom (contents b) \<and> distinct (map oi_Key os) \<and> length os \<le> nat n \<and>
           (pre = [] \<longrightarrow> length os < nat n \<longrightarrow> dom (contents b) \<subseteq> oi_Key ` set os))"
    using assms unfolding oss_laws_def by (elim conjE)
  show "pv_Delete (OssProvider c) k b = (True, b') \<Longrightarrow> contents b' = (contents b)(k := None)"
    using del by (simp add: OssProvider_def oss_Delete_def deletes_def)
  show "pv_Delete (OssProvider c) k b = (False, b') \<Longrightarrow> contents b' = contents b \<or> contents b' = (contents b)(k := None)"
    using del by (simp add: OssProvider_def oss_Delete_def deletes_def)
  obtain q b1 where q: "oc_GetObjectMeta c k b = (q, b1)" by (rule prod.exhaust)
  have st: "contents b1 = contents b" "q \<noteq> None \<Longrightarrow> k \<in> dom (contents b)" using assms q unfolding oss_laws_def by blast+
  show "pv_Stat (OssProvider c) k b = (r, b') \<Longrightarrow> contents b' = contents b"
    using q st(1) by (auto simp: OssProvider_def oss_Stat_def split: option.splits)
  show "pv_Stat (OssProvider c) k b = ((True, st), b') \<Longrightarrow> ob_Exists st \<Longrightarrow> k \<in> dom (contents b)"
    using q st(2) by (auto simp: OssProvider_def oss_Stat_def no_object_def split: option.splits)
  have list: "contents b' = contents b" "r' = Some os \<Longrightarrow> 0 < n \<Longrightarrow>
      ob_Key ` set os \<subseteq> dom (contents b) \<and> distinct (map ob_Key os) \<and> length os \<le> nat n \<and>
      (pre = [] \<longrightarrow> length os < nat n \<longrightarrow> dom (contents b) \<subseteq> ob_Key ` set os)"
    if l: "pv_ListObjects (OssProvider c) pre n b = (r', b')" for pre r'
  proof -
    let ?n = "if n \<le> 0 then 1000 else n"
    obtain x b1 where x: "oc_ListObjects c pre ?n b = (x, b1)" by (rule prod.exhaust)
    have law: "contents b1 = contents b" "\<And>infos. x = Some infos \<Longrightarrow> oi_Key ` set infos \<subseteq> dom (contents b) \<and> distinct (map oi_Key infos) \<and>
        length infos \<le> nat ?n \<and> (pre = [] \<longrightarrow> length infos < nat ?n \<longrightarrow> dom (contents b) \<subseteq> oi_Key ` set infos)"
      using listing [THEN spec, THEN spec, THEN spec, THEN spec, THEN spec, THEN mp, OF x] by simp_all
    show "contents b' = contents b" using l x law(1) by (auto simp: OssProvider_def oss_ListObjects_def split: option.splits)
    assume os: "r' = Some os" "0 < n"
    obtain infos where i: "x = Some infos" "os = map stat_of infos"
      using l x os by (auto simp: OssProvider_def oss_ListObjects_def split: option.splits)
    from law(2) [OF i(1)] os(2) show "ob_Key ` set os \<subseteq> dom (contents b) \<and> distinct (map ob_Key os) \<and> length os \<le> nat n \<and>
      (pre = [] \<longrightarrow> length os < nat n \<longrightarrow> dom (contents b) \<subseteq> ob_Key ` set os)"
      by (simp add: i(2) image_image comp_def)
  qed
  show "pv_ListObjects (OssProvider c) pre n b = (r', b') \<Longrightarrow> contents b' = contents b" by (rule list(1))
  show "pv_ListObjects (OssProvider c) pre n b = (Some os, b') \<Longrightarrow> 0 < n \<Longrightarrow>
      ob_Key ` set os \<subseteq> dom (contents b) \<and> distinct (map ob_Key os) \<and> length os \<le> nat n"
    using list(2) by blast
  show "pv_ListObjects (OssProvider c) [] n b = (Some os, b') \<Longrightarrow> 0 < n \<Longrightarrow> length os < nat n \<Longrightarrow> dom (contents b) \<subseteq> ob_Key ` set os"
    using list(2) by blast
qed


section \<open>A bucket with failing calls\<close>

text \<open>Objects by key, and for the calls to come whether they fail; a failing deletion may be carried out.\<close>

record bucket =
  bk_objects :: "(string, object_info) gomap"
  bk_faults :: "(bool \<times> bool) list"

definition bucket_contents :: "bucket \<Rightarrow> (string \<rightharpoonup> object_info)" where
  "bucket_contents b = map_get (bk_objects b)"

definition next_fault :: "bucket \<Rightarrow> (bool \<times> bool) \<times> bucket" where
  "next_fault b = (case bk_faults b of [] \<Rightarrow> ((False, False), b) | f # fs \<Rightarrow> (f, b\<lparr>bk_faults := fs\<rparr>))"

definition bucket_remove :: "string \<Rightarrow> bucket \<Rightarrow> bool \<times> bucket" where
  "bucket_remove k b =
     (case next_fault b of
        ((failed, applied), b') \<Rightarrow>
          if failed \<and> \<not> applied then (False, b')
          else (\<not> failed, b'\<lparr>bk_objects := map_del k (bk_objects b')\<rparr>))"

definition bucket_infos :: "bucket \<Rightarrow> object_info list" where
  "bucket_infos b = map (\<lambda>k. (the (map_get (bk_objects b) k))\<lparr>oi_Key := k\<rparr>) (remdups (map_keys (bk_objects b)))"

definition bucket_minio :: "bucket minio_client" where
  "bucket_minio =
     \<lparr>mc_PresignedPut = (\<lambda>k ttl b. (Some k, b)), mc_PresignedGet = (\<lambda>k b. (Some k, b)), mc_RemoveObject = bucket_remove,
      mc_StatObject = (\<lambda>k b. case next_fault b of
         ((failed, _), b') \<Rightarrow>
           ((if failed then Inl OtherError else case map_get (bk_objects b) k of None \<Rightarrow> Inl NoSuchKey | Some i \<Rightarrow> Inr i), b')),
      mc_ListObjects = (\<lambda>pre b. case next_fault b of
         ((failed, _), b') \<Rightarrow>
           (map Inr (filter (\<lambda>i. take (length pre) (oi_Key i) = pre) (bucket_infos b)) @ (if failed then [Inl ()] else []), b'))\<rparr>"

definition bucket_oss :: "bucket oss_client" where
  "bucket_oss =
     \<lparr>oc_SignURL = (\<lambda>k put ttl b. (Some k, b)), oc_DeleteObject = bucket_remove,
      oc_GetObjectMeta = (\<lambda>k b. case next_fault b of ((failed, _), b') \<Rightarrow> ((if failed then None else map_get (bk_objects b) k), b')),
      oc_ListObjects = (\<lambda>pre n b. case next_fault b of
         ((failed, _), b') \<Rightarrow>
           ((if failed then None else Some (take (nat n) (filter (\<lambda>i. take (length pre) (oi_Key i) = pre) (bucket_infos b)))), b'))\<rparr>"

lemma next_fault_objects: "next_fault b = (f, b') \<Longrightarrow> bk_objects b' = bk_objects b"
  by (auto simp: next_fault_def split: list.splits)

lemma bucket_deletes: "deletes bucket_remove bucket_contents"
  by (auto simp: deletes_def bucket_remove_def bucket_contents_def split: prod.splits if_splits dest: next_fault_objects)

lemma bucket_infos_keys: "map oi_Key (bucket_infos b) = remdups (map_keys (bk_objects b))"
  by (simp add: bucket_infos_def comp_def)

lemma bucket_infos_set: "oi_Key ` set (bucket_infos b) = dom (bucket_contents b)"
proof -
  have "oi_Key ` set (bucket_infos b) = set (map oi_Key (bucket_infos b))" by simp
  also have "\<dots> = dom (bucket_contents b)" unfolding bucket_infos_keys by (simp add: bucket_contents_def gm.keys_law)
  finally show ?thesis .
qed

lemma bucket_infos_dom: "i \<in> set (bucket_infos b) \<Longrightarrow> oi_Key i \<in> dom (bucket_contents b)"
  using bucket_infos_set by blast

lemma distinct_infos: "distinct (map oi_Key (filter Q (bucket_infos b)))"
  by (rule distinct_map_filter) (simp add: bucket_infos_keys)

lemma bucket_minio_laws: "minio_laws bucket_minio bucket_contents"
proof -
  have st: "bucket_contents b' = bucket_contents b \<and> (\<forall>i. r = Inr i \<longrightarrow> k \<in> dom (bucket_contents b))"
    if "mc_StatObject bucket_minio k b = (r, b')" for k b r b'
    using that by (auto simp: bucket_minio_def bucket_contents_def split: prod.splits option.splits if_splits dest: next_fault_objects)
  have ls: "bucket_contents b' = bucket_contents b \<and> (\<forall>i. Inr i \<in> set ch \<longrightarrow> oi_Key i \<in> dom (bucket_contents b)) \<and>
      distinct (map oi_Key (map projr (filter (\<lambda>x. \<not> isl x) ch))) \<and>
      (pre = [] \<longrightarrow> (\<forall>x \<in> set ch. \<not> isl x) \<longrightarrow> dom (bucket_contents b) \<subseteq> (oi_Key \<circ> projr) ` set ch)"
    if l: "mc_ListObjects bucket_minio pre b = (ch, b')" for pre b ch b'
  proof -
    obtain failed app b1 where nf: "next_fault b = ((failed, app), b1)" by (metis prod.exhaust)
    let ?is = "filter (\<lambda>i. take (length pre) (oi_Key i) = pre) (bucket_infos b)"
    have c: "b' = b1" "ch = map Inr ?is @ (if failed then [Inl ()] else [])" using l nf by (auto simp: bucket_minio_def)
    have 1: "bucket_contents b' = bucket_contents b" using next_fault_objects [OF nf] c(1) by (simp add: bucket_contents_def)
    have 2: "\<forall>i. Inr i \<in> set ch \<longrightarrow> oi_Key i \<in> dom (bucket_contents b)" using bucket_infos_dom c(2) by auto
    have 3: "map projr (filter (\<lambda>x. \<not> isl x) ch) = ?is" unfolding c(2) by (simp add: filter_map comp_def)
    have 4: "dom (bucket_contents b) \<subseteq> (oi_Key \<circ> projr) ` set ch" if "pre = []"
      unfolding bucket_infos_set [symmetric] c(2) using that by (auto intro!: image_eqI [where x = "Inr _"])
    show ?thesis unfolding 3 using 1 2 4 distinct_infos by blast
  qed
  show ?thesis unfolding minio_laws_def using st ls bucket_deletes by (simp add: bucket_minio_def)
qed

lemma bucket_oss_laws: "oss_laws bucket_oss bucket_contents"
proof -
  have st: "bucket_contents b' = bucket_contents b \<and> (r \<noteq> None \<longrightarrow> k \<in> dom (bucket_contents b))"
    if "oc_GetObjectMeta bucket_oss k b = (r, b')" for k b r b'
    using that by (auto simp: bucket_oss_def bucket_contents_def split: prod.splits if_splits dest: next_fault_objects)
  have ls: "bucket_contents b' = bucket_contents b \<and>
      (\<forall>os. r = Some os \<longrightarrow> oi_Key ` set os \<subseteq> dom (bucket_contents b) \<and> distinct (map oi_Key os) \<and> length os \<le> nat n \<and>
         (pre = [] \<longrightarrow> length os < nat n \<longrightarrow> dom (bucket_contents b) \<subseteq> oi_Key ` set os))"
    if l: "oc_ListObjects bucket_oss pre n b = (r, b')" for pre n b r b'
  proof -
    obtain failed app b1 where nf: "next_fault b = ((failed, app), b1)" by (metis prod.exhaust)
    let ?is = "filter (\<lambda>i. take (length pre) (oi_Key i) = pre) (bucket_infos b)"
    have c: "b' = b1" "r = (if failed then None else Some (take (nat n) ?is))" using l nf by (auto simp: bucket_oss_def)
    have 1: "bucket_contents b' = bucket_contents b" using next_fault_objects [OF nf] c(1) by (simp add: bucket_contents_def)
    have "distinct (map oi_Key (take (nat n) ?is))" using distinct_infos by (simp add: distinct_take flip: take_map)
    moreover have "oi_Key ` set (take (nat n) ?is) \<subseteq> dom (bucket_contents b)"
    proof -
      have "set (take (nat n) ?is) \<subseteq> set (bucket_infos b)" by (auto dest!: in_set_takeD)
      then show ?thesis using bucket_infos_set by blast
    qed
    moreover have "dom (bucket_contents b) \<subseteq> oi_Key ` set (take (nat n) ?is)" if "pre = []" "length (take (nat n) ?is) < nat n"
    proof -
      have "take (nat n) ?is = bucket_infos b" using that by simp
      then show ?thesis by (simp add: bucket_infos_set)
    qed
    ultimately show ?thesis using 1 c(2) by auto
  qed
  show ?thesis unfolding oss_laws_def using st ls bucket_deletes by (simp add: bucket_oss_def)
qed

interpretation mnp: object_storage "MinioProvider bucket_minio" bucket_contents
  by (rule minio_storage [OF bucket_minio_laws])

interpretation osp: object_storage "OssProvider bucket_oss" bucket_contents
  by (rule oss_storage [OF bucket_oss_laws])

end
