(* ===== verification/AdminFiles.thy ===== *)
theory AdminFiles
  imports AdminState Files ObjectStorage
begin

text \<open>
  The files in the administration: \<^verbatim>\<open>services/admin/application/file_service.go\<close> and \<^verbatim>\<open>services/admin/api/admin_file.go\<close>.

  The state is that of the administration, the file records and the bucket; the storage provider may be missing. \<open>like\<close> is
  the collation's test for a pattern, \<open>lower\<close> the lower-casing of \<^verbatim>\<open>strings.ToLower\<close> and \<open>sqlLower\<close> that of the database.
\<close>

section \<open>Items\<close>

record 'b file_state =
  fa_admin :: admin_state
  fa_files :: FileStore
  fa_bucket :: 'b

record FileListQuery =
  fq_Page :: int
  fq_PageSize :: int
  fq_Keyword :: string
  fq_UploaderID :: int
  fq_RoomID :: int
  fq_FileType :: string
  fq_Status :: string
  fq_Start :: time
  fq_End :: time

record FileListItem =
  fi_Record :: FileRecord
  fi_Username :: string
  fi_RoomName :: string
  fi_Exists :: bool
  fi_HasMessage :: bool

definition objectExists :: "'b Provider option \<Rightarrow> string \<Rightarrow> 'b \<Rightarrow> bool \<times> 'b" where
  "objectExists storage key b =
     (case storage of
        None \<Rightarrow> (False, b)
      | Some P \<Rightarrow> (case pv_Stat P key b of ((ok, stat), b') \<Rightarrow> (ok \<and> ob_Exists stat, b')))"

definition file_usernames :: "bool \<Rightarrow> int list \<Rightarrow> DB \<Rightarrow> (int, string) gomap" where
  "file_usernames fault userIDs db =
     (if userIDs = [] \<or> fault then []
      else fold (\<lambda>u. map_put (us_ID u) (us_Username u)) (filter (\<lambda>u. us_ID u \<in> set userIDs) (live_users db)) [])"

definition file_roomNames :: "bool \<Rightarrow> int list \<Rightarrow> DB \<Rightarrow> (int, string) gomap" where
  "file_roomNames fault roomIDs db =
     (if roomIDs = [] \<or> fault then []
      else fold (\<lambda>r. map_put (ro_ID r) (ro_Name r)) (filter (\<lambda>r. ro_ID r \<in> set roomIDs) (live_rooms db)) [])"

definition file_username :: "bool \<Rightarrow> int \<Rightarrow> DB \<Rightarrow> string" where
  "file_username fault userID db = (case GetByID fault userID db of Inl _ \<Rightarrow> [] | Inr u \<Rightarrow> us_Username u)"

definition file_roomName :: "bool \<Rightarrow> int \<Rightarrow> DB \<Rightarrow> string" where
  "file_roomName fault roomID db = (case GetRoomByID fault roomID db of Inl _ \<Rightarrow> [] | Inr r \<Rightarrow> ro_Name r)"

definition file_item ::
    "'b Provider option \<Rightarrow> string \<Rightarrow> string \<Rightarrow> FileRecord \<Rightarrow> 'b \<Rightarrow> FileListItem \<times> 'b" where
  "file_item storage name room rec b =
     (case objectExists storage (fr_ObjectKey rec) b of
        (found, b') \<Rightarrow> (\<lparr>fi_Record = rec, fi_Username = name, fi_RoomName = room, fi_Exists = found, fi_HasMessage = fr_MessageID rec > 0\<rparr>, b'))"

fun file_items ::
    "'b Provider option \<Rightarrow> (FileRecord \<Rightarrow> string) \<Rightarrow> (FileRecord \<Rightarrow> string) \<Rightarrow> FileRecord list \<Rightarrow> 'b \<Rightarrow> FileListItem list \<times> 'b" where
  "file_items storage name room [] b = ([], b)"
| "file_items storage name room (rec # recs) b =
     (case file_item storage (name rec) (room rec) rec b of
        (it, b1) \<Rightarrow> (case file_items storage name room recs b1 of (its, b2) \<Rightarrow> (it # its, b2)))"

section \<open>Queries\<close>

definition file_match ::
    "(string \<Rightarrow> string \<Rightarrow> bool) \<Rightarrow> (string \<Rightarrow> string) \<Rightarrow> (string \<Rightarrow> string) \<Rightarrow> FileListQuery \<Rightarrow> FileRecord \<Rightarrow> bool" where
  "file_match like lower sqlLower q r \<longleftrightarrow>
     (fq_Keyword q \<noteq> [] \<longrightarrow> like (fq_Keyword q @ ''%'') (fr_OriginalName r) \<or> like (fq_Keyword q @ ''%'') (fr_ObjectKey r)) \<and>
     (fq_UploaderID q > 0 \<longrightarrow> fr_UploaderID r = fq_UploaderID q) \<and>
     (fq_RoomID q > 0 \<longrightarrow> fr_RoomID r = fq_RoomID q) \<and>
     (fq_FileType q \<noteq> [] \<longrightarrow> like (''%.'' @ lower (fq_FileType q)) (sqlLower (fr_OriginalName r))) \<and>
     (fq_Status q \<noteq> [] \<longrightarrow> fr_Status r = fq_Status q) \<and>
     (\<not> IsZero (fq_Start q) \<longrightarrow> fq_Start q \<le> fr_CreatedAt r) \<and>
     (\<not> IsZero (fq_End q) \<longrightarrow> fr_CreatedAt r < fq_End q)"

definition newest_files :: "FileRecord list \<Rightarrow> FileRecord list" where
  "newest_files rows = rev (sort_key fr_ID rows)"

definition ListFiles ::
    "(string \<Rightarrow> string \<Rightarrow> bool) \<Rightarrow> (string \<Rightarrow> string) \<Rightarrow> (string \<Rightarrow> string) \<Rightarrow> 'b Provider option \<Rightarrow> (nat \<Rightarrow> bool) \<Rightarrow> FileListQuery \<Rightarrow>
     'b file_state \<Rightarrow> (db_error + FileListItem list \<times> nat) \<times> 'b file_state" where
  "ListFiles like lower sqlLower storage fault q s =
     (if fault 0 \<or> fault 1 then (Inl DBFailure, s)
      else
        (let rows = filter (file_match like lower sqlLower q) (fs_rows (fa_files s));
             records = page_of (fq_Page q) (fq_PageSize q) (newest_files rows);
             db = as_db (fa_admin s);
             names = file_usernames (fault 2) (map fr_UploaderID records) db;
             rooms = file_roomNames (fault 3) (map fr_RoomID (filter (\<lambda>r. fr_RoomID r > 0) records)) db;
             look = (\<lambda>m k. case map_get m k of None \<Rightarrow> [] | Some v \<Rightarrow> v)
         in case file_items storage (\<lambda>r. look names (fr_UploaderID r)) (\<lambda>r. look rooms (fr_RoomID r)) records (fa_bucket s) of
              (its, b) \<Rightarrow> (Inr (its, length rows), s\<lparr>fa_bucket := b\<rparr>)))"

definition GetFile ::
    "'b Provider option \<Rightarrow> (nat \<Rightarrow> bool) \<Rightarrow> int \<Rightarrow> 'b file_state \<Rightarrow> (db_error + FileListItem) \<times> 'b file_state" where
  "GetFile storage fault i s =
     (if fault 0 then (Inl DBFailure, s)
      else case find (\<lambda>r. fr_ID r = i) (fs_rows (fa_files s)) of
        None \<Rightarrow> (Inl RecordNotFound, s)
      | Some rec \<Rightarrow>
          (let db = as_db (fa_admin s)
           in case file_item storage (file_username (fault 1) (fr_UploaderID rec) db) (file_roomName (fault 2) (fr_RoomID rec) db) rec (fa_bucket s) of
                (it, b) \<Rightarrow> (Inr it, s\<lparr>fa_bucket := b\<rparr>)))"

section \<open>Deletion\<close>

datatype fileadmin_error = FileLookup db_error | FileDelete | FileObject

text \<open>
  The columns of the table, and those that an insert of a list item names: the item embeds the record, so the insert goes
  to the table of the records, but with a column for each of its own fields too, and the database refuses an insert with
  a column that the table does not have.
\<close>

definition record_columns :: "string list" where
  "record_columns = [''id'', ''object_key'', ''original_name'', ''sha256'', ''size'', ''uploader_id'', ''room_id'', ''backend'', ''status'',
     ''message_id'', ''created_at'', ''updated_at'']"

definition item_columns :: "string list" where
  "item_columns = record_columns @ [''username'', ''room_name'', ''exists'', ''has_message'']"

definition create_row :: "string list \<Rightarrow> FileRecord \<Rightarrow> FileStore \<Rightarrow> FileStore" where
  "create_row columns rec fs = (if set columns \<subseteq> set record_columns then fs\<lparr>fs_rows := fs_rows fs @ [rec]\<rparr> else fs)"

definition DeleteFile ::
    "(audit_value \<Rightarrow> string option) \<Rightarrow> 'b Provider option \<Rightarrow> (nat \<Rightarrow> bool) \<Rightarrow> time \<Rightarrow> int \<Rightarrow> AuditAction \<Rightarrow> 'b file_state \<Rightarrow>
     fileadmin_error option \<times> 'b file_state" where
  "DeleteFile json storage fault now i action s =
     (case GetFile storage fault i s of
        (Inl e, s1) \<Rightarrow> (Some (FileLookup e), s1)
      | (Inr item, s1) \<Rightarrow>
          if fault 3 then (Some FileDelete, s1)
          else
            (let s2 = s1\<lparr>fa_files := (fa_files s1)\<lparr>fs_rows := filter (\<lambda>r. fr_ID r \<noteq> i) (fs_rows (fa_files s1))\<rparr>\<rparr>;
                 logged = (\<lambda>s. s\<lparr>fa_admin := snd (audit_Log json (fault 5) now
                   (success_entry ''file.delete'' ''file'' (FormatInt i) ANil ANil action) (fa_admin s))\<rparr>)
             in case storage of
                  None \<Rightarrow> (None, logged s2)
                | Some P \<Rightarrow>
                    (case pv_Delete P (fr_ObjectKey (fi_Record item)) (fa_bucket s2) of
                       (False, b) \<Rightarrow>
                         (Some FileObject, s2\<lparr>fa_bucket := b,
                            fa_files := (if fault 4 then fa_files s2 else create_row item_columns (fi_Record item) (fa_files s2))\<rparr>)
                     | (True, b) \<Rightarrow> (None, logged (s2\<lparr>fa_bucket := b\<rparr>)))))"

section \<open>Anomalies\<close>

record FileScanResult =
  sc_TotalRecords :: nat
  sc_TotalObjects :: nat
  sc_MissingRecords :: "FileListItem list"
  sc_OrphanObjects :: "ObjectStat list"
  sc_StaleRecords :: "FileListItem list"

definition hours24 :: int where
  "hours24 = 24 * 60 * 60 * 1000000000"

text \<open>The newest 5000 records are all that the scan knows. \<open>nameFault\<close> says which look-ups of a name fail.\<close>

definition scanned :: "FileStore \<Rightarrow> FileRecord list" where
  "scanned fs = take 5000 (newest_files (fs_rows fs))"

definition ScanAnomalies ::
    "'b Provider option \<Rightarrow> bool \<Rightarrow> (int \<Rightarrow> bool) \<Rightarrow> time \<Rightarrow> 'b file_state \<Rightarrow> (unit + FileScanResult) \<times> 'b file_state" where
  "ScanAnomalies storage fault nameFault now s =
     (if fault then (Inl (), s)
      else
        (let records = scanned (fa_files s);
             db = as_db (fa_admin s);
             knownKeys = map fr_ObjectKey records;
             staleBefore = now - hours24
         in case file_items storage (\<lambda>r. file_username (nameFault (fr_ID r)) (fr_UploaderID r) db)
                   (\<lambda>r. file_roomName (nameFault (fr_ID r)) (fr_RoomID r) db) records (fa_bucket s) of
              (its, b) \<Rightarrow>
                (let result = \<lparr>sc_TotalRecords = length records, sc_TotalObjects = 0, sc_MissingRecords = filter (\<lambda>it. \<not> fi_Exists it) its,
                       sc_OrphanObjects = [],
                       sc_StaleRecords = filter (\<lambda>it. fr_MessageID (fi_Record it) = 0 \<and> fr_CreatedAt (fi_Record it) < staleBefore) its\<rparr>
                 in case storage of
                      None \<Rightarrow> (Inr result, s\<lparr>fa_bucket := b\<rparr>)
                    | Some P \<Rightarrow>
                        (case pv_ListObjects P [] 1000 b of
                           (None, b') \<Rightarrow> (Inl (), s\<lparr>fa_bucket := b'\<rparr>)
                         | (Some objects, b') \<Rightarrow>
                             (Inr (result\<lparr>sc_TotalObjects := length objects,
                                          sc_OrphanObjects := filter (\<lambda>o'. ob_Key o' \<notin> set knownKeys) objects\<rparr>),
                              s\<lparr>fa_bucket := b'\<rparr>)))))"

fun delete_orphans :: "'b Provider option \<Rightarrow> ObjectStat list \<Rightarrow> 'b \<Rightarrow> nat \<times> 'b" where
  "delete_orphans storage [] b = (0, b)"
| "delete_orphans storage (obj # objs) b =
     (case (case storage of None \<Rightarrow> (True, b) | Some P \<Rightarrow> pv_Delete P (ob_Key obj) b) of
        (ok, b1) \<Rightarrow> (case delete_orphans storage objs b1 of (n, b2) \<Rightarrow> ((if ok then 1 else 0) + n, b2)))"

definition CleanupOrphans ::
    "(audit_value \<Rightarrow> string option) \<Rightarrow> 'b Provider option \<Rightarrow> bool \<Rightarrow> (int \<Rightarrow> bool) \<Rightarrow> bool \<Rightarrow> time \<Rightarrow> time \<Rightarrow> AuditAction \<Rightarrow> 'b file_state \<Rightarrow>
     (unit + nat) \<times> 'b file_state" where
  "CleanupOrphans json storage fault nameFault auditFault now logTime action s =
     (case ScanAnomalies storage fault nameFault now s of
        (Inl e, s1) \<Rightarrow> (Inl e, s1)
      | (Inr scan, s1) \<Rightarrow>
          (case delete_orphans storage (sc_OrphanObjects scan) (fa_bucket s1) of
             (cleaned, b) \<Rightarrow>
               (let s2 = s1\<lparr>fa_bucket := b\<rparr>
                in (Inr cleaned,
                    if cleaned > 0 then
                      s2\<lparr>fa_admin := snd (audit_Log json auditFault logTime
                        (success_entry ''file.cleanup_orphans'' ''file'' (FormatInt (int cleaned)) ANil ANil action) (fa_admin s2))\<rparr>
                    else s2))))"

text \<open>\<^verbatim>\<open>strings.ReplaceAll\<close> of two backslashes, and the helper on object keys, which no handler calls.\<close>

fun replace_backslashes :: "string \<Rightarrow> string" where
  "replace_backslashes (c # d # cs) =
     (if c = char_of (92 :: nat) \<and> d = char_of (92 :: nat) then CHR ''/'' # replace_backslashes cs else c # replace_backslashes (d # cs))"
| "replace_backslashes cs = cs"

definition SafeObjectKey :: "string \<Rightarrow> string" where
  "SafeObjectKey key =
     (let k = TrimPrefix (path_Clean (replace_backslashes key)) ''/''
      in if k = ''.'' \<or> k = [] then ''file'' else k)"


section \<open>Handlers\<close>

record file_params =
  fp_page :: "string option"
  fp_pageSize :: "string option"
  fp_uploaderID :: "string option"
  fp_roomID :: "string option"
  fp_keyword :: string
  fp_fileType :: string
  fp_status :: string
  fp_start :: time
  fp_end :: time

definition AdminFileList ::
    "(string \<Rightarrow> string \<Rightarrow> bool) \<Rightarrow> (string \<Rightarrow> string) \<Rightarrow> (string \<Rightarrow> string) \<Rightarrow> 'b Provider option \<Rightarrow> bool \<Rightarrow> (nat \<Rightarrow> bool) \<Rightarrow> file_params \<Rightarrow>
     'b file_state \<Rightarrow> (http_status \<times> (FileListItem list \<times> nat) option) \<times> 'b file_state" where
  "AdminFileList like lower sqlLower storage up fault p s =
     (if \<not> up then ((Unavailable, None), s)
      else
        (let (page, pageSize) = page_params (fp_page p) (fp_pageSize p)
         in case ListFiles like lower sqlLower storage fault
                   \<lparr>fq_Page = page, fq_PageSize = pageSize, fq_Keyword = fp_keyword p,
                    fq_UploaderID = fst (ParseInt (DefaultQuery (fp_uploaderID p) ''0'')),
                    fq_RoomID = fst (ParseInt (DefaultQuery (fp_roomID p) ''0'')), fq_FileType = fp_fileType p,
                    fq_Status = fp_status p, fq_Start = fp_start p, fq_End = fp_end p\<rparr> s of
              (Inl _, s') \<Rightarrow> ((ServerError, None), s')
            | (Inr r, s') \<Rightarrow> ((OK, Some r), s')))"

definition AdminFileDetail ::
    "'b Provider option \<Rightarrow> bool \<Rightarrow> (nat \<Rightarrow> bool) \<Rightarrow> string \<Rightarrow> 'b file_state \<Rightarrow> (http_status \<times> FileListItem option) \<times> 'b file_state" where
  "AdminFileDetail storage up fault idText s =
     (case ParseInt idText of
        (_, Some _) \<Rightarrow> ((BadRequest, None), s)
      | (i, None) \<Rightarrow>
          if \<not> up then ((Unavailable, None), s)
          else
            (case GetFile storage fault i s of
               (Inl _, s') \<Rightarrow> ((NotFound, None), s')
             | (Inr item, s') \<Rightarrow> ((OK, Some item), s')))"

definition AdminFileDownload ::
    "'b Provider option \<Rightarrow> bool \<Rightarrow> (nat \<Rightarrow> bool) \<Rightarrow> string \<Rightarrow> 'b file_state \<Rightarrow> (http_status \<times> string) \<times> 'b file_state" where
  "AdminFileDownload storage up fault idText s =
     (case ParseInt idText of
        (_, Some _) \<Rightarrow> ((BadRequest, []), s)
      | (i, None) \<Rightarrow>
          if \<not> up then ((Unavailable, []), s)
          else
            (case GetFile storage fault i s of
               (Inl _, s') \<Rightarrow> ((NotFound, []), s')
             | (Inr item, s') \<Rightarrow>
                 (case storage of
                    None \<Rightarrow> ((ServerError, []), s')
                  | Some P \<Rightarrow>
                      (case pv_GetDownloadURL P (fr_ObjectKey (fi_Record item)) (fa_bucket s') of
                         (None, b) \<Rightarrow> ((NotFound, []), s'\<lparr>fa_bucket := b\<rparr>)
                       | (Some url, b) \<Rightarrow> ((OK, url), s'\<lparr>fa_bucket := b\<rparr>)))))"

definition AdminFileDelete ::
    "(audit_value \<Rightarrow> string option) \<Rightarrow> 'b Provider option \<Rightarrow> bool \<Rightarrow> (nat \<Rightarrow> bool) \<Rightarrow> time \<Rightarrow> gin_context \<Rightarrow> admin_request \<Rightarrow> 'b file_state \<Rightarrow>
     http_status \<times> 'b file_state" where
  "AdminFileDelete json storage up fault now c rq s =
     (case ParseInt (rq_id rq) of
        (_, Some _) \<Rightarrow> (BadRequest, s)
      | (i, None) \<Rightarrow>
          if \<not> up then (Unavailable, s)
          else
            (case DeleteFile json storage fault now i (adminAuditAction c rq) s of
               (Some _, s') \<Rightarrow> (ServerError, s')
             | (None, s') \<Rightarrow> (OK, s')))"

definition AdminFileScan ::
    "'b Provider option \<Rightarrow> bool \<Rightarrow> bool \<Rightarrow> (int \<Rightarrow> bool) \<Rightarrow> time \<Rightarrow> 'b file_state \<Rightarrow> (http_status \<times> FileScanResult option) \<times> 'b file_state" where
  "AdminFileScan storage up fault nameFault now s =
     (if \<not> up then ((Unavailable, None), s)
      else
        (case ScanAnomalies storage fault nameFault now s of
           (Inl _, s') \<Rightarrow> ((ServerError, None), s')
         | (Inr r, s') \<Rightarrow> ((OK, Some r), s')))"

definition AdminFileCleanup ::
    "(audit_value \<Rightarrow> string option) \<Rightarrow> 'b Provider option \<Rightarrow> bool \<Rightarrow> bool \<Rightarrow> (int \<Rightarrow> bool) \<Rightarrow> bool \<Rightarrow> time \<Rightarrow> time \<Rightarrow> gin_context \<Rightarrow> admin_request \<Rightarrow>
     'b file_state \<Rightarrow> (http_status \<times> nat) \<times> 'b file_state" where
  "AdminFileCleanup json storage up fault nameFault auditFault now logTime c rq s =
     (if \<not> up then ((Unavailable, 0), s)
      else
        (case CleanupOrphans json storage fault nameFault auditFault now logTime (adminAuditAction c rq) s of
           (Inl _, s') \<Rightarrow> ((ServerError, 0), s')
         | (Inr cleaned, s') \<Rightarrow> ((OK, cleaned), s')))"

section \<open>Deletion and clean-up over any storage\<close>

lemma item_insert_refused: "create_row item_columns rec fs = fs"
proof -
  have "''username'' \<in> set item_columns - set record_columns" by code_simp
  then have "\<not> set item_columns \<subseteq> set record_columns" by blast
  then show ?thesis by (simp add: create_row_def)
qed

context object_storage
begin

lemma objectExists_keeps: "objectExists (Some P) k b = (found, b') \<Longrightarrow> contents b' = contents b \<and> (found \<longrightarrow> k \<in> dom (contents b))"
  using stat_keeps [of k b] stat_found [of k b] by (auto simp: objectExists_def split: prod.splits)

lemma file_items_keeps: "file_items (Some P) name room recs b = (its, b') \<Longrightarrow> contents b' = contents b \<and> map fi_Record its = recs"
proof (induction recs arbitrary: b its)
  case (Cons r recs)
  obtain found b1 where e: "objectExists (Some P) (fr_ObjectKey r) b = (found, b1)" by (rule prod.exhaust)
  obtain its' b2 where i: "file_items (Some P) name room recs b1 = (its', b2)" by (rule prod.exhaust)
  from Cons.prems Cons.IH [of b1 its'] objectExists_keeps [OF e] e i show ?case
    by (auto simp: file_item_def)
qed simp

lemma GetFile_keeps:
  assumes "GetFile (Some P) fault i s = (res, s')"
  shows "contents (fa_bucket s') = contents (fa_bucket s)" "fa_files s' = fa_files s" "fa_admin s' = fa_admin s"
    "res = Inr item \<Longrightarrow> find (\<lambda>r. fr_ID r = i) (fs_rows (fa_files s)) = Some (fi_Record item)"
proof -
  have "contents (fa_bucket s') = contents (fa_bucket s) \<and> fa_files s' = fa_files s \<and> fa_admin s' = fa_admin s \<and>
    (res = Inr item \<longrightarrow> find (\<lambda>r. fr_ID r = i) (fs_rows (fa_files s)) = Some (fi_Record item))"
  proof (cases "fault 0 \<or> find (\<lambda>r. fr_ID r = i) (fs_rows (fa_files s)) = None")
    case True
    with assms show ?thesis by (auto simp: GetFile_def split: if_splits)
  next
    case False
    then obtain rec where rec: "\<not> fault 0" "find (\<lambda>r. fr_ID r = i) (fs_rows (fa_files s)) = Some rec" by blast
    obtain found b1 where e: "objectExists (Some P) (fr_ObjectKey rec) (fa_bucket s) = (found, b1)" by (rule prod.exhaust)
    from assms rec e objectExists_keeps [OF e] show ?thesis by (auto simp: GetFile_def file_item_def Let_def)
  qed
  then show "contents (fa_bucket s') = contents (fa_bucket s)" "fa_files s' = fa_files s" "fa_admin s' = fa_admin s"
    "res = Inr item \<Longrightarrow> find (\<lambda>r. fr_ID r = i) (fs_rows (fa_files s)) = Some (fi_Record item)" by blast+
qed

lemma delete_orphans_contents:
  assumes "delete_orphans (Some P) objs b = (n, b')" "distinct (map ob_Key objs)"
  shows "(\<forall>k. contents b' k = contents b k \<or> k \<in> ob_Key ` set objs \<and> contents b' k = None) \<and> n \<le> length objs \<and>
    (n = length objs \<longrightarrow> contents b' = contents b |` (- ob_Key ` set objs))"
  using assms
proof (induction objs arbitrary: b n)
  case (Cons obj objs)
  obtain ok b1 where d: "pv_Delete P (ob_Key obj) b = (ok, b1)" by (rule prod.exhaust)
  obtain m b2 where r: "delete_orphans (Some P) objs b1 = (m, b2)" by (rule prod.exhaust)
  have e: "b' = b2" "n = (if ok then 1 else 0) + m" using Cons.prems(1) d r by auto
  have ih: "\<forall>k. contents b2 k = contents b1 k \<or> k \<in> ob_Key ` set objs \<and> contents b2 k = None" "m \<le> length objs"
    "m = length objs \<longrightarrow> contents b2 = contents b1 |` (- ob_Key ` set objs)"
    using Cons.IH [OF r [folded e(1)]] Cons.prems(2) e(1) by simp_all
  have del: "\<forall>k. contents b1 k = contents b k \<or> k = ob_Key obj \<and> contents b1 k = None"
    using delete_any [OF d] by (auto split: if_splits)
  have "\<forall>k. contents b' k = contents b k \<or> k \<in> ob_Key ` set (obj # objs) \<and> contents b' k = None"
  proof
    fix k
    from ih(1) del show "contents b' k = contents b k \<or> k \<in> ob_Key ` set (obj # objs) \<and> contents b' k = None"
      unfolding e(1) by (metis insert_iff image_insert list.simps(15))
  qed
  moreover have "n \<le> length (obj # objs)" using ih(2) e(2) by simp
  moreover have "contents b' = contents b |` (- ob_Key ` set (obj # objs))" if "n = length (obj # objs)"
  proof -
    have ok: "ok" and m: "m = length objs" using that ih(2) e(2) by (auto split: if_splits)
    have "contents b1 = (contents b)(ob_Key obj := None)" using delete_ok d ok by simp
    with ih(3) m e(1) show ?thesis by (auto simp: fun_eq_iff restrict_map_def)
  qed
  ultimately show ?case by blast
qed (simp add: restrict_map_def fun_eq_iff)

text \<open>The listing of a scan and what it calls orphans.\<close>

lemma ScanAnomalies_Inr:
  assumes "ScanAnomalies (Some P) fault nameFault now s = (Inr scan, s')"
  shows "\<exists>listed. sc_OrphanObjects scan = filter (\<lambda>ob. ob_Key ob \<notin> fr_ObjectKey ` set (scanned (fa_files s))) listed \<and>
    distinct (map ob_Key listed) \<and> ob_Key ` set listed \<subseteq> dom (contents (fa_bucket s)) \<and>
    (length listed < 1000 \<longrightarrow> ob_Key ` set listed = dom (contents (fa_bucket s))) \<and>
    contents (fa_bucket s') = contents (fa_bucket s) \<and> fa_files s' = fa_files s \<and> fa_admin s' = fa_admin s"
proof -
  let ?name = "\<lambda>r. file_username (nameFault (fr_ID r)) (fr_UploaderID r) (as_db (fa_admin s))"
  let ?room = "\<lambda>r. file_roomName (nameFault (fr_ID r)) (fr_RoomID r) (as_db (fa_admin s))"
  obtain its b where i: "file_items (Some P) ?name ?room (scanned (fa_files s)) (fa_bucket s) = (its, b)" by (rule prod.exhaust)
  obtain r b' where l: "pv_ListObjects P [] 1000 b = (r, b')" by (rule prod.exhaust)
  have b: "contents b = contents (fa_bucket s)" using file_items_keeps [OF i] by simp
  from assms i l obtain listed where x: "r = Some listed"
    "sc_OrphanObjects scan = filter (\<lambda>ob. ob_Key ob \<notin> fr_ObjectKey ` set (scanned (fa_files s))) listed" "s' = s\<lparr>fa_bucket := b'\<rparr>"
    by (cases r) (auto simp: ScanAnomalies_def Let_def split: if_splits)
  note l' = l [unfolded x(1)]
  have "contents b' = contents (fa_bucket s)" using list_keeps [OF l] b by simp
  moreover have "ob_Key ` set listed \<subseteq> dom (contents (fa_bucket s))" "distinct (map ob_Key listed)"
    using list_sound [OF l'] b by simp_all
  moreover have "length listed < 1000 \<longrightarrow> dom (contents (fa_bucket s)) \<subseteq> ob_Key ` set listed"
    using list_complete [OF l'] b by simp
  ultimately show ?thesis using x by (intro exI [of _ listed]) auto
qed

lemma cleanup_storage:
  assumes "CleanupOrphans json (Some P) fault nameFault auditFault now logTime action s = (Inr cleaned, s')"
  shows "fa_files s' = fa_files s \<and>
    (\<exists>orphans \<subseteq> dom (contents (fa_bucket s)) - fr_ObjectKey ` set (scanned (fa_files s)).
       finite orphans \<and> cleaned \<le> card orphans \<and>
       (\<forall>k. contents (fa_bucket s') k = contents (fa_bucket s) k \<or> k \<in> orphans \<and> contents (fa_bucket s') k = None) \<and>
       (cleaned = card orphans \<longrightarrow> contents (fa_bucket s') = contents (fa_bucket s) |` (- orphans)) \<and>
       (finite (dom (contents (fa_bucket s))) \<and> card (dom (contents (fa_bucket s))) < 1000 \<longrightarrow>
          orphans = dom (contents (fa_bucket s)) - fr_ObjectKey ` set (scanned (fa_files s))))"
proof -
  obtain scan s1 where sc: "ScanAnomalies (Some P) fault nameFault now s = (Inr scan, s1)"
    using assms by (cases "ScanAnomalies (Some P) fault nameFault now s"; cases "fst (ScanAnomalies (Some P) fault nameFault now s)")
      (auto simp: CleanupOrphans_def)
  let ?known = "fr_ObjectKey ` set (scanned (fa_files s))" and ?c = "contents (fa_bucket s)"
  from ScanAnomalies_Inr [OF sc] obtain listed where
    l: "sc_OrphanObjects scan = filter (\<lambda>ob. ob_Key ob \<notin> ?known) listed" "distinct (map ob_Key listed)" "ob_Key ` set listed \<subseteq> dom ?c"
      "length listed < 1000 \<longrightarrow> ob_Key ` set listed = dom ?c" "contents (fa_bucket s1) = ?c" "fa_files s1 = fa_files s" by blast
  obtain n b where d: "delete_orphans (Some P) (sc_OrphanObjects scan) (fa_bucket s1) = (n, b)" by (rule prod.exhaust)
  have r: "cleaned = n" "fa_bucket s' = b" "fa_files s' = fa_files s1" using assms sc d by (auto simp: CleanupOrphans_def Let_def)
  define orphans where "orphans = ob_Key ` set (sc_OrphanObjects scan)"
  have dist: "distinct (map ob_Key (sc_OrphanObjects scan))" unfolding l(1) using l(2) by (simp add: distinct_map_filter)
  have card: "card orphans = length (sc_OrphanObjects scan)"
    unfolding orphans_def using distinct_card [OF dist] by simp
  note del = delete_orphans_contents [OF d dist, folded orphans_def card, unfolded l(5)]
  have sub: "orphans \<subseteq> dom ?c - ?known" unfolding orphans_def l(1) using l(3) by auto
  have all: "orphans = dom ?c - ?known" if "finite (dom ?c)" "card (dom ?c) < 1000"
  proof -
    have "length listed \<le> card (dom ?c)" using card_mono [OF that(1) l(3)] distinct_card [OF l(2)] by simp
    with that(2) l(4) have "ob_Key ` set listed = dom ?c" by simp
    then show ?thesis unfolding orphans_def l(1) by auto
  qed
  have "finite orphans" by (simp add: orphans_def)
  with del sub all r l(6) show ?thesis by (intro conjI exI [of _ orphans]) simp_all
qed

end


section \<open>Properties\<close>

text \<open>A provider of the program over a client library that keeps its documented behaviour.\<close>

definition real_provider :: "'b Provider \<Rightarrow> ('b \<Rightarrow> (string \<rightharpoonup> object_info)) \<Rightarrow> bool" where
  "real_provider P contents \<longleftrightarrow>
     (\<exists>c. P = MinioProvider c \<and> minio_laws c contents) \<or> (\<exists>c. P = OssProvider c \<and> oss_laws c contents)"

lemma real_provider_storage: "real_provider P contents \<Longrightarrow> object_storage P contents"
  using minio_storage oss_storage by (auto simp: real_provider_def)

text \<open>
  C33: What the clean-up of orphaned objects removes, with the MinIO and with the OSS provider and whatever calls fail: no
  record changes; objects disappear only if none of the newest 5000 records names them; the number it reports is at most
  the number of those it tried to delete, and when it reaches it they are all gone. A bucket of fewer than 1000 objects is
  cleaned completely. With at most 5000 records every registered file keeps its object; the age of an object plays no role.
\<close>

theorem cleanup_exact:
  assumes "real_provider P contents"
    and "AdminFileCleanup json (Some P) True fault nameFault auditFault now logTime c rq s = ((OK, cleaned), s')"
  shows "fa_files s' = fa_files s \<and>
    (\<exists>orphans \<subseteq> dom (contents (fa_bucket s)) - fr_ObjectKey ` set (scanned (fa_files s)).
       finite orphans \<and> cleaned \<le> card orphans \<and>
       (\<forall>k. contents (fa_bucket s') k = contents (fa_bucket s) k \<or> k \<in> orphans \<and> contents (fa_bucket s') k = None) \<and>
       (cleaned = card orphans \<longrightarrow> contents (fa_bucket s') = contents (fa_bucket s) |` (- orphans)) \<and>
       (finite (dom (contents (fa_bucket s))) \<and> card (dom (contents (fa_bucket s))) < 1000 \<longrightarrow>
          orphans = dom (contents (fa_bucket s)) - fr_ObjectKey ` set (scanned (fa_files s)))) \<and>
    (length (fs_rows (fa_files s)) \<le> 5000 \<longrightarrow>
       (\<forall>rec \<in> set (fs_rows (fa_files s)). contents (fa_bucket s') (fr_ObjectKey rec) = contents (fa_bucket s) (fr_ObjectKey rec)))"
proof -
  have co: "CleanupOrphans json (Some P) fault nameFault auditFault now logTime (adminAuditAction c rq) s = (Inr cleaned, s')"
    using assms(2) by (auto simp: AdminFileCleanup_def split: prod.splits sum.splits)
  note st = object_storage.cleanup_storage [OF real_provider_storage [OF assms(1)] co]
  have "contents (fa_bucket s') (fr_ObjectKey rec) = contents (fa_bucket s) (fr_ObjectKey rec)"
    if "length (fs_rows (fa_files s)) \<le> 5000" "rec \<in> set (fs_rows (fa_files s))" for rec
  proof -
    have "set (scanned (fa_files s)) = set (fs_rows (fa_files s))" using that(1) by (simp add: scanned_def newest_files_def)
    then have "fr_ObjectKey rec \<in> fr_ObjectKey ` set (scanned (fa_files s))" using that(2) by simp
    with st show ?thesis by blast
  qed
  with st show ?thesis by blast
qed

text \<open>
  C34: Deleting a file as an administrator, with either provider. Success means that the record is gone, the object of its
  key is gone, nothing else of both changed, and the log has an entry unless writing it failed. If the record does not
  exist or the database refuses, nothing changes. But if the object storage refuses, the record is gone all the same: the
  insert that should put it back names columns the table does not have, so the object stays behind without a record.
\<close>

theorem delete_file_exact:
  assumes "real_provider P contents" "DeleteFile json (Some P) fault now i action s = (res, s')"
  shows "case res of
      None \<Rightarrow> \<exists>rec \<in> set (fs_rows (fa_files s)). fr_ID rec = i \<and>
        fs_rows (fa_files s') = filter (\<lambda>r. fr_ID r \<noteq> i) (fs_rows (fa_files s)) \<and>
        contents (fa_bucket s') = (contents (fa_bucket s))(fr_ObjectKey rec := None) \<and>
        (\<not> fault 5 \<longrightarrow> (\<exists>row. as_audit (fa_admin s') = as_audit (fa_admin s) @ [row] \<and> al_Action row = ''file.delete'' \<and>
           al_TargetID row = FormatInt i \<and> al_AdminUserID row = aa_AdminUserID action))
    | Some (FileLookup _) \<Rightarrow> fa_files s' = fa_files s \<and> fa_admin s' = fa_admin s \<and> contents (fa_bucket s') = contents (fa_bucket s)
    | Some FileDelete \<Rightarrow> fa_files s' = fa_files s \<and> fa_admin s' = fa_admin s \<and> contents (fa_bucket s') = contents (fa_bucket s)
    | Some FileObject \<Rightarrow> fs_rows (fa_files s') = filter (\<lambda>r. fr_ID r \<noteq> i) (fs_rows (fa_files s)) \<and>
        (\<exists>rec \<in> set (fs_rows (fa_files s)). fr_ID rec = i \<and>
           (contents (fa_bucket s') = contents (fa_bucket s) \<or>
            contents (fa_bucket s') = (contents (fa_bucket s))(fr_ObjectKey rec := None)))"
proof -
  note st = real_provider_storage [OF assms(1)]
  obtain r s1 where g: "GetFile (Some P) fault i s = (r, s1)" by (rule prod.exhaust)
  note k = object_storage.GetFile_keeps [OF st g]
  show ?thesis
  proof (cases r)
    case (Inl e)
    with assms(2) g k(1-3) show ?thesis by (auto simp: DeleteFile_def)
  next
    case (Inr item)
    show ?thesis
    proof (cases "fault 3")
      case True
      with assms(2) g Inr k(1-3) show ?thesis by (auto simp: DeleteFile_def)
    next
      case False
      let ?rec = "fi_Record item"
      have rec: "?rec \<in> set (fs_rows (fa_files s))" "fr_ID ?rec = i" using find_SomeD [OF k(4) [OF Inr]] by simp_all
      obtain ok b where d: "pv_Delete P (fr_ObjectKey ?rec) (fa_bucket s1) = (ok, b)" by (rule prod.exhaust)
      show ?thesis
      proof (cases ok)
        case True
        have c: "contents b = (contents (fa_bucket s))(fr_ObjectKey ?rec := None)"
          using object_storage.delete_ok [OF st] d True k(1) by simp
        have "res = None" "fs_rows (fa_files s') = filter (\<lambda>r. fr_ID r \<noteq> i) (fs_rows (fa_files s))" "fa_bucket s' = b"
          "fa_admin s' = snd (audit_Log json (fault 5) now (success_entry ''file.delete'' ''file'' (FormatInt i) ANil ANil action) (fa_admin s))"
          using assms(2) g Inr False d True k(2,3) by (auto simp: DeleteFile_def Let_def)
        with c rec show ?thesis by (auto simp: audit_Log_def Let_def success_entry_def intro!: bexI [of _ ?rec])
      next
        case no: False
        have c: "contents b = contents (fa_bucket s) \<or> contents b = (contents (fa_bucket s))(fr_ObjectKey ?rec := None)"
          using object_storage.delete_any [OF st d] k(1) by simp
        have "res = Some FileObject" "fs_rows (fa_files s') = filter (\<lambda>r. fr_ID r \<noteq> i) (fs_rows (fa_files s))" "fa_bucket s' = b"
          using assms(2) g Inr False d no k(2,3) by (auto simp: DeleteFile_def Let_def item_insert_refused)
        with c rec show ?thesis by auto
      qed
    qed
  qed
qed


section \<open>Examples\<close>

definition sample_file :: FileRecord where
  "sample_file = \<lparr>fr_ID = 7, fr_ObjectKey = ''a'', fr_OriginalName = ''a.txt'', fr_SHA256 = [], fr_Size = 3, fr_UploaderID = 7, fr_RoomID = 0,
     fr_Backend = ''minio'', fr_Status = ''uploaded'', fr_MessageID = 0, fr_CreatedAt = 1, fr_UpdatedAt = 1\<rparr>"

definition sample_object :: object_info where
  "sample_object = \<lparr>oi_Key = [], oi_Size = 3, oi_LastModified = 1, oi_ETag = []\<rparr>"

definition sample_file_state :: "(bool \<times> bool) list \<Rightarrow> bucket file_state" where
  "sample_file_state fl =
     \<lparr>fa_admin = \<lparr>as_db = sample_users, as_hub = None, as_presence = [], as_audit = [], as_nextAudit = 1\<rparr>,
      fa_files = \<lparr>fs_rows = [sample_file], fs_next = 8\<rparr>,
      fa_bucket = \<lparr>bk_objects = [(''a'', sample_object), (''z'', sample_object)], bk_faults = fl\<rparr>\<rparr>"

lemma sample_provider: "real_provider (MinioProvider bucket_minio) bucket_contents"
  using bucket_minio_laws by (auto simp: real_provider_def)

theorem cleanup_exact_witness:
  "\<exists>s'. AdminFileCleanup (\<lambda>_. None) (Some (MinioProvider bucket_minio)) True False (\<lambda>_. False) False 5 5 sample_admin sample_admin_request
       (sample_file_state []) = ((OK, 1), s') \<and>
     bucket_contents (fa_bucket s') ''a'' = Some sample_object \<and> dom (bucket_contents (fa_bucket s')) \<subseteq> {''a'', ''z''}"
proof -
  let ?P = "MinioProvider bucket_minio" and ?s = "sample_file_state []"
  let ?r = "AdminFileCleanup (\<lambda>_. None) (Some ?P) True False (\<lambda>_. False) False 5 5 sample_admin sample_admin_request ?s"
  have "fst ?r = (OK, 1)" by code_simp
  then have r: "?r = ((OK, 1), snd ?r)" by (metis prod.collapse)
  note th = cleanup_exact [OF sample_provider r]
  have rows: "fs_rows (fa_files ?s) = [sample_file]" by (simp add: sample_file_state_def)
  have before: "bucket_contents (fa_bucket ?s) = [''a'' \<mapsto> sample_object, ''z'' \<mapsto> sample_object]"
    by (auto simp: sample_file_state_def bucket_contents_def map_get_def fun_eq_iff)
  have "bucket_contents (fa_bucket (snd ?r)) ''a'' = Some sample_object"
    using th rows before by (auto simp: sample_file_def)
  moreover have "dom (bucket_contents (fa_bucket (snd ?r))) \<subseteq> dom (bucket_contents (fa_bucket ?s))"
  proof
    fix k assume "k \<in> dom (bucket_contents (fa_bucket (snd ?r)))"
    with th show "k \<in> dom (bucket_contents (fa_bucket ?s))" by (metis domIff)
  qed
  ultimately show ?thesis using r before by (intro exI [of _ "snd ?r"]) auto
qed

theorem delete_file_exact_witness:
  "\<exists>s'. DeleteFile (\<lambda>_. None) (Some (MinioProvider bucket_minio)) (\<lambda>_. False) 5 7 (adminAuditAction sample_admin sample_admin_request)
       (sample_file_state [(False, False), (True, False)]) = (Some FileObject, s') \<and> fs_rows (fa_files s') = []"
proof -
  let ?s = "sample_file_state [(False, False), (True, False)]"
  let ?r = "DeleteFile (\<lambda>_. None) (Some (MinioProvider bucket_minio)) (\<lambda>_. False) 5 7 (adminAuditAction sample_admin sample_admin_request) ?s"
  have "fst ?r = Some FileObject" by code_simp
  then have r: "?r = (Some FileObject, snd ?r)" by (metis prod.collapse)
  have "filter (\<lambda>r. fr_ID r \<noteq> 7) (fs_rows (fa_files ?s)) = []" by (simp add: sample_file_state_def sample_file_def)
  with delete_file_exact [OF sample_provider r] r show ?thesis by (intro exI [of _ "snd ?r"]) simp
qed

text \<open>The helper on keys keeps a path that leaves the bucket's root.\<close>

lemma SafeObjectKey_keeps_parent: "SafeObjectKey ''../x'' = ''../x''"
  by code_simp

end
