(* ===== verification/Spec2Isabelle.thy ===== *)
theory Spec2Isabelle
  imports Events Models Sequencer Pipeline HubSpec HubDispatch HubRaces WritePump Producer LoginProtector
    Store Rooms Auth Files Cache MessageStore Archiver AdminControl AdminActions AgentConfig
    Gateway RoomAgent Moderation MessageStats AdminQueries ObjectStorage AdminFiles
begin

text \<open>
  A verification of the LAN chat server under \<^verbatim>\<open>src/\<close>.

  \<^bold>\<open>The program.\<close> Users log in over HTTP (\<^verbatim>\<open>services/auth\<close>), keep rooms and memberships in MySQL (\<^verbatim>\<open>services/rooms\<close>,
  \<^verbatim>\<open>services/users\<close>) and talk over WebSockets (\<^verbatim>\<open>services/gateway\<close>). A chat frame goes from the read pump of a
  connection to the producer (\<^verbatim>\<open>services/messages/producer\<close>), through a Kafka topic to the sequencer, which numbers it
  once and for all (\<^verbatim>\<open>services/messages/sequencer\<close>), through a second topic to the archiver, which stores it in MySQL or
  MongoDB and pushes it to Redis (\<^verbatim>\<open>services/messages/archiver\<close>, \<^verbatim>\<open>repository\<close>, \<^verbatim>\<open>cache\<close>), and by the relay back to
  the hub of every gateway, which fans it out to the connections of the room; their write pumps batch it onto the wire.
  Administrators act on users, rooms, connections, files and the configuration of the agents (\<^verbatim>\<open>services/admin\<close>).

  \<^bold>\<open>Conventions.\<close> A Go struct is a record with a two-letter prefix for its fields, an error a value of a sum or option
  type, a method a function that takes the state and returns it. A call that may fail (database, Redis, Kafka) takes
  its outcome as an argument: a flag, or \<open>fault n\<close> for the n-th call. Where the code runs concurrently a schedule is an
  explicit list of steps, and the theorems hold for every schedule. Integers are unbounded and wrapped to 64 or 8 bits
  where the code can overflow (\<open>wrap64\<close>, \<open>wrap8\<close>, \<open>to_uint64\<close>). Code outside the repository (protobuf and JSON
  codecs, signatures, password hashes, URL signing, collations) is a parameter; what is assumed of it is a named
  hypothesis of the theorem, and a witness shows that it can hold.

  \<^bold>\<open>The theories.\<close>
  \<^item> \<open>Prelude\<close>, \<open>GoStrings\<close>, \<open>GoChan\<close>: integers, time, maps (locale \<open>go_map\<close>), decimal text with its round trip,
    splitting and path cleaning, buffered channels.
  \<^item> \<open>Events\<close> (\<^verbatim>\<open>contracts/events/message.go\<close>): the message envelope; \<open>message_roundtrip\<close> is the round trip through
    the wire format, the fallback to the old JSON format included.
  \<^item> \<open>Models\<close> (\<^verbatim>\<open>services/messages/models\<close>): messages, their Mongo documents and the reconciliation of a replay.
  \<^item> \<open>Sequencer\<close>, \<open>Pipeline\<close> (\<^verbatim>\<open>sequencer.go\<close>, \<^verbatim>\<open>pipeline.go\<close>, \<^verbatim>\<open>batch.go\<close>, \<^verbatim>\<open>relay_batch.go\<close>): numbers in a room are
    dense and ordered, a retry gets the original number, the batched loop agrees with the simple one, no offset is
    committed before its records were acknowledged, and with a healthy broker every record is numbered.
  \<^item> \<open>Hub\<close>, \<open>HubSpec\<close>, \<open>HubDispatch\<close>, \<open>HubRaces\<close>, \<open>WritePump\<close> (\<^verbatim>\<open>services/gateway/websocket\<close>): the sharded registry
    refines a flat one, routing is exact after every sequence of operations, every subscriber gets a message exactly
    once whatever the order of the fan-out tasks, a shard is first-in first-out, and what goes wrong when the two phases
    of \<^verbatim>\<open>DisbandRoom\<close> interleave with others; the write pump keeps every message once and in order.
  \<^item> \<open>Producer\<close> (\<^verbatim>\<open>producer-kafka.go\<close>, \<^verbatim>\<open>ReadPump\<close>): every accepted message is answered exactly once, also at shutdown.
  \<^item> \<open>Store\<close>, \<open>Rooms\<close> (\<^verbatim>\<open>services/users\<close>, \<^verbatim>\<open>services/rooms\<close>): the tables, the room service, its handlers and the
    notifications to the gateways; a user online is subscribed to a room exactly if he is a member of it.
  \<^item> \<open>LoginProtector\<close>, \<open>Auth\<close> (\<^verbatim>\<open>services/auth\<close>, \<^verbatim>\<open>shared/auth\<close>, \<^verbatim>\<open>shared/http/middleware\<close>): rate limits of logins, roles,
    tokens, the middleware chain and the routes of the administration, login and registration.
  \<^item> \<open>Files\<close> (\<^verbatim>\<open>file_service.go\<close>, \<^verbatim>\<open>file_handler.go\<close> of the messages): object keys, registration of uploads and who gets
    a download link.
  \<^item> \<open>Cache\<close> (\<^verbatim>\<open>cache/redisconfig.go\<close>): presence keys with their owners and the sorted sets of the latest messages.
  \<^item> \<open>MessageStore\<close> (\<^verbatim>\<open>services/messages/repository\<close>, \<^verbatim>\<open>history_handler.go\<close>, \<^verbatim>\<open>search_handler.go\<close>): both message
    stores, idempotent saving, paging through the history, the agreement of the two stores.
  \<^item> \<open>Archiver\<close> (\<^verbatim>\<open>worker-kafka.go\<close>): the contract of a message store is the locale that the worker's proofs use; it is
    interpreted for MySQL and for MongoDB. Nothing is lost whatever fails, and a restarted worker catches up.
  \<^item> \<open>AdminControl\<close>, \<open>AdminState\<close>, \<open>AdminActions\<close> (\<^verbatim>\<open>services/admin\<close>): the runtime controller (locale
    \<open>runtime_controller\<close>, interpreted for the local one and for the gRPC client and server), the audit log, and the
    actions on users and rooms with their permissions and audit entries.
  \<^item> \<open>Gateway\<close>, \<open>AgentModel\<close>, \<open>RoomAgent\<close> (\<^verbatim>\<open>ws_handler.go\<close>, \<^verbatim>\<open>room_agent.go\<close> of the gateway's handlers, \<^verbatim>\<open>grpc/server.go\<close>): the
    life of a WebSocket connection with its presence key, the service that the agent calls, and the handler that manages
    the agent of a room; whatever a gateway does, subscriptions follow memberships, an old connection cannot hurt a new
    one, and managing an agent touches nothing but the agent.
  \<^item> \<open>AgentConfig\<close> (\<^verbatim>\<open>agent_config_service.go\<close>, \<^verbatim>\<open>admin_agent_config.go\<close>): the versioned configuration of the agents; the
    history is gap free and a rollback undoes an update.
  \<^item> \<open>ModerationModel\<close>, \<open>Moderation\<close> (\<^verbatim>\<open>moderation_dashboard.go\<close>, \<^verbatim>\<open>admin_moderation.go\<close>): the reports on the moderation events,
    their list and the reviews; a review changes one event and nothing else.
  \<^item> \<open>MessageStats\<close> (\<^verbatim>\<open>message_stats.go\<close>): the statistics over both message stores. The locale \<open>message_stats\<close> says what
    they count; it is interpreted for MySQL and for MongoDB. The stores agree except on the mentions of the agent.
  \<^item> \<open>AdminQueries\<close> (\<^verbatim>\<open>user_service.go\<close>, \<^verbatim>\<open>room_service.go\<close>): lists and details of users and rooms; the batched queries of
    a list show what the single queries of a detail show.
  \<^item> \<open>ObjectStorage\<close>, \<open>AdminFiles\<close> (\<^verbatim>\<open>services/messages/storage\<close>, \<^verbatim>\<open>file_service.go\<close> and \<^verbatim>\<open>admin_file.go\<close> of the
    administration): the locale \<open>object_storage\<close> is what a provider promises, interpreted for the MinIO and the OSS provider
    over a bucket with failing calls; what deletion and clean-up remove, and what a failing deletion loses.

  \<^bold>\<open>Bounds and fuel.\<close> Loops over an input are structural recursions. The endless loops of the program (pumps, sequencer,
  producer, archiver) are step functions folded over a finite list of events, so a theorem about every list covers every
  prefix of an endless run; statements that something happens eventually name the events that have to occur. The batched
  sequencer loop is a terminating function on the remaining schedule. Pages of the history are followed with a bound on
  the number of pages that the theorem computes from the number of messages.

  \<^bold>\<open>Not modelled.\<close> Metrics, logging and the security headers have no effect on the state. The start-up code, the
  configuration from the environment and the routers only connect the parts. Elasticsearch is reached over HTTP; its
  answers are a parameter of the search. Of the object storage the SDK clients are parameters, and the upload of a stream
  and the construction of the providers are left out. The reports on retrieval, tool calls and system errors read tables
  that other programs write. The task pool wraps a library; the fan-out is proved for every order of its tasks.
\<close>

end
